(* ===== verification/Prelude.thy ===== *)
theory Prelude
  imports Complex_Main "HOL-Library.Word" "HOL-Library.AList" "HOL-Library.Multiset"
    "HOL-Library.Char_ord" "HOL-Library.List_Lexorder" "HOL-Library.Sublist"
begin

section \<open>Prelude: Go values shared by every component\<close>

text \<open>
  What every component theory uses: the collections of rewrite rules, the type of a Go
  \<open>map\<close> as an association list behind the interface \<open>finite_map\<close>, the
  wrap-around of Go's \<open>int\<close> and \<open>int64\<close>, Go's truncated remainder, and a
  generic locale for a deterministic machine with an invariant.
\<close>

named_theorems go_defs "definitions of the model that evaluate on concrete input"
named_theorems gomap_simps "laws of Go maps"

subsection \<open>Go maps\<close>

text \<open>
  A Go map is an association list with distinct keys. Reading yields an option (the
  two-value form of the Go index expression), writing replaces or adds, deleting an
  absent key does nothing.
\<close>

type_synonym ('k, 'v) gomap = "('k \<times> 'v) list"

definition gm_empty :: "('k, 'v) gomap" where
  "gm_empty = []"

definition gm_get :: "('k, 'v) gomap \<Rightarrow> 'k \<Rightarrow> 'v option" where
  "gm_get m k = map_of m k"

definition gm_put :: "'k \<Rightarrow> 'v \<Rightarrow> ('k, 'v) gomap \<Rightarrow> ('k, 'v) gomap" where
  "gm_put k v m = AList.update k v m"

definition gm_del :: "'k \<Rightarrow> ('k, 'v) gomap \<Rightarrow> ('k, 'v) gomap" where
  "gm_del k m = AList.delete k m"

definition gm_keys :: "('k, 'v) gomap \<Rightarrow> 'k list" where
  "gm_keys m = map fst m"

definition gm_ok :: "('k, 'v) gomap \<Rightarrow> bool" where
  "gm_ok m \<longleftrightarrow> distinct (map fst m)"

locale finite_map =
  fixes empty :: "'m"
    and get :: "'m \<Rightarrow> 'k \<Rightarrow> 'v option"
    and put :: "'k \<Rightarrow> 'v \<Rightarrow> 'm \<Rightarrow> 'm"
    and del :: "'k \<Rightarrow> 'm \<Rightarrow> 'm"
    and keys :: "'m \<Rightarrow> 'k list"
    and ok :: "'m \<Rightarrow> bool"
  assumes get_empty: "get empty x = None"
    and get_put: "get (put k v m) x = (if x = k then Some v else get m x)"
    and get_del: "ok m \<Longrightarrow> get (del k m) x = (if x = k then None else get m x)"
    and ok_empty: "ok empty"
    and ok_put: "ok m \<Longrightarrow> ok (put k v m)"
    and ok_del: "ok m \<Longrightarrow> ok (del k m)"
    and keys_distinct: "ok m \<Longrightarrow> distinct (keys m)"
    and keys_iff: "x \<in> set (keys m) \<longleftrightarrow> get m x \<noteq> None"
begin

text \<open>Filling a map from a list of pairs: the last pair of a key wins.\<close>

lemma get_put_all:
  "get (fold (\<lambda>(k, v). put k v) kvs m) x =
     (case map_of (rev kvs) x of None \<Rightarrow> get m x | Some v \<Rightarrow> Some v)"
proof (induction kvs arbitrary: m)
  case Nil
  then show ?case by simp
next
  case (Cons kv kvs)
  obtain k v where kv: "kv = (k, v)" by (cases kv)
  show ?case
    by (simp add: kv Cons.IH get_put map_add_def split: option.split)
qed

lemma ok_put_all: "ok m \<Longrightarrow> ok (fold (\<lambda>(k, v). put k v) kvs m)"
  by (induction kvs arbitrary: m) (auto simp: ok_put)

lemma get_del_all:
  "ok m \<Longrightarrow> get (fold del ks m) x = (if x \<in> set ks then None else get m x)"
  by (induction ks arbitrary: m) (auto simp: get_del ok_del)

lemma ok_del_all: "ok m \<Longrightarrow> ok (fold del ks m)"
  by (induction ks arbitrary: m) (auto simp: ok_del)

end

interpretation gm: finite_map gm_empty gm_get gm_put gm_del gm_keys gm_ok
proof
  fix m :: "('k, 'v) gomap" and k x :: 'k and v :: 'v
  show "gm_get gm_empty x = (None :: 'v option)"
    by (simp add: gm_get_def gm_empty_def)
  show "gm_get (gm_put k v m) x = (if x = k then Some v else gm_get m x)"
    by (simp add: gm_get_def gm_put_def update_conv')
  show "gm_ok m \<Longrightarrow> gm_get (gm_del k m) x = (if x = k then None else gm_get m x)"
    by (simp add: gm_get_def gm_del_def delete_conv')
  show "gm_ok (gm_empty :: ('k, 'v) gomap)"
    by (simp add: gm_ok_def gm_empty_def)
  show "gm_ok m \<Longrightarrow> gm_ok (gm_put k v m)"
    by (simp add: gm_ok_def gm_put_def distinct_update)
  show "gm_ok m \<Longrightarrow> gm_ok (gm_del k m)"
    by (simp add: gm_ok_def gm_del_def distinct_delete)
  show "gm_ok m \<Longrightarrow> distinct (gm_keys m)"
    by (simp add: gm_ok_def gm_keys_def)
  show "x \<in> set (gm_keys m) \<longleftrightarrow> gm_get m x \<noteq> None"
    by (simp add: gm_keys_def gm_get_def map_of_eq_None_iff)
qed

lemmas [gomap_simps, simp] = gm.get_empty gm.get_put gm.ok_empty gm.ok_put
lemmas [gomap_simps] = gm.get_del gm.ok_del gm.get_put_all

lemma gm_keys_empty [simp]: "gm_keys gm_empty = []"
  by (simp add: gm_keys_def gm_empty_def)

lemma gm_get_in_set: "gm_get m k = Some v \<Longrightarrow> (k, v) \<in> set m"
  by (simp add: gm_get_def map_of_SomeD)

subsection \<open>Positions in lists\<close>

text \<open>The position of the last element with a property: what a loop that overwrites keeps.\<close>

fun last_pos :: "('a \<Rightarrow> bool) \<Rightarrow> 'a list \<Rightarrow> nat option" where
  "last_pos P [] = None"
| "last_pos P (x # xs) =
     (case last_pos P xs of
        Some i \<Rightarrow> Some (Suc i)
      | None \<Rightarrow> if P x then Some 0 else None)"

lemma last_pos_None_iff: "last_pos P xs = None \<longleftrightarrow> (\<forall>x \<in> set xs. \<not> P x)"
  by (induction xs) (auto split: option.splits)

lemma last_pos_SomeD:
  "last_pos P xs = Some i \<Longrightarrow> i < length xs \<and> P (xs ! i) \<and> (\<forall>j. i < j \<longrightarrow> j < length xs \<longrightarrow> \<not> P (xs ! j))"
proof (induction xs arbitrary: i)
  case Nil
  then show ?case by simp
next
  case (Cons x xs)
  show ?case
  proof (cases "last_pos P xs")
    case None
    then have "\<not> P (xs ! j)" if "j < length xs" for j
      using that by (auto simp: last_pos_None_iff)
    with None Cons.prems show ?thesis by (auto simp: nth_Cons split: if_splits nat.split)
  next
    case (Some k)
    with Cons.IH [OF Some] Cons.prems show ?thesis by (auto simp: nth_Cons split: nat.split)
  qed
qed

lemma find_rev_last_pos: "find P (rev xs) = map_option ((!) xs) (last_pos P xs)"
proof (induction xs)
  case Nil
  then show ?case by simp
next
  case (Cons x xs)
  have app: "find P (as @ bs) = (case find P as of None \<Rightarrow> find P bs | Some a \<Rightarrow> Some a)" for as bs
    by (induction as) auto
  show ?case by (simp add: app Cons.IH split: option.split)
qed

lemma find_SomeD: "find P xs = Some x \<Longrightarrow> x \<in> set xs \<and> P x"
  by (induction xs) (auto split: if_splits)

lemma find_rev_unique:
  assumes "x \<in> set xs" "P x" "\<And>y. y \<in> set xs \<Longrightarrow> P y \<Longrightarrow> y = x"
  shows "find P (rev xs) = Some x"
proof (cases "find P (rev xs)")
  case None
  with assms(1,2) show ?thesis by (auto simp: find_None_iff)
next
  case (Some y)
  then have "y \<in> set xs" "P y" using find_SomeD [OF Some] by simp_all
  with assms(3) Some show ?thesis by simp
qed

subsection \<open>Machine integers of Go\<close>

text \<open>
  Go's \<open>int\<close> (64 bits on the platforms the image is built for) and \<open>int64\<close>
  wrap around in two's complement; the remainder takes the sign of the dividend.
\<close>

definition wrap64 :: "int \<Rightarrow> int" where
  "wrap64 x = (x + 2 ^ 63) mod 2 ^ 64 - 2 ^ 63"

definition int64_range :: "int \<Rightarrow> bool" where
  "int64_range x \<longleftrightarrow> - (2 ^ 63) \<le> x \<and> x < 2 ^ 63"

definition go_rem :: "int \<Rightarrow> int \<Rightarrow> int" where
  "go_rem a b = (if a < 0 then - ((- a) mod \<bar>b\<bar>) else a mod \<bar>b\<bar>)"

lemma wrap64_id: "int64_range x \<Longrightarrow> wrap64 x = x"
  by (simp add: wrap64_def int64_range_def)

lemma wrap64_range: "int64_range (wrap64 x)"
proof -
  have "(x + 2 ^ 63) mod 2 ^ 64 < (2 :: int) ^ 64" "0 \<le> (x + 2 ^ 63) mod (2 :: int) ^ 64"
    by simp_all
  then show ?thesis by (simp add: wrap64_def int64_range_def)
qed

lemma go_rem_nonneg: "0 \<le> a \<Longrightarrow> 0 < b \<Longrightarrow> go_rem a b = a mod b"
  by (simp add: go_rem_def)

lemma go_rem_bounds: "0 \<le> a \<Longrightarrow> 0 < b \<Longrightarrow> 0 \<le> go_rem a b \<and> go_rem a b < b"
  by (simp add: go_rem_nonneg)

subsection \<open>Machines with an invariant\<close>

text \<open>
  A component that reacts to inputs one after the other is a step function returning the
  next state and an output. The locale carries the two facts every such component needs:
  a run keeps what each step keeps, and a run over a concatenation is two runs.
\<close>

fun run_outputs :: "('i \<Rightarrow> 's \<Rightarrow> 'o \<times> 's) \<Rightarrow> 'i list \<Rightarrow> 's \<Rightarrow> 'o list \<times> 's" where
  "run_outputs f [] s = ([], s)"
| "run_outputs f (i # is) s =
     (let (o1, s1) = f i s; (os, s2) = run_outputs f is s1 in (o1 # os, s2))"

lemma run_outputs_Cons [simp]:
  "snd (run_outputs f (i # is) s) = snd (run_outputs f is (snd (f i s)))"
  "fst (run_outputs f (i # is) s) = fst (f i s) # fst (run_outputs f is (snd (f i s)))"
  by (simp_all add: Let_def split: prod.split)

lemma run_outputs_append:
  "snd (run_outputs f (xs @ ys) s) = snd (run_outputs f ys (snd (run_outputs f xs s)))"
  "fst (run_outputs f (xs @ ys) s) =
     fst (run_outputs f xs s) @ fst (run_outputs f ys (snd (run_outputs f xs s)))"
  by (induction xs arbitrary: s) (simp_all del: run_outputs.simps(2))

lemma length_run_outputs [simp]: "length (fst (run_outputs f xs s)) = length xs"
  by (induction xs arbitrary: s) (simp_all del: run_outputs.simps(2))

declare run_outputs.simps(2) [simp del]

locale stable_machine =
  fixes step :: "'i \<Rightarrow> 's \<Rightarrow> 'o \<times> 's"
    and inv :: "'s \<Rightarrow> bool"
  assumes step_inv: "inv s \<Longrightarrow> inv (snd (step i s))"
begin

lemma run_inv: "inv s \<Longrightarrow> inv (snd (run_outputs step is s))"
  by (induction "is" arbitrary: s) (simp_all add: step_inv)

end

end
