(* ===== verification/Metrics.thy ===== *)
theory Metrics
  imports Prelude
begin

section \<open>Per-site metrics: counters, second buckets, latency ring, registry\<close>

text \<open>
  \<open>internal/metrics/metrics.go\<close>. Counters keep their widths (64 and 32 bits). A bucket
  index is Go's remainder of the second, which is negative for a negative second: reading
  or writing there is a panic, the value \<open>None\<close>. The atomic totals and the part under the
  mutex are separate operations, run in the order of the code.
\<close>

definition bucket_count :: nat where
  "bucket_count = 60"

definition lat_ring_size :: nat where
  "lat_ring_size = 1024"

record sample =
  sm_status :: int
  sm_bytes :: int
  sm_latency :: int

record mbucket =
  b_ts :: int
  b_reqs :: "32 word"
  b_bytes :: "64 word"
  b_errors :: "32 word"

record site_metrics =
  m_requests :: "64 word"
  m_bytes :: "64 word"
  m_errors :: "64 word"
  m_buckets :: "mbucket list"
  m_bucket_at :: int
  m_latency :: "32 word list"
  m_latency_idx :: nat
  m_latency_n :: nat
  m_status :: "(int, 64 word) gomap"

definition empty_bucket :: "int \<Rightarrow> mbucket" where
  "empty_bucket ts = \<lparr>b_ts = ts, b_reqs = 0, b_bytes = 0, b_errors = 0\<rparr>"

definition new_site_metrics :: site_metrics where
  "new_site_metrics =
     \<lparr>m_requests = 0, m_bytes = 0, m_errors = 0, m_buckets = replicate bucket_count (empty_bucket 0),
      m_bucket_at = 0, m_latency = replicate lat_ring_size 0, m_latency_idx = 0, m_latency_n = 0,
      m_status = gm_empty\<rparr>"

definition is_error :: "sample \<Rightarrow> bool" where
  "is_error sm \<longleftrightarrow> 500 \<le> sm_status sm \<or> sm_status sm = 0"

text \<open>
  Milliseconds truncate toward zero and are cut to 32 bits; a positive latency that comes
  out as zero counts as one.
\<close>

definition latency_ms :: "sample \<Rightarrow> 32 word" where
  "latency_ms sm =
     (let ms = word_of_int (if sm_latency sm < 0 then - ((- sm_latency sm) div 10 ^ 6)
                            else sm_latency sm div 10 ^ 6)
      in if ms = 0 \<and> 0 < sm_latency sm then 1 else ms)"

definition sample_bytes :: "sample \<Rightarrow> 64 word" where
  "sample_bytes sm = (if 0 < sm_bytes sm then word_of_int (sm_bytes sm) else 0)"

definition record_totals :: "sample \<Rightarrow> site_metrics \<Rightarrow> site_metrics" where
  "record_totals sm m =
     m\<lparr>m_requests := m_requests m + 1,
       m_bytes := m_bytes m + sample_bytes sm,
       m_errors := m_errors m + (if is_error sm then 1 else 0)\<rparr>"

definition bucket_index :: "int \<Rightarrow> nat option" where
  "bucket_index sec =
     (let i = go_rem sec (int bucket_count) in if i < 0 then None else Some (nat i))"

definition bump_bucket :: "int \<Rightarrow> sample \<Rightarrow> mbucket \<Rightarrow> mbucket" where
  "bump_bucket now sm b0 =
     (let b = (if b_ts b0 \<noteq> now then empty_bucket now else b0)
      in b\<lparr>b_reqs := b_reqs b + 1,
           b_bytes := b_bytes b + sample_bytes sm,
           b_errors := b_errors b + (if is_error sm then 1 else 0)\<rparr>)"

definition push_latency :: "32 word \<Rightarrow> site_metrics \<Rightarrow> site_metrics" where
  "push_latency ms m =
     m\<lparr>m_latency := (m_latency m)[m_latency_idx m := ms],
       m_latency_idx := (m_latency_idx m + 1) mod lat_ring_size,
       m_latency_n := (if m_latency_n m < lat_ring_size then m_latency_n m + 1 else m_latency_n m)\<rparr>"

definition count_status :: "int \<Rightarrow> site_metrics \<Rightarrow> site_metrics" where
  "count_status code m =
     m\<lparr>m_status := gm_put code ((case gm_get (m_status m) code of None \<Rightarrow> 0 | Some c \<Rightarrow> c) + 1) (m_status m)\<rparr>"

definition record_locked :: "int \<Rightarrow> sample \<Rightarrow> site_metrics \<Rightarrow> site_metrics option" where
  "record_locked now sm m =
     (case bucket_index now of
        None \<Rightarrow> None
      | Some i \<Rightarrow>
          Some (count_status (sm_status sm) (push_latency (latency_ms sm)
            (m\<lparr>m_buckets := (m_buckets m)[i := bump_bucket now sm (m_buckets m ! i)],
               m_bucket_at := now\<rparr>))))"

definition record_sample :: "int \<Rightarrow> sample \<Rightarrow> site_metrics \<Rightarrow> site_metrics option" where
  "record_sample now sm m = record_locked now sm (record_totals sm m)"

subsection \<open>Snapshots\<close>

record metrics_snapshot =
  sn_requests :: "64 word"
  sn_bytes :: "64 word"
  sn_errors :: "64 word"
  sn_reqs_1m :: "64 word"
  sn_bytes_1m :: "64 word"
  sn_errs_1m :: "64 word"
  sn_reqs_per_sec :: "32 word list"
  sn_p50 :: "32 word"
  sn_p95 :: "32 word"
  sn_p99 :: "32 word"
  sn_status :: "(int, 64 word) gomap"

definition in_window :: "int \<Rightarrow> mbucket \<Rightarrow> bool" where
  "in_window now b \<longleftrightarrow> \<not> (b_ts b = 0 \<or> now - b_ts b \<ge> int bucket_count)"

definition window_sum :: "int \<Rightarrow> (mbucket \<Rightarrow> 64 word) \<Rightarrow> mbucket list \<Rightarrow> 64 word" where
  "window_sum now f bs = foldl (\<lambda>acc b. if in_window now b then acc + f b else acc) 0 bs"

definition series_at :: "int \<Rightarrow> mbucket list \<Rightarrow> nat \<Rightarrow> 32 word option" where
  "series_at now bs offset =
     (let ts = now - int (bucket_count - 1 - offset)
      in case bucket_index ts of
           None \<Rightarrow> None
         | Some i \<Rightarrow> Some (if b_ts (bs ! i) = ts then b_reqs (bs ! i) else 0))"

fun all_some :: "'a option list \<Rightarrow> 'a list option" where
  "all_some [] = Some []"
| "all_some (None # xs) = None"
| "all_some (Some x # xs) = map_option (Cons x) (all_some xs)"

definition pct :: "32 word list \<Rightarrow> nat \<Rightarrow> 32 word" where
  "pct sorted_lats p =
     (if length sorted_lats = 0 then 0
      else (let i = length sorted_lats * p div 100
            in sorted_lats ! (if i \<ge> length sorted_lats then length sorted_lats - 1 else i)))"

definition latency_window :: "site_metrics \<Rightarrow> 32 word list" where
  "latency_window m = sort (take (m_latency_n m) (m_latency m))"

definition site_snapshot :: "int \<Rightarrow> site_metrics \<Rightarrow> metrics_snapshot option" where
  "site_snapshot now m =
     (case all_some (map (series_at now (m_buckets m)) [0..<bucket_count]) of
        None \<Rightarrow> None
      | Some series \<Rightarrow>
          (let buf = latency_window m; q = (\<lambda>p. if m_latency_n m > 0 then pct buf p else 0)
           in Some \<lparr>sn_requests = m_requests m, sn_bytes = m_bytes m, sn_errors = m_errors m,
                sn_reqs_1m = window_sum now (\<lambda>b. ucast (b_reqs b)) (m_buckets m),
                sn_bytes_1m = window_sum now b_bytes (m_buckets m),
                sn_errs_1m = window_sum now (\<lambda>b. ucast (b_errors b)) (m_buckets m),
                sn_reqs_per_sec = series, sn_p50 = q 50, sn_p95 = q 95, sn_p99 = q 99,
                sn_status = m_status m\<rparr>))"

subsection \<open>The registry\<close>

type_synonym registry = "(string, site_metrics) gomap"

definition new_registry :: registry where
  "new_registry = gm_empty"

definition site_for :: "string \<Rightarrow> registry \<Rightarrow> site_metrics \<times> registry" where
  "site_for d reg =
     (case gm_get reg d of
        Some m \<Rightarrow> (m, reg)
      | None \<Rightarrow> (new_site_metrics, gm_put d new_site_metrics reg))"

definition snapshot_all :: "int \<Rightarrow> registry \<Rightarrow> (string, metrics_snapshot option) gomap" where
  "snapshot_all now reg = map (\<lambda>(d, m). (d, site_snapshot now m)) reg"

definition prune :: "(string \<Rightarrow> bool) \<Rightarrow> (string, 'v) gomap \<Rightarrow> (string, 'v) gomap" where
  "prune keep reg = fold (\<lambda>d r. if \<not> keep d then gm_del d r else r) (gm_keys reg) reg"

text \<open>Recording under a domain: look up or create, then record into it.\<close>

definition registry_record :: "string \<Rightarrow> int \<Rightarrow> sample \<Rightarrow> registry \<Rightarrow> registry option" where
  "registry_record d now sm reg =
     (let (m, reg1) = site_for d reg
      in map_option (\<lambda>m'. gm_put d m' reg1) (record_sample now sm m))"

subsection \<open>Elementary facts\<close>

lemma bucket_index_nonneg: "0 \<le> t \<Longrightarrow> bucket_index t = Some (nat (t mod 60))"
  by (simp add: bucket_index_def bucket_count_def go_rem_nonneg Let_def)

lemma all_some_map: "(\<And>x. x \<in> set xs \<Longrightarrow> f x = Some (g x)) \<Longrightarrow> all_some (map f xs) = Some (map g xs)"
  by (induction xs) auto

lemma prune_get:
  assumes "gm_ok reg"
  shows "gm_get (prune keep reg) d = (if keep d then gm_get reg d else None)" "gm_ok (prune keep reg)"
proof -
  have gen: "gm_get (fold (\<lambda>d r. if \<not> keep d then gm_del d r else r) ks r) d =
      (if d \<in> set ks \<and> \<not> keep d then None else gm_get r d) \<and>
      gm_ok (fold (\<lambda>d r. if \<not> keep d then gm_del d r else r) ks r)" if "gm_ok r" for ks r
    using that by (induction ks arbitrary: r) (auto simp: gomap_simps)
  from gen [OF assms, of "gm_keys reg"] gm.keys_iff [of d reg]
  show "gm_get (prune keep reg) d = (if keep d then gm_get reg d else None)" "gm_ok (prune keep reg)"
    by (auto simp: prune_def)
qed

lemma registry_record_get:
  "registry_record d now sm reg = Some reg' \<Longrightarrow>
     gm_get reg' x = (if x = d then record_sample now sm (case gm_get reg d of None \<Rightarrow> new_site_metrics | Some m \<Rightarrow> m)
                      else gm_get reg x)"
  by (auto simp: registry_record_def site_for_def Let_def split: option.splits)

lemma registry_record_ok: "gm_ok reg \<Longrightarrow> registry_record d now sm reg = Some reg' \<Longrightarrow> gm_ok reg'"
  by (auto simp: registry_record_def site_for_def Let_def split: option.splits)

end
