(* ===== verification/Metrics_Window.thy ===== *)
theory Metrics_Window
  imports Metrics
begin

section \<open>What the metrics mean: refinement to the history of samples\<close>

text \<open>
  The abstract state of one site is the list of its samples with their seconds, oldest
  first. A relation says how counters, second buckets, latency ring and status table
  represent a history; recording keeps it, and a snapshot then is a function of the
  history. Seconds are positive. The clock is read before the lock is taken, so they need not
  be in order; no sample may come sixty seconds or more after its own second.
\<close>

type_synonym history = "(int \<times> sample) list"

fun record_all :: "history \<Rightarrow> site_metrics \<Rightarrow> site_metrics option" where
  "record_all [] m = Some m"
| "record_all ((t, sm) # h) m =
     (case record_sample t sm m of None \<Rightarrow> None | Some m' \<Rightarrow> record_all h m')"

definition history_ok :: "history \<Rightarrow> bool" where
  "history_ok h \<longleftrightarrow> sorted_wrt (\<lambda>e f. fst e < fst f + 60) h \<and> (\<forall>e \<in> set h. 0 < fst e)"

subsection \<open>The ring of latencies\<close>

definition ring_rep :: "nat \<Rightarrow> 'a list \<Rightarrow> 'a list \<Rightarrow> nat \<Rightarrow> nat \<Rightarrow> bool" where
  "ring_rep N L buf idx n \<longleftrightarrow>
     0 < N \<and> length buf = N \<and> idx = length L mod N \<and> n = min (length L) N \<and>
     drop (length L - N) L = (if length L < N then take (length L) buf else drop idx buf @ take idx buf)"

lemma ring_rep_empty: "0 < N \<Longrightarrow> length buf = N \<Longrightarrow> ring_rep N [] buf 0 0"
  by (simp add: ring_rep_def)

lemma ring_rep_push:
  assumes "ring_rep N L buf idx n"
  shows "ring_rep N (L @ [x]) (buf[idx := x]) ((idx + 1) mod N) (if n < N then n + 1 else n)"
proof (cases "length L < N")
  case True
  with assms have L: "L = take (length L) buf" "idx = length L" "length buf = N" "n = length L"
    by (auto simp: ring_rep_def)
  have full: "take (Suc (length L)) (buf[idx := x]) = L @ [x]"
    using L True by (simp add: take_Suc_conv_app_nth)
  show ?thesis
  proof (cases "Suc (length L) < N")
    case True
    with assms L full show ?thesis by (simp add: ring_rep_def)
  next
    case False
    with True have N: "N = Suc (length L)" by simp
    with full L have "buf[idx := x] = L @ [x]" by simp
    with N L show ?thesis by (simp add: ring_rep_def)
  qed
next
  case False
  let ?k = "length L - N"
  from False assms have L: "drop ?k L = drop idx buf @ take idx buf" "length buf = N"
      "idx = length L mod N" "0 < N" "n = N"
    by (auto simp: ring_rep_def)
  then have idx: "idx < N" by simp
  have next_idx: "(idx + 1) mod N = Suc (length L) mod N" using L(3) by (simp add: mod_Suc_eq)
  have "drop (Suc ?k) L = tl (drop ?k L)" by (simp add: drop_Suc tl_drop)
  also have "\<dots> = drop (Suc idx) buf @ take idx buf"
    using L(1,2) idx by (simp add: drop_Suc tl_drop)
  finally have drop: "drop (Suc ?k) (L @ [x]) = drop (Suc idx) buf @ take idx buf @ [x]"
    using False L(4) by simp
  have "drop (length (L @ [x]) - N) (L @ [x]) =
      drop ((idx + 1) mod N) (buf[idx := x]) @ take ((idx + 1) mod N) (buf[idx := x])"
  proof (cases "Suc idx < N")
    case True
    with drop L(2) False show ?thesis
      by (simp add: Suc_diff_le drop_update_cancel take_Suc_conv_app_nth)
  next
    case False
    with idx have "Suc idx = N" by simp
    moreover from this have "buf[idx := x] = take idx buf @ [x]"
      using L(2) by (metis append_take_drop_id butlast_list_update butlast_conv_take diff_Suc_1
          last_list_update list_update_nonempty append_butlast_last_id length_greater_0_conv zero_less_Suc)
    ultimately show ?thesis using drop L(2) \<open>\<not> length L < N\<close> by (simp add: Suc_diff_le)
  qed
  with False L next_idx show ?thesis by (simp add: ring_rep_def)
qed

lemma ring_rep_mset:
  assumes "ring_rep N L buf idx n"
  shows "mset (take n buf) = mset (drop (length L - N) L)"
proof (cases "length L < N")
  case True
  with assms show ?thesis by (simp add: ring_rep_def)
next
  case False
  have "mset (drop idx buf @ take idx buf) = mset buf"
    by (metis append_take_drop_id mset_append union_commute)
  with False assms show ?thesis by (simp add: ring_rep_def)
qed

subsection \<open>The buckets\<close>

definition at_second :: "int \<Rightarrow> history \<Rightarrow> history" where
  "at_second t h = filter (\<lambda>e. fst e = t) h"

definition in_slot :: "nat \<Rightarrow> history \<Rightarrow> history" where
  "in_slot i h = filter (\<lambda>e. fst e mod 60 = int i) h"

definition second_bucket :: "int \<Rightarrow> history \<Rightarrow> mbucket" where
  "second_bucket t h =
     \<lparr>b_ts = t, b_reqs = of_nat (length (at_second t h)),
      b_bytes = sum_list (map (\<lambda>e. sample_bytes (snd e)) (at_second t h)),
      b_errors = of_nat (length (filter (\<lambda>e. is_error (snd e)) (at_second t h)))\<rparr>"

text \<open>A slot holds the bucket of the last second that was recorded into it.\<close>

definition slot_bucket :: "history \<Rightarrow> nat \<Rightarrow> mbucket" where
  "slot_bucket h i =
     (if in_slot i h = [] then empty_bucket 0 else second_bucket (fst (last (in_slot i h))) h)"

lemma at_second_append [simp]:
  "at_second t (h @ [(s, sm)]) = at_second t h @ (if s = t then [(s, sm)] else [])"
  by (simp add: at_second_def)

lemma in_slot_append [simp]:
  "in_slot i (h @ [(s, sm)]) = in_slot i h @ (if s mod 60 = int i then [(s, sm)] else [])"
  by (simp add: in_slot_def)

lemma second_bucket_append:
  "second_bucket t (h @ [(s, sm)]) =
     (if s = t then second_bucket t h
        \<lparr>b_reqs := b_reqs (second_bucket t h) + 1,
         b_bytes := b_bytes (second_bucket t h) + sample_bytes sm,
         b_errors := b_errors (second_bucket t h) + (if is_error sm then 1 else 0)\<rparr>
      else second_bucket t h)"
  by (simp add: second_bucket_def)

lemma history_ok_append:
  "history_ok (h @ [(t, sm)]) \<longleftrightarrow> history_ok h \<and> 0 < t \<and> (\<forall>e \<in> set h. fst e < t + 60)"
  by (auto simp: history_ok_def sorted_wrt_append)

lemma ordered_history_ok: "sorted (map fst h) \<Longrightarrow> \<forall>e \<in> set h. 0 < fst e \<Longrightarrow> history_ok h"
  by (auto simp: history_ok_def sorted_map intro: sorted_wrt_mono_rel [rotated])

text \<open>Two seconds of one slot less than a minute out of order are in order.\<close>

lemma same_slot_le: "(s :: int) mod 60 = t mod 60 \<Longrightarrow> s < t + 60 \<Longrightarrow> s \<le> t"
proof -
  assume a: "s mod 60 = t mod 60" "s < t + 60"
  then obtain k where "s = t + 60 * k" by (metis mod_eqE)
  with a(2) show "s \<le> t" by simp
qed

lemma last_in_slot:
  assumes "in_slot i h \<noteq> []"
  shows "last (in_slot i h) \<in> set h" "fst (last (in_slot i h)) mod 60 = int i"
proof -
  have "last (in_slot i h) \<in> set (in_slot i h)" using assms by simp
  then show "last (in_slot i h) \<in> set h" "fst (last (in_slot i h)) mod 60 = int i"
    by (simp_all add: in_slot_def)
qed

text \<open>The last second recorded into a slot is the greatest of the slot.\<close>

lemma last_in_slot_max:
  assumes "history_ok h" "e \<in> set h" "fst e mod 60 = int i"
  shows "in_slot i h \<noteq> [] \<and> fst e \<le> fst (last (in_slot i h))"
proof -
  have mem: "e \<in> set (in_slot i h)" using assms(2,3) by (simp add: in_slot_def)
  then obtain pre l where pre: "in_slot i h = pre @ [l]"
    by (metis append_butlast_last_id list.set(1) empty_iff)
  have "sorted_wrt (\<lambda>e f. fst e < fst f + 60) (in_slot i h)"
    using assms(1) by (simp add: history_ok_def in_slot_def sorted_wrt_filter)
  then have late: "\<forall>e \<in> set pre. fst e < fst l + 60" by (simp add: pre sorted_wrt_append)
  have "fst e mod 60 = int i" if "e \<in> set (in_slot i h)" for e using that by (simp add: in_slot_def)
  then have slot: "\<forall>e \<in> set pre. fst e mod 60 = fst l mod 60" by (simp add: pre)
  have "\<forall>e \<in> set pre. fst e \<le> fst l"
  proof
    fix e assume "e \<in> set pre"
    with late slot show "fst e \<le> fst l" using same_slot_le [of "fst e" "fst l"] by blast
  qed
  with mem pre show ?thesis by auto
qed

text \<open>Recording a sample turns the slot's bucket into the new slot's bucket.\<close>

lemma slot_bucket_bump:
  assumes "history_ok (h @ [(t, sm)])" "i = nat (t mod 60)"
  shows "bump_bucket t sm (slot_bucket h i) = slot_bucket (h @ [(t, sm)]) i"
proof -
  have h: "history_ok h" "0 < t" "\<forall>e \<in> set h. fst e < t + 60"
    using assms(1) by (auto simp: history_ok_append)
  have i: "t mod 60 = int i" using assms(2) by simp
  have new: "slot_bucket (h @ [(t, sm)]) i = second_bucket t (h @ [(t, sm)])"
    by (simp add: slot_bucket_def i)
  show ?thesis
  proof (cases "b_ts (slot_bucket h i) = t")
    case True
    then have "slot_bucket h i = second_bucket t h"
      using h(2) by (auto simp: slot_bucket_def second_bucket_def empty_bucket_def split: if_splits)
    with True show ?thesis
      by (simp add: new second_bucket_append bump_bucket_def second_bucket_def)
  next
    case False
    have "at_second t h = []"
    proof (rule ccontr)
      assume "at_second t h \<noteq> []"
      then obtain e where e: "e \<in> set h" "fst e = t"
        by (auto simp: at_second_def filter_empty_conv)
      with last_in_slot_max [OF h(1) e(1), of i] i
      have ne: "in_slot i h \<noteq> []" "t \<le> fst (last (in_slot i h))" by simp_all
      moreover have "fst (last (in_slot i h)) \<le> t"
        using h(3) last_in_slot [OF ne(1)] i same_slot_le by metis
      ultimately have "fst (last (in_slot i h)) = t" by simp
      with False ne(1) show False by (simp add: slot_bucket_def second_bucket_def)
    qed
    with False show ?thesis
      by (simp add: new second_bucket_append bump_bucket_def second_bucket_def empty_bucket_def)
  qed
qed

lemma slot_bucket_other:
  "t mod 60 \<noteq> int i \<Longrightarrow> slot_bucket (h @ [(t, sm)]) i = slot_bucket h i"
  using last_in_slot(2) [of i h] by (auto simp: slot_bucket_def second_bucket_append)

subsection \<open>The representation relation\<close>

definition metrics_rep :: "history \<Rightarrow> site_metrics \<Rightarrow> bool" where
  "metrics_rep h m \<longleftrightarrow>
     m_requests m = of_nat (length h) \<and>
     m_bytes m = sum_list (map (\<lambda>e. sample_bytes (snd e)) h) \<and>
     m_errors m = of_nat (length (filter (\<lambda>e. is_error (snd e)) h)) \<and>
     m_buckets m = map (slot_bucket h) [0..<60] \<and>
     ring_rep lat_ring_size (map (\<lambda>e. latency_ms (snd e)) h) (m_latency m) (m_latency_idx m) (m_latency_n m) \<and>
     gm_ok (m_status m) \<and>
     (\<forall>c. gm_get (m_status m) c =
        (let n = length (filter (\<lambda>e. sm_status (snd e) = c) h) in if n = 0 then None else Some (of_nat n)))"

lemma metrics_rep_new: "metrics_rep [] new_site_metrics"
proof -
  have "map (slot_bucket []) [0..<60] = replicate bucket_count (empty_bucket 0)"
    by (rule nth_equalityI) (simp_all add: slot_bucket_def in_slot_def bucket_count_def)
  then show ?thesis
    by (simp add: metrics_rep_def new_site_metrics_def ring_rep_empty lat_ring_size_def)
qed

lemma count_status_get:
  assumes "\<And>c. gm_get (m_status m) c = (let n = f c in if n = (0 :: nat) then None else Some (of_nat n))"
  shows "gm_get (m_status (count_status code m)) c =
    (let n = (if c = code then Suc (f c) else f c) in if n = 0 then None else Some (of_nat n))"
  using assms by (simp add: count_status_def Let_def add.commute)

lemma metrics_rep_record:
  assumes "metrics_rep h m" "history_ok (h @ [(t, sm)])"
  obtains m' where "record_sample t sm m = Some m'" "metrics_rep (h @ [(t, sm)]) m'"
proof -
  let ?h = "h @ [(t, sm)]" and ?i = "nat (t mod 60)"
  have t: "0 < t" using assms(2) by (simp add: history_ok_append)
  then have idx: "bucket_index t = Some ?i" by (simp add: bucket_index_nonneg)
  have i: "?i < 60" by (simp add: nat_less_iff)
  define m1 where "m1 = (record_totals sm m)
    \<lparr>m_buckets := (m_buckets m)[?i := bump_bucket t sm (m_buckets m ! ?i)], m_bucket_at := t\<rparr>"
  define m' where "m' = count_status (sm_status sm) (push_latency (latency_ms sm) m1)"
  have rec: "record_sample t sm m = Some m'"
    by (simp add: record_sample_def record_locked_def idx m'_def m1_def record_totals_def)
  have buckets: "(map (slot_bucket h) [0..<60])[?i := bump_bucket t sm (slot_bucket h ?i)] =
      map (slot_bucket ?h) [0..<60]"
  proof (rule nth_equalityI)
    fix j assume "j < length ((map (slot_bucket h) [0..<60])[?i := bump_bucket t sm (slot_bucket h ?i)])"
    then have "j < 60" by simp
    then show "(map (slot_bucket h) [0..<60])[?i := bump_bucket t sm (slot_bucket h ?i)] ! j =
        map (slot_bucket ?h) [0..<60] ! j"
      using slot_bucket_bump [OF assms(2) refl] slot_bucket_other [of t j h sm]
      by (cases "j = ?i") (auto simp: nth_list_update)
  qed simp
  have ring: "ring_rep lat_ring_size (map (\<lambda>e. latency_ms (snd e)) ?h) (m_latency m') (m_latency_idx m') (m_latency_n m')"
  proof -
    have "ring_rep lat_ring_size (map (\<lambda>e. latency_ms (snd e)) h) (m_latency m) (m_latency_idx m) (m_latency_n m)"
      using assms(1) by (simp add: metrics_rep_def)
    from ring_rep_push [OF this, of "latency_ms sm"] show ?thesis
      by (simp add: m'_def m1_def count_status_def push_latency_def record_totals_def split: if_splits)
  qed
  have status: "gm_get (m_status m') c =
      (let n = length (filter (\<lambda>e. sm_status (snd e) = c) ?h) in if n = 0 then None else Some (of_nat n))" for c
    using count_status_get [of "push_latency (latency_ms sm) m1"
        "\<lambda>c. length (filter (\<lambda>e. sm_status (snd e) = c) h)" "sm_status sm" c] assms(1)
    by (simp add: metrics_rep_def m'_def m1_def push_latency_def record_totals_def split: if_splits)
  have "metrics_rep ?h m'"
    unfolding metrics_rep_def
    using assms(1) ring status buckets i
    by (simp add: metrics_rep_def m'_def m1_def count_status_def push_latency_def record_totals_def nth_map_upt)
  with rec that show ?thesis by blast
qed

lemma record_all_append:
  "record_all (h @ h') m = (case record_all h m of None \<Rightarrow> None | Some m' \<Rightarrow> record_all h' m')"
  by (induction h arbitrary: m) (auto split: option.split)

lemma record_all_rep: "history_ok h \<Longrightarrow> \<exists>m. record_all h new_site_metrics = Some m \<and> metrics_rep h m"
proof (induction h rule: rev_induct)
  case Nil
  then show ?case by (simp add: metrics_rep_new)
next
  case (snoc e h)
  obtain t sm where e: "e = (t, sm)" by (cases e)
  with snoc.prems have "history_ok h" by (simp add: history_ok_append)
  with snoc.IH obtain m where m: "record_all h new_site_metrics = Some m" "metrics_rep h m" by blast
  obtain m' where "record_sample t sm m = Some m'" "metrics_rep (h @ [e]) m'"
    using metrics_rep_record [OF m(2)] snoc.prems e by metis
  with m(1) e show ?case by (simp add: record_all_append)
qed

subsection \<open>What a snapshot shows\<close>

text \<open>The samples of the last minute, and the second of a slot inside it.\<close>

definition recent :: "int \<Rightarrow> history \<Rightarrow> history" where
  "recent now h = filter (\<lambda>e. now - 60 < fst e) h"

definition slot_second :: "int \<Rightarrow> nat \<Rightarrow> int" where
  "slot_second now i = now - (now - int i) mod 60"

lemma slot_second_props:
  assumes "i < 60"
  shows "now - 60 < slot_second now i" "slot_second now i \<le> now" "slot_second now i mod 60 = int i"
proof -
  have "(now - int i) mod 60 < 60" "0 \<le> (now - int i) mod 60" by simp_all
  then show "now - 60 < slot_second now i" "slot_second now i \<le> now"
    by (simp_all add: slot_second_def)
  have "(now - (now - int i) mod 60) mod 60 = (now - (now - int i)) mod 60" by (rule mod_diff_right_eq)
  with assms show "slot_second now i mod 60 = int i" by (simp add: slot_second_def)
qed

lemma slot_second_unique:
  assumes "now - 60 < s" "s \<le> now" "s mod 60 = int i"
  shows "s = slot_second now i"
proof -
  have "(now - int i) mod 60 = (now - s mod 60) mod 60" by (simp add: assms(3))
  also have "\<dots> = (now - s) mod 60" by (rule mod_diff_right_eq)
  also have "\<dots> = now - s" using assms(1,2) by (intro mod_pos_pos_trivial) auto
  finally show ?thesis by (simp add: slot_second_def)
qed

lemma slot_second_bij: "bij_betw (slot_second now) {..<60} {now - 60<..now}"
proof (rule bij_betw_byWitness [where f' = "\<lambda>s. nat (s mod 60)"])
  show "\<forall>i \<in> {..<60}. nat (slot_second now i mod 60) = i"
    using slot_second_props(3) [of _ now] by simp
  show "\<forall>s \<in> {now - 60<..now}. slot_second now (nat (s mod 60)) = s"
    using slot_second_unique [of now] by (metis greaterThanAtMost_iff int_nat_eq pos_mod_sign zero_less_numeral)
  show "slot_second now ` {..<60} \<subseteq> {now - 60<..now}"
    using slot_second_props(1,2) by auto
  show "(\<lambda>s. nat (s mod 60)) ` {now - 60<..now} \<subseteq> {..<60}"
    by (auto simp: nat_less_iff)
qed

text \<open>Inside the window a slot's bucket is that of the slot's second, or contributes nothing.\<close>

lemma slot_in_window:
  assumes "history_ok h" "\<forall>e \<in> set h. fst e \<le> now" "i < 60" "0 < now"
  shows "in_window now (slot_bucket h i) \<longleftrightarrow> at_second (slot_second now i) h \<noteq> []"
    and "in_window now (slot_bucket h i) \<Longrightarrow> slot_bucket h i = second_bucket (slot_second now i) h"
proof -
  let ?s = "slot_second now i"
  have fwd: "slot_bucket h i = second_bucket ?s h \<and> at_second ?s h \<noteq> []"
    if win: "in_window now (slot_bucket h i)"
  proof -
    have ne: "in_slot i h \<noteq> []"
      using win by (auto simp: slot_bucket_def in_window_def empty_bucket_def)
    let ?l = "last (in_slot i h)"
    note l = last_in_slot [OF ne]
    have "now - 60 < fst ?l"
      using win ne by (simp add: slot_bucket_def in_window_def second_bucket_def bucket_count_def)
    then have "fst ?l = ?s" using slot_second_unique [OF _ _ l(2)] assms(2) l(1) by blast
    with ne l(1) show ?thesis
      by (auto simp: slot_bucket_def at_second_def filter_empty_conv)
  qed
  then show "in_window now (slot_bucket h i) \<Longrightarrow> slot_bucket h i = second_bucket ?s h" by blast
  have "in_window now (slot_bucket h i)" if at: "at_second ?s h \<noteq> []"
  proof -
    obtain e where e: "e \<in> set h" "fst e = ?s"
      using at by (auto simp: at_second_def filter_empty_conv)
    then have ne: "in_slot i h \<noteq> []" "?s \<le> fst (last (in_slot i h))"
      using last_in_slot_max [OF assms(1) e(1), of i] slot_second_props(3) [OF assms(3)] by simp_all
    have "0 < fst (last (in_slot i h))"
      using assms(1) last_in_slot(1) [OF ne(1)] by (auto simp: history_ok_def)
    with ne slot_second_props(1) [OF assms(3), of now] show ?thesis
      by (simp add: slot_bucket_def in_window_def second_bucket_def bucket_count_def)
  qed
  with fwd show "in_window now (slot_bucket h i) \<longleftrightarrow> at_second ?s h \<noteq> []" by blast
qed

lemma window_sum_list: "window_sum now f bs = sum_list (map (\<lambda>b. if in_window now b then f b else 0) bs)"
proof -
  have "foldl (\<lambda>acc b. if in_window now b then acc + f b else acc) a bs =
      a + sum_list (map (\<lambda>b. if in_window now b then f b else 0) bs)" for a
    by (induction bs arbitrary: a) (auto simp: add.assoc)
  then show ?thesis by (simp add: window_sum_def)
qed

lemma sum_at_second:
  fixes g :: "int \<times> sample \<Rightarrow> 'a :: comm_monoid_add"
  assumes "finite W"
  shows "(\<Sum>s \<in> W. sum_list (map g (at_second s h))) = sum_list (map g (filter (\<lambda>e. fst e \<in> W) h))"
proof (induction h)
  case Nil
  then show ?case by (simp add: at_second_def)
next
  case (Cons e h)
  have "sum_list (map g (at_second s (e # h))) =
      (if s = fst e then g e else 0) + sum_list (map g (at_second s h))" for s
    by (simp add: at_second_def)
  with Cons assms show ?case by (simp add: sum.distrib)
qed

lemma window_sum_history:
  assumes "history_ok h" "\<forall>e \<in> set h. fst e \<le> now" "0 < now"
    and f: "\<And>s. f (second_bucket s h) = sum_list (map g (at_second s h))"
  shows "window_sum now f (map (slot_bucket h) [0..<60]) = sum_list (map g (recent now h))"
proof -
  let ?F = "\<lambda>s. sum_list (map g (at_second s h))"
  have slot: "(if in_window now (slot_bucket h i) then f (slot_bucket h i) else 0) = ?F (slot_second now i)"
    if "i < 60" for i
    using slot_in_window [OF assms(1,2) that assms(3)] f by auto
  have "window_sum now f (map (slot_bucket h) [0..<60]) =
      (\<Sum>i \<in> {..<60}. if in_window now (slot_bucket h i) then f (slot_bucket h i) else 0)"
    by (simp add: window_sum_list interv_sum_list_conv_sum_set_nat atLeast0LessThan o_def)
  also have "\<dots> = (\<Sum>i \<in> {..<60}. ?F (slot_second now i))"
    by (rule sum.cong) (use slot in simp_all)
  also have "\<dots> = (\<Sum>s \<in> {now - 60<..now}. ?F s)"
    by (rule sum.reindex_bij_betw [OF slot_second_bij])
  also have "\<dots> = sum_list (map g (filter (\<lambda>e. fst e \<in> {now - 60<..now}) h))"
    by (rule sum_at_second) simp
  also have "filter (\<lambda>e. fst e \<in> {now - 60<..now}) h = recent now h"
    unfolding recent_def by (rule filter_cong) (use assms(2) in auto)
  finally show ?thesis .
qed

text \<open>The per-second series: the requests of each of the sixty seconds up to now.\<close>

lemma series_history:
  assumes "history_ok h" "\<forall>e \<in> set h. fst e \<le> now" "59 \<le> now" "k < 60"
  shows "series_at now (map (slot_bucket h) [0..<60]) k =
    Some (of_nat (length (at_second (now - (59 - int k)) h)))"
proof -
  let ?ts = "now - (59 - int k)" and ?i = "nat ((now - (59 - int k)) mod 60)"
  have ts: "now - int (bucket_count - 1 - k) = ?ts" using assms(4) by (simp add: bucket_count_def)
  have ge: "0 \<le> ?ts" using assms(3) by simp
  have i: "?i < 60" "?ts mod 60 = int ?i" by (simp_all add: nat_less_iff)
  have sec: "?ts = slot_second now ?i"
    by (rule slot_second_unique) (use assms(4) i in simp_all)
  have "(if b_ts (slot_bucket h ?i) = ?ts then b_reqs (slot_bucket h ?i) else 0) =
      of_nat (length (at_second ?ts h))"
  proof (cases "at_second ?ts h = []")
    case True
    then show ?thesis
      by (auto simp: slot_bucket_def second_bucket_def empty_bucket_def)
  next
    case False
    have "0 < now" using assms(3) by simp
    then have "slot_bucket h ?i = second_bucket ?ts h"
      using slot_in_window [OF assms(1,2) i(1)] False sec by metis
    then show ?thesis by (simp add: second_bucket_def)
  qed
  then show ?thesis
    unfolding series_at_def Let_def ts bucket_index_nonneg [OF ge]
    using i(1) by (auto simp: nth_map_upt split: if_splits)
qed

text \<open>The snapshot of a represented history.\<close>

lemma site_snapshot_Some:
  assumes "metrics_rep h m" "history_ok h" "\<forall>e \<in> set h. fst e \<le> now" "59 \<le> now"
  obtains sn where "site_snapshot now m = Some sn"
    "sn_reqs_per_sec sn = map (\<lambda>k. of_nat (length (at_second (now - (59 - int k)) h))) [0..<60]"
    "sn_reqs_1m sn = window_sum now (\<lambda>b. ucast (b_reqs b)) (map (slot_bucket h) [0..<60])"
    "sn_bytes_1m sn = window_sum now b_bytes (map (slot_bucket h) [0..<60])"
    "sn_errs_1m sn = window_sum now (\<lambda>b. ucast (b_errors b)) (map (slot_bucket h) [0..<60])"
    "sn_requests sn = of_nat (length h)" "sn_bytes sn = m_bytes m" "sn_errors sn = m_errors m"
    "sn_status sn = m_status m" "sn_p50 sn = pct (latency_window m) 50" "sn_p95 sn = pct (latency_window m) 95"
    "sn_p99 sn = pct (latency_window m) 99"
proof -
  have b: "m_buckets m = map (slot_bucket h) [0..<60]" "m_requests m = of_nat (length h)"
    using assms(1) by (simp_all add: metrics_rep_def)
  have series: "all_some (map (series_at now (m_buckets m)) [0..<bucket_count]) =
      Some (map (\<lambda>k. of_nat (length (at_second (now - (59 - int k)) h))) [0..<60])"
    unfolding b bucket_count_def
    by (rule all_some_map) (simp add: series_history [OF assms(2-4)])
  have none: "m_latency_n m = 0 \<Longrightarrow> latency_window m = []" by (simp add: latency_window_def)
  obtain sn where sn: "site_snapshot now m = Some sn" by (simp add: site_snapshot_def series Let_def)
  show ?thesis
    by (rule that [OF sn]) (use sn none in \<open>auto simp: site_snapshot_def Let_def pct_def series b(2) b(1) [symmetric]\<close>)
qed

subsection \<open>Properties\<close>

definition sample_history :: history where
  "sample_history =
     [(100, \<lparr>sm_status = 200, sm_bytes = 512, sm_latency = 3000000\<rparr>),
      (100, \<lparr>sm_status = 502, sm_bytes = 0, sm_latency = 400\<rparr>),
      (170, \<lparr>sm_status = 200, sm_bytes = 1024, sm_latency = 12000000\<rparr>)]"

lemma sample_history_ok: "history_ok sample_history" "\<forall>e \<in> set sample_history. fst e \<le> 171"
  by (simp_all add: history_ok_def sample_history_def)

lemma ucast_count: "n < 2 ^ 32 \<Longrightarrow> (ucast (of_nat n :: 32 word) :: 64 word) = of_nat n"
  by (simp add: unsigned_of_nat take_bit_eq_mod)

lemma length_as_sum: "of_nat (length xs) = sum_list (map (\<lambda>_. 1) xs)"
  by (induction xs) simp_all

lemma length_filter_as_sum: "of_nat (length (filter P xs)) = sum_list (map (\<lambda>x. if P x then 1 else 0) xs)"
  by (induction xs) simp_all

lemma at_second_le: "length (at_second s h) \<le> length h"
  by (simp add: at_second_def)

lemma errors_le: "length (filter P (at_second s h)) \<le> length h"
  using length_filter_le [of P "at_second s h"] at_second_le [of s h] by linarith

text \<open>
  The snapshot of a represented history of fewer than \<open>2 ^ 32\<close> samples: the lifetime counters
  and the status table count all samples, the last-minute figures those of the last sixty
  seconds, the series those of each of these seconds, oldest first. A slot reused for a later
  second does not leak into the sums, and no recent sample is lost.
\<close>

lemma snapshot_of_history:
  assumes "metrics_rep h m" "history_ok h" "length h < 2 ^ 32" "\<forall>e \<in> set h. fst e \<le> now" "59 \<le> now"
  obtains sn where "site_snapshot now m = Some sn" "sn_requests sn = of_nat (length h)"
    "sn_bytes sn = sum_list (map (\<lambda>e. sample_bytes (snd e)) h)"
    "sn_errors sn = of_nat (length (filter (\<lambda>e. is_error (snd e)) h))"
    "sn_reqs_1m sn = of_nat (length (recent now h))"
    "sn_bytes_1m sn = sum_list (map (\<lambda>e. sample_bytes (snd e)) (recent now h))"
    "sn_errs_1m sn = of_nat (length (filter (\<lambda>e. is_error (snd e)) (recent now h)))"
    "sn_reqs_per_sec sn = map (\<lambda>k. of_nat (length (at_second (now - (59 - int k)) h))) [0..<60]"
    "\<And>c. gm_get (sn_status sn) c =
      (let n = length (filter (\<lambda>e. sm_status (snd e) = c) h) in if n = 0 then None else Some (of_nat n))"
proof -
  have now: "0 < now" using assms(5) by simp
  note win = window_sum_history [OF assms(2,4) now]
  have reqs: "ucast (b_reqs (second_bucket s h)) = (sum_list (map (\<lambda>_. 1) (at_second s h)) :: 64 word)" for s
    using at_second_le [of s h] assms(3)
    by (simp add: second_bucket_def ucast_count length_as_sum [symmetric])
  have errs: "ucast (b_errors (second_bucket s h)) =
      (sum_list (map (\<lambda>e. if is_error (snd e) then 1 else 0) (at_second s h)) :: 64 word)" for s
    using errors_le [of "\<lambda>e. is_error (snd e)" s h] assms(3)
    by (simp add: second_bucket_def ucast_count length_filter_as_sum [symmetric])
  have bytes: "b_bytes (second_bucket s h) = sum_list (map (\<lambda>e. sample_bytes (snd e)) (at_second s h))" for s
    by (simp add: second_bucket_def)
  have totals: "m_bytes m = sum_list (map (\<lambda>e. sample_bytes (snd e)) h)"
    "m_errors m = of_nat (length (filter (\<lambda>e. is_error (snd e)) h))"
    "\<And>c. gm_get (m_status m) c =
      (let n = length (filter (\<lambda>e. sm_status (snd e) = c) h) in if n = 0 then None else Some (of_nat n))"
    using assms(1) by (simp_all add: metrics_rep_def)
  obtain sn where sn: "site_snapshot now m = Some sn"
    "sn_reqs_per_sec sn = map (\<lambda>k. of_nat (length (at_second (now - (59 - int k)) h))) [0..<60]"
    "sn_reqs_1m sn = window_sum now (\<lambda>b. ucast (b_reqs b)) (map (slot_bucket h) [0..<60])"
    "sn_bytes_1m sn = window_sum now b_bytes (map (slot_bucket h) [0..<60])"
    "sn_errs_1m sn = window_sum now (\<lambda>b. ucast (b_errors b)) (map (slot_bucket h) [0..<60])"
    "sn_requests sn = of_nat (length h)" "sn_bytes sn = m_bytes m" "sn_errors sn = m_errors m"
    "sn_status sn = m_status m"
    by (rule site_snapshot_Some [OF assms(1,2,4,5)])
  show ?thesis
    by (rule that [OF sn(1,6)])
      (simp_all add: sn(2-) win [OF reqs] win [OF bytes] win [OF errs] totals
        length_as_sum [symmetric] length_filter_as_sum [symmetric])
qed

subsection \<open>Percentiles\<close>

definition recent_latencies :: "history \<Rightarrow> 32 word list" where
  "recent_latencies h = sort (drop (length h - lat_ring_size) (map (\<lambda>e. latency_ms (snd e)) h))"

lemma latency_window_history: "metrics_rep h m \<Longrightarrow> latency_window m = recent_latencies h"
proof -
  assume "metrics_rep h m"
  then have "mset (take (m_latency_n m) (m_latency m)) =
      mset (drop (length h - lat_ring_size) (map (\<lambda>e. latency_ms (snd e)) h))"
    using ring_rep_mset by (fastforce simp: metrics_rep_def)
  then show ?thesis
    unfolding latency_window_def recent_latencies_def by (intro properties_for_sort) simp_all
qed

lemma pct_mono:
  assumes "sorted xs" "p \<le> q"
  shows "pct xs p \<le> pct xs q"
proof -
  have "length xs * p div 100 \<le> length xs * q div 100"
    using assms(2) by (intro div_le_mono mult_le_mono) simp_all
  then show ?thesis
    using assms(1) by (auto simp: pct_def Let_def intro!: sorted_nth_mono)
qed

lemma pct_rank:
  assumes "sorted xs" "xs \<noteq> []" "p < 100"
  shows "length xs * p div 100 < length (filter (\<lambda>x. x \<le> pct xs p) xs)"
    and "pct xs p \<in> set xs"
proof -
  let ?i = "length xs * p div 100"
  have i: "?i < length xs" using assms(2,3) by (simp add: div_less_iff_less_mult)
  then have pct: "pct xs p = xs ! ?i" using assms(2) by (simp add: pct_def Let_def)
  then show "pct xs p \<in> set xs" using i by simp
  have "filter (\<lambda>x. x \<le> xs ! ?i) (take (Suc ?i) xs) = take (Suc ?i) xs"
    using assms(1) i by (auto simp: filter_id_conv in_set_conv_nth less_Suc_eq_le intro!: sorted_nth_mono [of xs])
  then have "Suc ?i \<le> length (filter (\<lambda>x. x \<le> xs ! ?i) (take (Suc ?i) xs @ drop (Suc ?i) xs))"
    using i unfolding filter_append length_append by simp
  then show "?i < length (filter (\<lambda>x. x \<le> pct xs p) xs)" unfolding pct append_take_drop_id by simp
qed

text \<open>
  The latency percentiles are those of the last 1024 requests. Whatever way the ring has
  wrapped, the snapshot's P50, P95 and P99 are members of the multiset of the latest (at most
  1024) latencies, they are ordered, and more than p percent of that many requests (rounded
  down) were no slower than the p-th percentile.\<close>
lemma percentiles_of_recent:
  assumes "history_ok h" "h \<noteq> []" "\<forall>e \<in> set h. fst e \<le> now" "59 \<le> now"
    and "record_all h new_site_metrics = Some m" "site_snapshot now m = Some sn"
  shows "sn_p50 sn \<le> sn_p95 sn \<and> sn_p95 sn \<le> sn_p99 sn \<and>
    (\<forall>(p, v) \<in> {(50, sn_p50 sn), (95, sn_p95 sn), (99, sn_p99 sn)}.
       v \<in> set (recent_latencies h) \<and>
       length (recent_latencies h) * p div 100 < length (filter (\<lambda>x. x \<le> v) (recent_latencies h)))"
proof -
  have rep: "metrics_rep h m" using record_all_rep [OF assms(1)] assms(5) by auto
  define L where "L = recent_latencies h"
  have "0 < length h" using assms(2) by simp
  then have "length L \<noteq> 0" by (simp add: L_def not_le recent_latencies_def lat_ring_size_def)
  moreover have "sorted L" by (simp add: L_def recent_latencies_def)
  ultimately have L: "sorted L" "L \<noteq> []" by auto
  have sn: "sn_p50 sn = pct L 50 \<and> sn_p95 sn = pct L 95 \<and> sn_p99 sn = pct L 99"
    by (rule site_snapshot_Some [OF rep assms(1,3,4)])
      (use assms(6) latency_window_history [OF rep] in \<open>simp add: L_def\<close>)
  show ?thesis
    unfolding L_def [symmetric] using sn pct_rank [OF L, of 50] pct_rank [OF L, of 95] pct_rank [OF L, of 99]
      pct_mono [OF L(1), of 50 95] pct_mono [OF L(1), of 95 99] by simp
qed

lemma percentiles_of_recent_witness:
  "\<exists>m sn. record_all sample_history new_site_metrics = Some m \<and> site_snapshot 171 m = Some sn \<and>
     sn_p50 sn \<le> sn_p99 sn \<and> sn_p95 sn \<in> set (recent_latencies sample_history)"
proof -
  have now: "59 \<le> (171 :: int)" and ne: "sample_history \<noteq> []" by (simp_all add: sample_history_def)
  obtain m where m: "record_all sample_history new_site_metrics = Some m" "metrics_rep sample_history m"
    using record_all_rep [OF sample_history_ok(1)] by blast
  obtain sn where sn: "site_snapshot 171 m = Some sn"
    by (rule site_snapshot_Some [OF m(2) sample_history_ok now])
  from percentiles_of_recent [OF sample_history_ok(1) ne sample_history_ok(2) now m(1) sn] m(1) sn
  show ?thesis by (auto intro: order_trans)
qed

subsection \<open>The registry: domains do not disturb each other\<close>

fun registry_run :: "(string \<times> int \<times> sample) list \<Rightarrow> registry \<Rightarrow> registry option" where
  "registry_run [] reg = Some reg"
| "registry_run ((d, t, sm) # evs) reg =
     (case registry_record d t sm reg of None \<Rightarrow> None | Some reg' \<Rightarrow> registry_run evs reg')"

definition events_of :: "string \<Rightarrow> (string \<times> int \<times> sample) list \<Rightarrow> history" where
  "events_of d evs = map snd (filter (\<lambda>e. fst e = d) evs)"

lemma registry_run_get:
  "registry_run evs reg = Some reg' \<Longrightarrow> events_of d evs \<noteq> [] \<or> gm_get reg d \<noteq> None \<Longrightarrow>
     gm_get reg' d = record_all (events_of d evs)
       (case gm_get reg d of None \<Rightarrow> new_site_metrics | Some m \<Rightarrow> m)"
proof (induction evs arbitrary: reg)
  case Nil
  then show ?case by (auto simp: events_of_def)
next
  case (Cons e evs)
  obtain x t sm where e: "e = (x, t, sm)" by (cases e)
  with Cons.prems obtain reg1 where r: "registry_record x t sm reg = Some reg1"
      "registry_run evs reg1 = Some reg'" by (auto split: option.splits)
  note get = registry_record_get [OF r(1), of d]
  show ?case
  proof (cases "x = d")
    case True
    obtain m1 where m1: "record_sample t sm (case gm_get reg d of None \<Rightarrow> new_site_metrics | Some m \<Rightarrow> m) = Some m1"
        "gm_get reg1 d = Some m1"
      using r(1) True get by (auto simp: registry_record_def site_for_def Let_def split: option.splits)
    with Cons.IH [OF r(2)] True e show ?thesis by (simp add: events_of_def)
  next
    case False
    with Cons.IH [OF r(2)] Cons.prems(2) get e show ?thesis by (simp add: events_of_def)
  qed
qed

lemma registry_run_absent:
  "registry_run evs reg = Some reg' \<Longrightarrow> events_of d evs = [] \<Longrightarrow> gm_get reg' d = gm_get reg d"
proof (induction evs arbitrary: reg)
  case (Cons e evs)
  obtain x t sm where e: "e = (x, t, sm)" by (cases e)
  with Cons.prems obtain reg1 where r: "registry_record x t sm reg = Some reg1"
      "registry_run evs reg1 = Some reg'" by (auto split: option.splits)
  have "x \<noteq> d" "events_of d evs = []" using Cons.prems(2) e by (auto simp: events_of_def split: if_splits)
  with Cons.IH [OF r(2)] registry_record_get [OF r(1), of d] show ?case by simp
qed simp

lemma registry_run_ok: "registry_run evs reg = Some reg' \<Longrightarrow> gm_ok reg \<Longrightarrow> gm_ok reg'"
proof (induction evs arbitrary: reg)
  case (Cons e evs)
  obtain x t sm where e: "e = (x, t, sm)" by (cases e)
  with Cons.prems(1) obtain reg1 where "registry_record x t sm reg = Some reg1"
      "registry_run evs reg1 = Some reg'" by (auto split: option.splits)
  with Cons.IH registry_record_ok Cons.prems(2) show ?case by blast
qed simp

definition sample_events :: "(string \<times> int \<times> sample) list" where
  "sample_events =
     [(''a'', 100, \<lparr>sm_status = 200, sm_bytes = 7, sm_latency = 1\<rparr>),
      (''b'', 100, \<lparr>sm_status = 500, sm_bytes = 0, sm_latency = 1\<rparr>)]"

text \<open>
  Metrics are kept per domain, and pruning is exact. However the requests of several
  domains interleave, after pruning to the active set the registry holds for every active
  domain that was recorded exactly what recording that domain's own requests alone gives,
  and nothing for any other domain.\<close>
lemma registry_isolated:
  assumes "registry_run evs new_registry = Some reg"
  shows "gm_get (prune keep reg) d =
    (if keep d \<and> events_of d evs \<noteq> [] then record_all (events_of d evs) new_site_metrics else None)"
proof -
  have ok: "gm_ok reg" using registry_run_ok [OF assms] by (simp add: new_registry_def)
  have "gm_get reg d = (if events_of d evs \<noteq> [] then record_all (events_of d evs) new_site_metrics else None)"
    using registry_run_get [OF assms, of d] registry_run_absent [OF assms, of d]
    by (simp add: new_registry_def)
  then show ?thesis using prune_get(1) [OF ok, of keep d] by auto
qed

lemma registry_isolated_witness:
  "\<exists>reg m. registry_run sample_events new_registry = Some reg \<and>
     gm_get (prune (\<lambda>d. d = ''a'') reg) ''a'' = Some m \<and> m_requests m = 1 \<and>
     gm_get (prune (\<lambda>d. d = ''a'') reg) ''b'' = None"
proof -
  obtain reg where reg: "registry_run sample_events new_registry = Some reg"
    by (simp add: sample_events_def registry_record_def site_for_def Let_def record_sample_def
        record_locked_def bucket_index_nonneg new_registry_def gomap_simps)
  have one: "history_ok (events_of ''a'' sample_events)"
    by (simp add: history_ok_def events_of_def sample_events_def)
  obtain m where m: "record_all (events_of ''a'' sample_events) new_site_metrics = Some m"
      "metrics_rep (events_of ''a'' sample_events) m"
    using record_all_rep [OF one] by blast
  have "events_of ''a'' sample_events \<noteq> []" "m_requests m = 1"
    using m(2) by (simp_all add: metrics_rep_def events_of_def sample_events_def)
  with m(1) reg registry_isolated [OF reg, of "\<lambda>d. d = ''a''"] show ?thesis by simp
qed

end
