(* ===== verification/Metrics_Recorders.thy ===== *)
theory Metrics_Recorders
  imports Metrics_Window
begin

section \<open>Requests that are recorded at the same time\<close>

text \<open>
  \<open>Site.Record\<close> of \<open>internal/metrics/metrics.go\<close> run by several goroutines: three additions to
  atomic counters, the reading of the clock, and the part under the mutex are separate steps,
  in any interleaving. A goroutine that has read the clock keeps the second it read; one that
  is done keeps it together with the second at which it had the mutex. The clock does not go
  back.
\<close>

definition count_request :: "site_metrics \<Rightarrow> site_metrics" where
  "count_request m = m\<lparr>m_requests := m_requests m + 1\<rparr>"

definition count_bytes :: "sample \<Rightarrow> site_metrics \<Rightarrow> site_metrics" where
  "count_bytes sm m = (if sm_bytes sm > 0 then m\<lparr>m_bytes := m_bytes m + word_of_int (sm_bytes sm)\<rparr> else m)"

definition count_error :: "sample \<Rightarrow> site_metrics \<Rightarrow> site_metrics" where
  "count_error sm m = (if is_error sm then m\<lparr>m_errors := m_errors m + 1\<rparr> else m)"

lemma record_totals_parts: "record_totals sm m = count_error sm (count_bytes sm (count_request m))"
  by (simp add: record_totals_def count_error_def count_bytes_def count_request_def sample_bytes_def)

datatype rec_pc = Begun | Counted | Weighed | Judged | Timed int | Recorded int int

record recording =
  rg_site :: site_metrics
  rg_tasks :: "(sample \<times> rec_pc) list"
  rg_now :: int

datatype rec_event = Advance nat | Clock int

text \<open>One step of one goroutine: its next state, and the site's metrics.\<close>

definition task_step :: "int \<Rightarrow> sample \<Rightarrow> rec_pc \<Rightarrow> site_metrics \<Rightarrow> (rec_pc \<times> site_metrics) option" where
  "task_step now sm pc m =
     (case pc of
        Begun \<Rightarrow> Some (Counted, count_request m)
      | Counted \<Rightarrow> Some (Weighed, count_bytes sm m)
      | Weighed \<Rightarrow> Some (Judged, count_error sm m)
      | Judged \<Rightarrow> Some (Timed now, m)
      | Timed s \<Rightarrow> map_option (Pair (Recorded s now)) (record_locked s sm m)
      | Recorded s l \<Rightarrow> Some (pc, m))"

definition rec_step :: "rec_event \<Rightarrow> recording \<Rightarrow> recording option" where
  "rec_step ev w =
     (case ev of
        Clock t \<Rightarrow> Some (w\<lparr>rg_now := max (rg_now w) t\<rparr>)
      | Advance i \<Rightarrow>
          (if length (rg_tasks w) \<le> i then Some w
           else (let (sm, pc) = rg_tasks w ! i
                 in case task_step (rg_now w) sm pc (rg_site w) of
                      None \<Rightarrow> None
                    | Some (pc', m) \<Rightarrow> Some (w\<lparr>rg_site := m, rg_tasks := (rg_tasks w)[i := (sm, pc')]\<rparr>))))"

fun rec_run :: "rec_event list \<Rightarrow> recording \<Rightarrow> recording option" where
  "rec_run [] w = Some w"
| "rec_run (ev # evs) w = (case rec_step ev w of None \<Rightarrow> None | Some w' \<Rightarrow> rec_run evs w')"

definition begin_all :: "sample list \<Rightarrow> int \<Rightarrow> recording" where
  "begin_all sms now = \<lparr>rg_site = new_site_metrics, rg_tasks = map (\<lambda>sm. (sm, Begun)) sms, rg_now = now\<rparr>"

text \<open>What the finished goroutines have recorded, and that none was held up for a minute.\<close>

definition task_entries :: "sample \<times> rec_pc \<Rightarrow> history" where
  "task_entries t = (case snd t of Recorded s l \<Rightarrow> [(s, fst t)] | _ \<Rightarrow> [])"

definition entries :: "(sample \<times> rec_pc) list \<Rightarrow> history" where
  "entries ts = concat (map task_entries ts)"

definition task_prompt :: "sample \<times> rec_pc \<Rightarrow> bool" where
  "task_prompt t = (case snd t of Recorded s l \<Rightarrow> l < s + 60 | _ \<Rightarrow> True)"

definition task_done :: "sample \<times> rec_pc \<Rightarrow> bool" where
  "task_done t = (case snd t of Recorded s l \<Rightarrow> True | _ \<Rightarrow> False)"

subsection \<open>The invariant\<close>

definition added_requests :: "(sample \<times> rec_pc) list \<Rightarrow> 64 word" where
  "added_requests ts = sum_list (map (\<lambda>t. if snd t = Begun then 0 else 1) ts)"

definition added_bytes :: "(sample \<times> rec_pc) list \<Rightarrow> 64 word" where
  "added_bytes ts = sum_list (map (\<lambda>t. if snd t \<in> {Begun, Counted} then 0 else sample_bytes (fst t)) ts)"

definition added_errors :: "(sample \<times> rec_pc) list \<Rightarrow> 64 word" where
  "added_errors ts =
     sum_list (map (\<lambda>t. if snd t \<in> {Begun, Counted, Weighed} \<or> \<not> is_error (fst t) then 0 else 1) ts)"

lemmas added_defs = added_requests_def added_bytes_def added_errors_def

definition task_times :: "int \<Rightarrow> sample \<times> rec_pc \<Rightarrow> bool" where
  "task_times now t =
     (case snd t of
        Timed s \<Rightarrow> 0 < s \<and> s \<le> now
      | Recorded s l \<Rightarrow> 0 < s \<and> s \<le> l \<and> l \<le> now
      | _ \<Rightarrow> True)"

text \<open>A site's metrics with the totals that a history asks for.\<close>

definition with_totals :: "history \<Rightarrow> site_metrics \<Rightarrow> site_metrics" where
  "with_totals h m =
     m\<lparr>m_requests := of_nat (length h), m_bytes := sum_list (map (\<lambda>e. sample_bytes (snd e)) h),
       m_errors := of_nat (length (filter (\<lambda>e. is_error (snd e)) h))\<rparr>"

definition in_some_order :: "(sample \<times> rec_pc) list \<Rightarrow> site_metrics \<Rightarrow> bool" where
  "in_some_order ts m \<longleftrightarrow>
     (\<exists>h. mset h = mset (entries ts) \<and> history_ok h \<and> metrics_rep h (with_totals h m))"

definition recording_ok :: "recording \<Rightarrow> bool" where
  "recording_ok w \<longleftrightarrow>
     0 < rg_now w \<and> list_all (task_times (rg_now w)) (rg_tasks w) \<and>
     m_requests (rg_site w) = added_requests (rg_tasks w) \<and>
     m_bytes (rg_site w) = added_bytes (rg_tasks w) \<and>
     m_errors (rg_site w) = added_errors (rg_tasks w) \<and>
     (list_all task_prompt (rg_tasks w) \<longrightarrow> in_some_order (rg_tasks w) (rg_site w))"

lemma with_totals_counts [simp]:
  "with_totals h (count_request m) = with_totals h m"
  "with_totals h (count_bytes sm m) = with_totals h m"
  "with_totals h (count_error sm m) = with_totals h m"
  by (simp_all add: with_totals_def count_request_def count_bytes_def count_error_def)

lemma count_effects [simp]:
  "m_requests (count_request m) = m_requests m + 1" "m_bytes (count_request m) = m_bytes m"
  "m_errors (count_request m) = m_errors m"
  "m_requests (count_bytes sm m) = m_requests m" "m_bytes (count_bytes sm m) = m_bytes m + sample_bytes sm"
  "m_errors (count_bytes sm m) = m_errors m"
  "m_requests (count_error sm m) = m_requests m" "m_bytes (count_error sm m) = m_bytes m"
  "m_errors (count_error sm m) = m_errors m + (if is_error sm then 1 else 0)"
  by (simp_all add: count_request_def count_bytes_def count_error_def sample_bytes_def)

lemma in_some_order_counts [simp]:
  "in_some_order ts (count_request m) = in_some_order ts m"
  "in_some_order ts (count_bytes sm m) = in_some_order ts m"
  "in_some_order ts (count_error sm m) = in_some_order ts m"
  by (simp_all add: in_some_order_def)

lemma record_locked_totals:
  assumes "0 < s"
  obtains m' where "record_locked s sm m = Some m'" "m_requests m' = m_requests m" "m_bytes m' = m_bytes m"
    "m_errors m' = m_errors m" "record_sample s sm (with_totals h m) = Some (with_totals (h @ [(s, sm)]) m')"
  using assms
  by (simp add: record_locked_def record_sample_def record_totals_def bucket_index_nonneg with_totals_def
      count_status_def push_latency_def)

lemma entries_simps [simp]:
  "entries (ts @ us) = entries ts @ entries us"
  "entries (t # ts) = task_entries t @ entries ts"
  "entries [] = []"
  by (simp_all add: entries_def)

lemma in_some_order_open:
  "task_entries t = [] \<Longrightarrow> in_some_order (pre @ t # post) m = in_some_order (pre @ post) m"
  by (simp add: in_some_order_def)

lemma entries_times: "e \<in> set (entries ts) \<Longrightarrow> list_all (task_times now) ts \<Longrightarrow> fst e \<le> now"
  by (induction ts) (auto simp: task_entries_def task_times_def split: rec_pc.splits)

lemma locked_in_order:
  assumes "in_some_order (pre @ (sm, Timed s) # post) m" "record_locked s sm m = Some m'"
    and "0 < s" "now < s + 60" "list_all (task_times now) (pre @ (sm, Timed s) # post)"
  shows "in_some_order (pre @ (sm, Recorded s now) # post) m'"
proof -
  obtain h where h: "mset h = mset (entries (pre @ post))" "history_ok h" "metrics_rep h (with_totals h m)"
    using assms(1) by (auto simp: in_some_order_def task_entries_def)
  have "fst e \<le> now" if "e \<in> set (entries (pre @ post))" for e
    using entries_times [OF that, of now] assms(5) by simp
  then have "\<forall>e \<in> set h. fst e < s + 60" using h(1) assms(4) mset_eq_setD [OF h(1)] by force
  with h(2) assms(3) have ok: "history_ok (h @ [(s, sm)])" by (simp add: history_ok_append)
  obtain m'' where "record_sample s sm (with_totals h m) = Some m''" "metrics_rep (h @ [(s, sm)]) m''"
    using metrics_rep_record [OF h(3) ok] .
  moreover have "record_sample s sm (with_totals h m) = Some (with_totals (h @ [(s, sm)]) m')"
    using record_locked_totals [OF assms(3), of sm m h] assms(2) by auto
  ultimately have "metrics_rep (h @ [(s, sm)]) (with_totals (h @ [(s, sm)]) m')" by simp
  with ok h(1) show ?thesis
    unfolding in_some_order_def by (intro exI [of _ "h @ [(s, sm)]"]) (simp add: task_entries_def)
qed

lemma rec_step_ok:
  assumes "recording_ok w"
  shows "\<exists>w'. rec_step ev w = Some w' \<and> recording_ok w'"
proof (cases ev)
  case (Clock t)
  have "task_times (max (rg_now w) t) x" if "task_times (rg_now w) x" for x
    using that by (auto simp: task_times_def split: rec_pc.splits)
  with assms Clock show ?thesis
    by (auto simp: rec_step_def recording_ok_def list_all_iff)
next
  case (Advance i)
  show ?thesis
  proof (cases "length (rg_tasks w) \<le> i")
    case True
    with assms Advance show ?thesis by (simp add: rec_step_def)
  next
    case False
    obtain sm pc where i: "rg_tasks w ! i = (sm, pc)" by fastforce
    define pre post where "pre = take i (rg_tasks w)" and "post = drop (Suc i) (rg_tasks w)"
    have ts: "rg_tasks w = pre @ (sm, pc) # post"
      using id_take_nth_drop [of i "rg_tasks w"] False i by (simp add: pre_def post_def)
    have upd: "(rg_tasks w)[i := x] = pre @ x # post" for x
      using upd_conv_take_nth_drop [of i "rg_tasks w"] False by (simp add: pre_def post_def)
    have step: "rec_step ev w =
        (case task_step (rg_now w) sm pc (rg_site w) of None \<Rightarrow> None
         | Some (pc', m) \<Rightarrow> Some (w\<lparr>rg_site := m, rg_tasks := pre @ (sm, pc') # post\<rparr>))"
      using Advance False by (simp add: rec_step_def i upd split: option.split)
    note ok = assms [unfolded recording_ok_def ts]
    show ?thesis
    proof (cases pc)
      case (Timed s)
      with ok have s: "0 < s" "s \<le> rg_now w" by (auto simp: task_times_def)
      obtain m' where m': "record_locked s sm (rg_site w) = Some m'" "m_requests m' = m_requests (rg_site w)"
          "m_bytes m' = m_bytes (rg_site w)" "m_errors m' = m_errors (rg_site w)"
        using record_locked_totals [OF s(1)] by metis
      have "in_some_order (pre @ (sm, Recorded s (rg_now w)) # post) m'"
        if "list_all task_prompt (pre @ (sm, Recorded s (rg_now w)) # post)"
        using ok that locked_in_order [OF _ m'(1) s(1)] Timed by (simp add: task_prompt_def)
      with ok Timed m' s show ?thesis
        by (simp add: step task_step_def recording_ok_def added_defs task_times_def)
    qed (use ok in \<open>auto simp: step task_step_def recording_ok_def added_defs task_times_def task_prompt_def
        in_some_order_open task_entries_def\<close>)
  qed
qed

subsection \<open>What the goroutines have recorded when all are done\<close>

lemma rec_run_ok: "recording_ok w \<Longrightarrow> \<exists>w'. rec_run evs w = Some w' \<and> recording_ok w'"
proof (induction evs arbitrary: w)
  case (Cons ev evs)
  from rec_step_ok [OF Cons.prems, of ev] obtain w1 where "rec_step ev w = Some w1" "recording_ok w1" by blast
  with Cons.IH show ?case by simp
qed simp

lemma rec_step_samples: "rec_step ev w = Some w' \<Longrightarrow> map fst (rg_tasks w') = map fst (rg_tasks w)"
  by (auto simp: rec_step_def Let_def map_update list_update_id split: rec_event.splits if_splits prod.splits option.splits)
    (metis fst_conv list_update_id map_update nth_map not_le)

lemma rec_run_samples: "rec_run evs w = Some w' \<Longrightarrow> map fst (rg_tasks w') = map fst (rg_tasks w)"
  by (induction evs arbitrary: w) (auto split: option.splits dest: rec_step_samples)

lemma begin_all_ok: "0 < now \<Longrightarrow> recording_ok (begin_all sms now)"
proof -
  assume "0 < now"
  have none: "entries (map (\<lambda>sm. (sm, Begun)) sms) = []" by (induction sms) (simp_all add: task_entries_def)
  have "with_totals [] new_site_metrics = new_site_metrics" by (simp add: with_totals_def new_site_metrics_def)
  then have "in_some_order (map (\<lambda>sm. (sm, Begun)) sms) new_site_metrics"
    unfolding in_some_order_def none by (intro exI [of _ "[]"]) (simp add: history_ok_def metrics_rep_new)
  with \<open>0 < now\<close> show ?thesis
    by (simp add: recording_ok_def begin_all_def list_all_iff task_times_def added_defs o_def new_site_metrics_def)
qed

lemma all_done_totals:
  assumes "list_all task_done ts"
  shows "map snd (entries ts) = map fst ts" "added_requests ts = of_nat (length ts)"
    "added_bytes ts = sum_list (map sample_bytes (map fst ts))"
    "added_errors ts = of_nat (length (filter is_error (map fst ts)))"
  using assms
  by (induction ts) (auto simp: added_defs task_done_def task_entries_def split: rec_pc.splits)

lemma mset_counts:
  assumes "mset h = mset h'"
  shows "length (filter P h) = length (filter P h')"
    and "sum_list (map g (filter P h)) = (sum_list (map g (filter P h')) :: 'a :: comm_monoid_add)"
proof -
  from assms have f: "mset (filter P h) = mset (filter P h')" by simp
  then show "length (filter P h) = length (filter P h')" by (rule mset_eq_length)
  from f show "sum_list (map g (filter P h)) = sum_list (map g (filter P h'))"
    by (metis mset_map sum_mset_sum_list)
qed

definition sample_race :: "rec_event list" where
  "sample_race =
     [Advance 0, Advance 1, Advance 0, Advance 0, Advance 0, Clock 101, Advance 1, Advance 1, Advance 1, Advance 1,
      Advance 0]"

definition racing_samples :: "sample list" where
  "racing_samples =
     [\<lparr>sm_status = 200, sm_bytes = 7, sm_latency = 5\<rparr>, \<lparr>sm_status = 502, sm_bytes = 0, sm_latency = 5\<rparr>]"

text \<open>The second goroutine reads the clock later and gets the mutex first.\<close>

lemma sample_race_tasks:
  "map_option (\<lambda>w. (rg_tasks w, rg_now w)) (rec_run sample_race (begin_all racing_samples 100)) =
   Some ([(\<lparr>sm_status = 200, sm_bytes = 7, sm_latency = 5\<rparr>, Recorded 100 101),
          (\<lparr>sm_status = 502, sm_bytes = 0, sm_latency = 5\<rparr>, Recorded 101 101)], 101)"
  by code_simp

text \<open>
  The metrics of one site are exact, however requests overlap. When any number of requests below
  \<open>2 ^ 32\<close> record their samples at the same time, in any interleaving of their steps and of
  the clock, no recording panics; and once all are done, none of them having been held up
  for a minute between reading the clock and getting the mutex, a snapshot reports all
  samples in its lifetime counters, and as its last-minute sums and its per-second series
  exactly the samples of the last sixty seconds and of each of these seconds. A slot reused
  for a later second does not leak into the sums, and no update is lost.\<close>
lemma concurrent_recording_exact:
  assumes "0 < start" "length sms < 2 ^ 32"
  shows "\<exists>w. rec_run evs (begin_all sms start) = Some w \<and>
    (list_all task_done (rg_tasks w) \<and> list_all task_prompt (rg_tasks w) \<and> 59 \<le> rg_now w \<longrightarrow>
      (let now = rg_now w; h = entries (rg_tasks w) in
       map snd h = sms \<and>
       (\<exists>sn. site_snapshot now (rg_site w) = Some sn \<and>
         sn_requests sn = of_nat (length sms) \<and> sn_bytes sn = sum_list (map sample_bytes sms) \<and>
         sn_errors sn = of_nat (length (filter is_error sms)) \<and>
         sn_reqs_1m sn = of_nat (length (recent now h)) \<and>
         sn_bytes_1m sn = sum_list (map (\<lambda>e. sample_bytes (snd e)) (recent now h)) \<and>
         sn_errs_1m sn = of_nat (length (filter (\<lambda>e. is_error (snd e)) (recent now h))) \<and>
         sn_reqs_per_sec sn = map (\<lambda>k. of_nat (length (at_second (now - (59 - int k)) h))) [0..<60])))"
proof -
  obtain w where w: "rec_run evs (begin_all sms start) = Some w" "recording_ok w"
    using rec_run_ok [OF begin_all_ok [OF assms(1)]] by blast
  let ?ts = "rg_tasks w" and ?now = "rg_now w"
  let ?g = "entries ?ts"
  have fst: "map fst ?ts = sms" using rec_run_samples [OF w(1)] by (simp add: begin_all_def o_def)
  have "map snd ?g = sms \<and> (\<exists>sn. site_snapshot ?now (rg_site w) = Some sn \<and>
      sn_requests sn = of_nat (length sms) \<and> sn_bytes sn = sum_list (map sample_bytes sms) \<and>
      sn_errors sn = of_nat (length (filter is_error sms)) \<and>
      sn_reqs_1m sn = of_nat (length (recent ?now ?g)) \<and>
      sn_bytes_1m sn = sum_list (map (\<lambda>e. sample_bytes (snd e)) (recent ?now ?g)) \<and>
      sn_errs_1m sn = of_nat (length (filter (\<lambda>e. is_error (snd e)) (recent ?now ?g))) \<and>
      sn_reqs_per_sec sn = map (\<lambda>k. of_nat (length (at_second (?now - (59 - int k)) ?g))) [0..<60])"
    if d: "list_all task_done ?ts" "list_all task_prompt ?ts" "59 \<le> ?now"
  proof -
    obtain h where h: "mset h = mset ?g" "history_ok h" "metrics_rep h (with_totals h (rg_site w))"
      using w(2) d(2) by (auto simp: recording_ok_def in_some_order_def)
    have snd: "mset (map snd h) = mset sms" using h(1) all_done_totals(1) [OF d(1)] fst by (metis mset_map)
    have tot: "length h = length sms" "sum_list (map (\<lambda>e. sample_bytes (snd e)) h) = sum_list (map sample_bytes sms)"
      "length (filter (\<lambda>e. is_error (snd e)) h) = length (filter is_error sms)"
      using mset_eq_length [OF snd] mset_counts(1) [OF snd, where P = is_error]
        mset_counts(2) [OF snd, where P = "\<lambda>_. True" and g = sample_bytes] by (simp_all add: filter_map o_def)
    have len: "length ?ts = length sms" using fst by (metis length_map)
    have "with_totals h (rg_site w) = rg_site w"
      using w(2) all_done_totals(2-) [OF d(1)] by (simp add: with_totals_def recording_ok_def fst len tot)
    with h(3) have rep: "metrics_rep h (rg_site w)" by simp
    have "\<forall>e \<in> set ?g. fst e \<le> ?now" using w(2) entries_times by (auto simp: recording_ok_def)
    then have le: "\<forall>e \<in> set h. fst e \<le> ?now" using mset_eq_setD [OF h(1)] by simp
    show ?thesis
      by (rule snapshot_of_history [OF rep h(2) _ le d(3)])
        (use assms(2) tot all_done_totals(1) [OF d(1)] fst in
          \<open>auto simp: recent_def at_second_def mset_counts [OF h(1)]\<close>)
  qed
  with w(1) show ?thesis by (simp add: Let_def)
qed

lemma concurrent_recording_exact_witness:
  "\<exists>w sn. rec_run sample_race (begin_all racing_samples 100) = Some w \<and> site_snapshot 101 (rg_site w) = Some sn \<and>
     sn_requests sn = 2 \<and> sn_reqs_1m sn = 2 \<and> sn_errs_1m sn = 1 \<and> sn_bytes_1m sn = 7"
proof -
  obtain w where w: "rec_run sample_race (begin_all racing_samples 100) = Some w" "rg_now w = 101"
    and ts: "rg_tasks w = [(\<lparr>sm_status = 200, sm_bytes = 7, sm_latency = 5\<rparr>, Recorded 100 101),
      (\<lparr>sm_status = 502, sm_bytes = 0, sm_latency = 5\<rparr>, Recorded 101 101)]"
    using sample_race_tasks by auto
  have ended: "list_all task_done (rg_tasks w)" "list_all task_prompt (rg_tasks w)"
    by (simp_all add: ts task_done_def task_prompt_def)
  have h: "entries (rg_tasks w) = [(100, \<lparr>sm_status = 200, sm_bytes = 7, sm_latency = 5\<rparr>),
      (101, \<lparr>sm_status = 502, sm_bytes = 0, sm_latency = 5\<rparr>)]"
    by (simp add: ts task_entries_def)
  have "length racing_samples < 2 ^ 32" by (simp add: racing_samples_def)
  from concurrent_recording_exact [OF _ this, of 100 sample_race] w(1) ended
  obtain sn where "site_snapshot 101 (rg_site w) = Some sn" "sn_requests sn = of_nat (length racing_samples)"
      "sn_reqs_1m sn = of_nat (length (recent 101 (entries (rg_tasks w))))"
      "sn_bytes_1m sn = sum_list (map (\<lambda>e. sample_bytes (snd e)) (recent 101 (entries (rg_tasks w))))"
      "sn_errs_1m sn = of_nat (length (filter (\<lambda>e. is_error (snd e)) (recent 101 (entries (rg_tasks w)))))"
    by (auto simp: w(2) Let_def)
  with w(1) show ?thesis
    by (auto simp: h recent_def is_error_def sample_bytes_def racing_samples_def)
qed

end
