(* ===== verification/Metrics_Registry.thy ===== *)
theory Metrics_Registry
  imports Metrics_Recorders
begin

section \<open>Requests that find and record into the sites of one registry\<close>

text \<open>
  \<open>recordMetric\<close> of \<open>internal/proxy/router.go\<close> with \<open>Registry.SiteFor\<close> and \<open>Site.Record\<close> of
  \<open>internal/metrics/metrics.go\<close>, run by several goroutines for several domains. Sites are
  cells of a heap, the registry maps a domain to its cell. \<open>SiteFor\<close> looks under the read lock
  first, and when it finds nothing looks again, and creates, under the write lock; between the
  two, and after the site was found, anything else can come, \<open>Prune\<close> included. A goroutine
  that has found its site keeps the pointer.
\<close>

datatype goroutine_pc = Looking | Missed | On nat rec_pc

record metering =
  mt_heap :: "site_metrics list"
  mt_map :: "(string, nat) gomap"
  mt_agents :: "(string \<times> sample \<times> goroutine_pc) list"
  mt_now :: int

datatype meter_event = Step nat | Tick int | Prune_To "string \<Rightarrow> bool"

definition look_again ::
  "string \<Rightarrow> site_metrics list \<times> (string, nat) gomap \<Rightarrow> nat \<times> site_metrics list \<times> (string, nat) gomap" where
  "look_again d hm =
     (case gm_get (snd hm) d of
        Some i \<Rightarrow> (i, hm)
      | None \<Rightarrow> (length (fst hm), fst hm @ [new_site_metrics], gm_put d (length (fst hm)) (snd hm)))"

definition goroutine_step ::
  "int \<Rightarrow> string \<Rightarrow> sample \<Rightarrow> goroutine_pc \<Rightarrow> site_metrics list \<times> (string, nat) gomap \<Rightarrow>
     (goroutine_pc \<times> site_metrics list \<times> (string, nat) gomap) option" where
  "goroutine_step now d sm pc hm =
     (case pc of
        Looking \<Rightarrow> Some (case gm_get (snd hm) d of None \<Rightarrow> Missed | Some i \<Rightarrow> On i Begun, hm)
      | Missed \<Rightarrow> (let (i, hm1) = look_again d hm in Some (On i Begun, hm1))
      | On i p \<Rightarrow>
          (case task_step now sm p (fst hm ! i) of
             None \<Rightarrow> None
           | Some (p', m) \<Rightarrow> Some (On i p', (fst hm)[i := m], snd hm)))"

definition meter_step :: "meter_event \<Rightarrow> metering \<Rightarrow> metering option" where
  "meter_step ev w =
     (case ev of
        Tick t \<Rightarrow> Some (w\<lparr>mt_now := max (mt_now w) t\<rparr>)
      | Prune_To keep \<Rightarrow> Some (w\<lparr>mt_map := prune keep (mt_map w)\<rparr>)
      | Step k \<Rightarrow>
          (if length (mt_agents w) \<le> k then Some w
           else (let (d, sm, pc) = mt_agents w ! k
                 in case goroutine_step (mt_now w) d sm pc (mt_heap w, mt_map w) of
                      None \<Rightarrow> None
                    | Some (pc', h, m) \<Rightarrow>
                        Some (w\<lparr>mt_heap := h, mt_map := m, mt_agents := (mt_agents w)[k := (d, sm, pc')]\<rparr>))))"

fun meter_run :: "meter_event list \<Rightarrow> metering \<Rightarrow> metering option" where
  "meter_run [] w = Some w"
| "meter_run (ev # evs) w = (case meter_step ev w of None \<Rightarrow> None | Some w' \<Rightarrow> meter_run evs w')"

definition begin_meter :: "(string \<times> sample) list \<Rightarrow> int \<Rightarrow> metering" where
  "begin_meter as now =
     \<lparr>mt_heap = [], mt_map = gm_empty, mt_agents = map (\<lambda>(d, sm). (d, sm, Looking)) as, mt_now = now\<rparr>"

subsection \<open>What belongs to one domain\<close>

definition task_of :: "string \<times> sample \<times> goroutine_pc \<Rightarrow> sample \<times> rec_pc" where
  "task_of a = (fst (snd a), case snd (snd a) of On i p \<Rightarrow> p | _ \<Rightarrow> Begun)"

definition tasks_of :: "string \<Rightarrow> metering \<Rightarrow> (sample \<times> rec_pc) list" where
  "tasks_of d w = map task_of (filter (\<lambda>a. fst a = d) (mt_agents w))"

text \<open>The goroutines of one domain with the site that the registry has for it.\<close>

definition domain_view :: "string \<Rightarrow> metering \<Rightarrow> recording" where
  "domain_view d w =
     \<lparr>rg_site = (case gm_get (mt_map w) d of None \<Rightarrow> new_site_metrics | Some i \<Rightarrow> mt_heap w ! i),
      rg_tasks = tasks_of d w, rg_now = mt_now w\<rparr>"

definition spares :: "string \<Rightarrow> meter_event \<Rightarrow> bool" where
  "spares d ev \<longleftrightarrow> (\<forall>keep. ev = Prune_To keep \<longrightarrow> keep d)"

text \<open>Every cell belongs to one domain; a domain that is kept has one cell for all its goroutines.\<close>

definition owned :: "(nat \<Rightarrow> string) \<Rightarrow> metering \<Rightarrow> bool" where
  "owned own w \<longleftrightarrow>
     (\<forall>d i. gm_get (mt_map w) d = Some i \<longrightarrow> i < length (mt_heap w) \<and> own i = d) \<and>
     (\<forall>d sm i p. (d, sm, On i p) \<in> set (mt_agents w) \<longrightarrow> i < length (mt_heap w) \<and> own i = d)"

definition one_cell :: "string \<Rightarrow> metering \<Rightarrow> bool" where
  "one_cell d w \<longleftrightarrow> (\<forall>sm i p. (d, sm, On i p) \<in> set (mt_agents w) \<longrightarrow> gm_get (mt_map w) d = Some i)"

definition meter_ok :: "metering \<Rightarrow> bool" where
  "meter_ok w \<longleftrightarrow>
     gm_ok (mt_map w) \<and> (\<exists>own. owned own w) \<and> 0 < mt_now w \<and>
     (\<forall>d sm i s. (d, sm, On i (Timed s)) \<in> set (mt_agents w) \<longrightarrow> 0 < s)"

lemma filter_update_other:
  "k < length xs \<Longrightarrow> \<not> P (xs ! k) \<Longrightarrow> \<not> P y \<Longrightarrow> filter P (xs[k := y]) = filter P xs"
  by (simp add: upd_conv_take_nth_drop) (metis append_Cons append_self_conv2 filter.simps(2) filter_append id_take_nth_drop)

lemma filter_update:
  assumes "k < length xs" "P (xs ! k)" "P y"
  obtains j where "j < length (filter P xs)" "filter P xs ! j = xs ! k" "filter P (xs[k := y]) = (filter P xs)[j := y]"
proof -
  let ?pre = "filter P (take k xs)" and ?post = "filter P (drop (Suc k) xs)"
  have f: "filter P xs = ?pre @ xs ! k # ?post"
    using assms(1,2) by (subst id_take_nth_drop [OF assms(1)]) simp
  have "filter P (xs[k := y]) = ?pre @ y # ?post" using assms by (simp add: upd_conv_take_nth_drop)
  then show ?thesis using f by (intro that [of "length ?pre"]) simp_all
qed

lemma tasks_of_same:
  assumes "k < length (mt_agents w)" "mt_agents w ! k = (d', sm, pc)" "d' = d \<longrightarrow> task_of (d', sm, pc') = task_of (d', sm, pc)"
  shows "map task_of (filter (\<lambda>a. fst a = d) ((mt_agents w)[k := (d', sm, pc')])) = tasks_of d w"
proof (cases "d' = d")
  case True
  obtain j where j: "j < length (filter (\<lambda>a. fst a = d) (mt_agents w))"
      "filter (\<lambda>a. fst a = d) (mt_agents w) ! j = (d', sm, pc)"
      "filter (\<lambda>a. fst a = d) ((mt_agents w)[k := (d', sm, pc')]) = (filter (\<lambda>a. fst a = d) (mt_agents w))[j := (d', sm, pc')]"
    using filter_update [OF assms(1), of "\<lambda>a. fst a = d" "(d', sm, pc')"] assms(2) True by auto
  then show ?thesis using assms(3) True by (simp add: tasks_of_def map_update list_update_same_conv)
next
  case False
  with assms show ?thesis by (simp add: tasks_of_def filter_update_other)
qed

lemma rec_idle: "\<exists>ev. rec_step ev v = Some v"
  by (intro exI [of _ "Advance (length (rg_tasks v))"]) (simp add: rec_step_def)

text \<open>The state after a goroutine's step, and what it has to keep.\<close>

abbreviation moved_on ::
  "nat \<Rightarrow> string \<times> sample \<times> goroutine_pc \<Rightarrow> site_metrics list \<times> (string, nat) gomap \<Rightarrow> metering \<Rightarrow> metering" where
  "moved_on k a hm w \<equiv> w\<lparr>mt_heap := fst hm, mt_map := snd hm, mt_agents := (mt_agents w)[k := a]\<rparr>"

lemma moved_on_agents: "a' \<in> set (mt_agents (moved_on k a hm w)) \<Longrightarrow> a' = a \<or> a' \<in> set (mt_agents w)"
  using set_update_subset_insert [of "mt_agents w" k a] by auto

definition follows :: "metering \<Rightarrow> metering \<Rightarrow> string \<Rightarrow> bool" where
  "follows w w' d \<longleftrightarrow> (one_cell d w \<longrightarrow> one_cell d w' \<and> (\<exists>ev. rec_step ev (domain_view d w) = Some (domain_view d w')))"

lemma follows_same: "domain_view d w' = domain_view d w \<Longrightarrow> (one_cell d w \<Longrightarrow> one_cell d w') \<Longrightarrow> follows w w' d"
  using rec_idle by (simp add: follows_def)

text \<open>A goroutine finds the site of its domain in the registry, or misses it.\<close>

lemma found_ok:
  assumes "meter_ok w" "k < length (mt_agents w)" "mt_agents w ! k = (d', sm, pc)" "task_of (d', sm, pc) = (sm, Begun)"
    and "pc' = Missed \<or> (\<exists>i. pc' = On i Begun \<and> gm_get (mt_map w) d' = Some i)"
    and "w' = moved_on k (d', sm, pc') (mt_heap w, mt_map w) w"
  shows "meter_ok w'" "follows w w' d"
proof -
  obtain own where own: "owned own w" using assms(1) by (auto simp: meter_ok_def)
  note ag = moved_on_agents [where k = k and a = "(d', sm, pc')" and hm = "(mt_heap w, mt_map w)" and w = w]
  have "owned own w'" using own assms(5) ag unfolding owned_def assms(6) by fastforce
  moreover have "\<forall>d sm i s. (d, sm, On i (Timed s)) \<in> set (mt_agents w') \<longrightarrow> 0 < s"
    using assms(1,5) ag unfolding meter_ok_def assms(6) by fastforce
  ultimately show "meter_ok w'" using assms(1) by (auto simp: meter_ok_def assms(6))
  have "task_of (d', sm, pc') = (sm, Begun)" using assms(5) by (auto simp: task_of_def)
  then have "task_of (d', sm, pc') = task_of (d', sm, pc)" using assms(4) by simp
  then have "map task_of (filter (\<lambda>a. fst a = d) ((mt_agents w)[k := (d', sm, pc')])) = tasks_of d w"
    by (intro tasks_of_same [OF assms(2,3)] impI)
  then have "tasks_of d w' = tasks_of d w" by (simp add: assms(6)) (simp add: tasks_of_def)
  then have "domain_view d w' = domain_view d w" by (simp add: domain_view_def assms(6) split: option.split)
  moreover have "one_cell d w \<Longrightarrow> one_cell d w'" using assms(5) ag unfolding one_cell_def assms(6) by fastforce
  ultimately show "follows w w' d" by (rule follows_same)
qed

text \<open>A goroutine creates the site of its domain.\<close>

lemma created_ok:
  assumes "meter_ok w" "k < length (mt_agents w)" "mt_agents w ! k = (d', sm, Missed)" "gm_get (mt_map w) d' = None"
    and "w' = moved_on k (d', sm, On (length (mt_heap w)) Begun)
      (mt_heap w @ [new_site_metrics], gm_put d' (length (mt_heap w)) (mt_map w)) w"
  shows "meter_ok w'" "follows w w' d"
proof -
  obtain own where own: "owned own w" using assms(1) by (auto simp: meter_ok_def)
  note ag = moved_on_agents [where k = k and a = "(d', sm, On (length (mt_heap w)) Begun)" and w = w
      and hm = "(mt_heap w @ [new_site_metrics], gm_put d' (length (mt_heap w)) (mt_map w))"]
  have "owned (own(length (mt_heap w) := d')) w'"
    using own ag unfolding owned_def assms(5) by (fastforce split: if_splits)
  moreover have "\<forall>d sm i s. (d, sm, On i (Timed s)) \<in> set (mt_agents w') \<longrightarrow> 0 < s"
    using assms(1) ag unfolding meter_ok_def assms(5) by fastforce
  ultimately show "meter_ok w'" using assms(1) by (auto simp: meter_ok_def assms(5))
  have "tasks_of d w' = tasks_of d w"
    using tasks_of_same [OF assms(2,3), of d "On (length (mt_heap w)) Begun"]
    by (simp add: assms(5) task_of_def) (simp add: tasks_of_def)
  moreover have "rg_site (domain_view d w') = rg_site (domain_view d w)"
    using assms(4) own by (auto simp: domain_view_def assms(5) owned_def nth_append split: option.split)
  ultimately have "domain_view d w' = domain_view d w" by (simp add: domain_view_def assms(5))
  moreover have "one_cell d w \<Longrightarrow> one_cell d w'"
    using assms(4) ag unfolding one_cell_def assms(5) by fastforce
  ultimately show "follows w w' d" by (rule follows_same)
qed

text \<open>A goroutine records into its site.\<close>

lemma recorded_ok:
  assumes "meter_ok w" "k < length (mt_agents w)" "mt_agents w ! k = (d', sm, On i p)"
    and "task_step (mt_now w) sm p (mt_heap w ! i) = Some (p', m)"
    and "w' = moved_on k (d', sm, On i p') ((mt_heap w)[i := m], mt_map w) w"
  shows "meter_ok w'" "follows w w' d"
proof -
  obtain own where own: "owned own w" using assms(1) by (auto simp: meter_ok_def)
  have mem: "(d', sm, On i p) \<in> set (mt_agents w)" using assms(2,3) by (metis nth_mem)
  then have i: "i < length (mt_heap w)" "own i = d'" using own unfolding owned_def by blast+
  note ag = moved_on_agents [where k = k and a = "(d', sm, On i p')" and hm = "((mt_heap w)[i := m], mt_map w)" and w = w]
  have "owned own w'" using own i ag unfolding owned_def assms(5) by fastforce
  moreover have "0 < s" if "p' = Timed s" for s
    using that assms(1,4) mem by (auto simp: task_step_def meter_ok_def split: rec_pc.splits option.splits)
  then have "\<forall>d sm i s. (d, sm, On i (Timed s)) \<in> set (mt_agents w') \<longrightarrow> 0 < s"
    using assms(1) ag unfolding meter_ok_def assms(5) by fastforce
  ultimately show "meter_ok w'" using assms(1) by (auto simp: meter_ok_def assms(5))
  have one: "one_cell d w \<Longrightarrow> one_cell d w'" using ag mem unfolding one_cell_def assms(5) by fastforce
  show "follows w w' d"
  proof (cases "d' = d")
    case False
    with assms(2,3) have "tasks_of d w' = tasks_of d w" by (simp add: tasks_of_def assms(5) filter_update_other)
    moreover have "rg_site (domain_view d w') = rg_site (domain_view d w)"
    proof (cases "gm_get (mt_map w) d")
      case (Some x)
      then have "own x = d" using own by (simp add: owned_def)
      with i(2) False have "x \<noteq> i" by auto
      with Some show ?thesis by (simp add: domain_view_def assms(5))
    qed (simp add: domain_view_def assms(5))
    ultimately have "domain_view d w' = domain_view d w" by (simp add: domain_view_def assms(5))
    then show ?thesis using one by (rule follows_same)
  next
    case True
    have "\<exists>ev. rec_step ev (domain_view d w) = Some (domain_view d w')" if "one_cell d w"
    proof -
      have cell: "gm_get (mt_map w) d = Some i" using that mem True by (auto simp: one_cell_def)
      obtain j where j: "j < length (filter (\<lambda>a. fst a = d) (mt_agents w))"
        "filter (\<lambda>a. fst a = d) (mt_agents w) ! j = (d', sm, On i p)"
        "filter (\<lambda>a. fst a = d) ((mt_agents w)[k := (d', sm, On i p')]) =
           (filter (\<lambda>a. fst a = d) (mt_agents w))[j := (d', sm, On i p')]"
        using filter_update [OF assms(2), of "\<lambda>a. fst a = d" "(d', sm, On i p')"] assms(3) True by auto
      have "rec_step (Advance j) (domain_view d w) = Some (domain_view d w')"
        using j cell i(1) assms(4)
        by (simp add: rec_step_def domain_view_def tasks_of_def assms(5) map_update task_of_def)
      then show ?thesis ..
    qed
    with one show ?thesis by (simp add: follows_def)
  qed
qed

lemma prune_ok:
  assumes "meter_ok w"
  shows "meter_ok (w\<lparr>mt_map := prune keep (mt_map w)\<rparr>)" "keep d \<Longrightarrow> follows w (w\<lparr>mt_map := prune keep (mt_map w)\<rparr>) d"
proof -
  have m: "gm_ok (mt_map w)" using assms by (simp add: meter_ok_def)
  note get = prune_get [OF m, of keep]
  show "meter_ok (w\<lparr>mt_map := prune keep (mt_map w)\<rparr>)"
  proof -
    obtain own where "owned own w" using assms by (auto simp: meter_ok_def)
    then have "owned own (w\<lparr>mt_map := prune keep (mt_map w)\<rparr>)" using get by (auto simp: owned_def split: if_splits)
    with assms get show ?thesis by (auto simp: meter_ok_def)
  qed
  show "keep d \<Longrightarrow> follows w (w\<lparr>mt_map := prune keep (mt_map w)\<rparr>) d"
    using get by (intro follows_same) (auto simp: domain_view_def tasks_of_def one_cell_def split: option.split)
qed

lemma tick_ok:
  assumes "meter_ok w"
  shows "meter_ok (w\<lparr>mt_now := max (mt_now w) t\<rparr>)" "follows w (w\<lparr>mt_now := max (mt_now w) t\<rparr>) d"
proof -
  show "meter_ok (w\<lparr>mt_now := max (mt_now w) t\<rparr>)" using assms by (auto simp: meter_ok_def owned_def)
  have "rec_step (Clock t) (domain_view d w) = Some (domain_view d (w\<lparr>mt_now := max (mt_now w) t\<rparr>))"
    by (simp add: rec_step_def domain_view_def tasks_of_def split: option.split)
  then show "follows w (w\<lparr>mt_now := max (mt_now w) t\<rparr>) d" by (auto simp: follows_def one_cell_def)
qed

lemma task_step_Some:
  assumes "\<And>s. p = Timed s \<Longrightarrow> 0 < s"
  obtains p' m' where "task_step now sm p m = Some (p', m')"
  using assms by (cases p) (auto simp: task_step_def record_locked_def bucket_index_nonneg)

lemma meter_step_ok:
  assumes "meter_ok w"
  obtains w' where "meter_step ev w = Some w'" "meter_ok w'" "\<And>d. spares d ev \<Longrightarrow> follows w w' d"
proof (cases ev)
  case (Step k)
  show ?thesis
  proof (cases "k < length (mt_agents w)")
    case True
    obtain d' sm pc where k: "mt_agents w ! k = (d', sm, pc)" by (cases "mt_agents w ! k")
    show ?thesis
    proof (cases pc)
      case Looking
      let ?pc = "case gm_get (mt_map w) d' of None \<Rightarrow> Missed | Some i \<Rightarrow> On i Begun"
      let ?w = "moved_on k (d', sm, ?pc) (mt_heap w, mt_map w) w"
      have "meter_step ev w = Some ?w" using Step True k Looking by (simp add: meter_step_def goroutine_step_def)
      then show ?thesis
        using found_ok [OF assms True k, of ?pc ?w] Looking by (intro that [of ?w]) (auto simp: task_of_def split: option.split)
    next
      case Missed
      show ?thesis
      proof (cases "gm_get (mt_map w) d'")
        case None
        let ?w = "moved_on k (d', sm, On (length (mt_heap w)) Begun)
          (mt_heap w @ [new_site_metrics], gm_put d' (length (mt_heap w)) (mt_map w)) w"
        have "meter_step ev w = Some ?w"
          using Step True k Missed None by (simp add: meter_step_def goroutine_step_def look_again_def)
        then show ?thesis
          using created_ok [OF assms True _ None] k Missed by (intro that [of ?w]) auto
      next
        case (Some i)
        let ?w = "moved_on k (d', sm, On i Begun) (mt_heap w, mt_map w) w"
        have "meter_step ev w = Some ?w"
          using Step True k Missed Some by (simp add: meter_step_def goroutine_step_def look_again_def)
        then show ?thesis
          using found_ok [OF assms True k, of "On i Begun" ?w] Missed Some by (intro that [of ?w]) (auto simp: task_of_def)
      qed
    next
      case (On i p)
      have "(d', sm, On i p) \<in> set (mt_agents w)" using True k On by (metis nth_mem)
      then have "p = Timed s \<Longrightarrow> 0 < s" for s using assms by (auto simp: meter_ok_def)
      then obtain p' m where st: "task_step (mt_now w) sm p (mt_heap w ! i) = Some (p', m)" by (rule task_step_Some)
      let ?w = "moved_on k (d', sm, On i p') ((mt_heap w)[i := m], mt_map w) w"
      have "meter_step ev w = Some ?w" using Step True k On st by (simp add: meter_step_def goroutine_step_def)
      then show ?thesis
        using recorded_ok [OF assms True _ st] k On by (intro that [of ?w]) auto
    qed
  next
    case False
    with assms Step show ?thesis by (intro that [of w]) (auto simp: meter_step_def intro: follows_same)
  qed
next
  case (Tick t)
  with tick_ok [OF assms, of t] show ?thesis by (intro that) (auto simp: meter_step_def)
next
  case (Prune_To keep)
  with prune_ok [OF assms, of keep] show ?thesis by (intro that) (auto simp: meter_step_def spares_def)
qed

subsection \<open>One recording on its own\<close>

text \<open>What the registry holds for a domain.\<close>

definition held :: "metering \<Rightarrow> string \<Rightarrow> site_metrics option" where
  "held w d = map_option (nth (mt_heap w)) (gm_get (mt_map w) d)"

lemma meter_run_append:
  "meter_run (evs @ evs') w = (case meter_run evs w of None \<Rightarrow> None | Some w' \<Rightarrow> meter_run evs' w')"
  by (induction evs arbitrary: w) (auto split: option.split)

lemma records_alone:
  assumes "k < length (mt_agents w)" "mt_agents w ! k = (d, sm, On i Begun)" "i < length (mt_heap w)"
    and "record_sample (mt_now w) sm (mt_heap w ! i) = Some m"
  shows "meter_run (replicate 5 (Step k)) w =
    Some (moved_on k (d, sm, On i (Recorded (mt_now w) (mt_now w))) ((mt_heap w)[i := m], mt_map w) w)"
proof -
  have "record_locked (mt_now w) sm (count_error sm (count_bytes sm (count_request (mt_heap w ! i)))) = Some m"
    using assms(4) by (simp add: record_sample_def record_totals_parts)
  with assms(1-3) show ?thesis
    by (simp add: numeral_eq_Suc meter_step_def goroutine_step_def task_step_def)
qed

text \<open>
  The parts make up the whole: a request whose steps run with nothing in between leaves the
  registry with what \<open>registry_record\<close> gives in one step.\<close>

lemma recording_in_parts:
  assumes "meter_ok w" "k < length (mt_agents w)" "mt_agents w ! k = (d, sm, Looking)"
  shows "\<exists>w' m. (meter_run (replicate 6 (Step k)) w = Some w' \<or> meter_run (replicate 7 (Step k)) w = Some w') \<and>
    record_sample (mt_now w) sm (case held w d of None \<Rightarrow> new_site_metrics | Some m0 \<Rightarrow> m0) = Some m \<and>
    held w' = (held w)(d := Some m)"
proof -
  obtain own where "owned own w" using assms(1) by (auto simp: meter_ok_def)
  then have own: "\<And>x j. gm_get (mt_map w) x = Some j \<Longrightarrow> j < length (mt_heap w) \<and> own j = x" by (simp add: owned_def)
  have now: "\<exists>m. record_sample (mt_now w) sm m0 = Some m" for m0
    using assms(1) by (simp add: record_sample_def record_locked_def bucket_index_nonneg meter_ok_def)
  have six: "replicate 6 (Step k) = [Step k] @ replicate 5 (Step k)"
    and seven: "replicate 7 (Step k) = [Step k, Step k] @ replicate 5 (Step k)" by (simp_all add: numeral_eq_Suc)
  show ?thesis
  proof (cases "gm_get (mt_map w) d")
    case (Some i)
    then have i: "i < length (mt_heap w)" "\<And>x j. gm_get (mt_map w) x = Some j \<Longrightarrow> j = i \<Longrightarrow> x = d"
      using own [OF Some] own by auto
    define w1 where "w1 = moved_on k (d, sm, On i Begun) (mt_heap w, mt_map w) w"
    have w1: "meter_run [Step k] w = Some w1"
      using assms(2,3) Some by (simp add: meter_step_def goroutine_step_def w1_def)
    have ag: "k < length (mt_agents w1)" "mt_agents w1 ! k = (d, sm, On i Begun)" "mt_heap w1 = mt_heap w"
      "mt_map w1 = mt_map w" "mt_now w1 = mt_now w" using assms(2) by (simp_all add: w1_def)
    obtain m where m: "record_sample (mt_now w) sm (mt_heap w ! i) = Some m" using now by blast
    obtain w2 where w2: "meter_run (replicate 5 (Step k)) w1 = Some w2" "mt_heap w2 = (mt_heap w)[i := m]" "mt_map w2 = mt_map w"
      using records_alone [of k w1 d sm i m] ag m i(1) by simp
    have "held w2 x = ((held w)(d := Some m)) x" for x
    proof (cases "x = d")
      case False
      with i(2) have "gm_get (mt_map w) x \<noteq> Some i" by auto
      with False w2(2,3) show ?thesis by (cases "gm_get (mt_map w) x") (simp_all add: held_def)
    qed (use i(1) Some w2(2,3) in \<open>simp add: held_def\<close>)
    moreover have "meter_run (replicate 6 (Step k)) w = Some w2" unfolding six meter_run_append w1 using w2(1) by simp
    moreover have "held w d = Some (mt_heap w ! i)" using Some by (simp add: held_def)
    ultimately show ?thesis using m by (intro exI [of _ w2] exI [of _ m]) (simp add: fun_eq_iff)
  next
    case None
    let ?i = "length (mt_heap w)"
    define w1 where "w1 = moved_on k (d, sm, On ?i Begun) (mt_heap w @ [new_site_metrics], gm_put d ?i (mt_map w)) w"
    have w1: "meter_run [Step k, Step k] w = Some w1"
      using assms(2,3) None by (simp add: meter_step_def goroutine_step_def look_again_def w1_def)
    have ag: "k < length (mt_agents w1)" "mt_agents w1 ! k = (d, sm, On ?i Begun)"
      "mt_heap w1 = mt_heap w @ [new_site_metrics]" "mt_map w1 = gm_put d ?i (mt_map w)" "mt_now w1 = mt_now w"
      using assms(2) by (simp_all add: w1_def)
    obtain m where m: "record_sample (mt_now w) sm new_site_metrics = Some m" using now by blast
    obtain w2 where w2: "meter_run (replicate 5 (Step k)) w1 = Some w2" "mt_heap w2 = mt_heap w @ [m]"
        "mt_map w2 = gm_put d ?i (mt_map w)"
      using records_alone [of k w1 d sm ?i m] ag m by simp
    have "held w2 x = ((held w)(d := Some m)) x" for x
      using own w2(2,3) by (cases "gm_get (mt_map w) x") (auto simp: held_def nth_append)
    moreover have "meter_run (replicate 7 (Step k)) w = Some w2" unfolding seven meter_run_append w1 using w2(1) by simp
    moreover have "held w d = None" using None by (simp add: held_def)
    ultimately show ?thesis using m by (intro exI [of _ w2] exI [of _ m]) (simp add: fun_eq_iff)
  qed
qed

subsection \<open>Whole runs\<close>

lemma meter_run_ok:
  "meter_ok w \<Longrightarrow> \<exists>w'. meter_run evs w = Some w' \<and> meter_ok w' \<and>
     (\<forall>d. list_all (spares d) evs \<and> one_cell d w \<longrightarrow>
        one_cell d w' \<and> (\<exists>evs'. rec_run evs' (domain_view d w) = Some (domain_view d w')))"
proof (induction evs arbitrary: w)
  case Nil
  then show ?case by (auto intro: exI [of _ "[]"])
next
  case (Cons ev evs)
  obtain w1 where w1: "meter_step ev w = Some w1" "meter_ok w1" "\<And>d. spares d ev \<Longrightarrow> follows w w1 d"
    using meter_step_ok [OF Cons.prems] by metis
  obtain w' where w': "meter_run evs w1 = Some w'" "meter_ok w'"
    "\<And>d. list_all (spares d) evs \<Longrightarrow> one_cell d w1 \<Longrightarrow>
       one_cell d w' \<and> (\<exists>evs'. rec_run evs' (domain_view d w1) = Some (domain_view d w'))"
    using Cons.IH [OF w1(2)] by blast
  have "one_cell d w' \<and> (\<exists>evs'. rec_run evs' (domain_view d w) = Some (domain_view d w'))"
    if d: "list_all (spares d) (ev # evs)" "one_cell d w" for d
  proof -
    obtain e where e: "one_cell d w1" "rec_step e (domain_view d w) = Some (domain_view d w1)"
      using w1(3) [of d] d by (auto simp: follows_def)
    then obtain evs' where "one_cell d w'" "rec_run evs' (domain_view d w1) = Some (domain_view d w')" using w'(3) d(1) by auto
    with e(2) show ?thesis by (auto intro!: exI [of _ "e # evs'"])
  qed
  with w1(1) w'(1,2) show ?case by (intro exI [of _ w']) auto
qed

definition samples_of :: "string \<Rightarrow> (string \<times> sample) list \<Rightarrow> sample list" where
  "samples_of d as = map snd (filter (\<lambda>a. fst a = d) as)"

lemma begin_meter_ok: "0 < start \<Longrightarrow> meter_ok (begin_meter as start)"
  by (auto simp: meter_ok_def begin_meter_def owned_def)

lemma begin_one_cell: "one_cell d (begin_meter as start)"
  by (auto simp: one_cell_def begin_meter_def)

lemma begin_domain_view: "domain_view d (begin_meter as start) = begin_all (samples_of d as) start"
proof -
  have "tasks_of d (begin_meter as start) = map (\<lambda>sm. (sm, Begun)) (samples_of d as)"
    by (induction as) (auto simp: tasks_of_def begin_meter_def samples_of_def task_of_def)
  then show ?thesis by (simp add: domain_view_def begin_all_def begin_meter_def)
qed

text \<open>A goroutine of a kept domain that is done leaves the domain's site in the registry.\<close>

lemma done_in_registry:
  assumes "one_cell d w" "list_all task_done (tasks_of d w)" "tasks_of d w \<noteq> []"
  obtains i where "gm_get (mt_map w) d = Some i" "rg_site (domain_view d w) = mt_heap w ! i"
proof -
  obtain a where a: "a \<in> set (mt_agents w)" "fst a = d" "task_done (task_of a)"
    using assms(2,3) by (force simp: tasks_of_def filter_empty_conv list_all_iff)
  obtain d' sm pc where "a = (d', sm, pc)" by (cases a)
  with a(2,3) obtain i p where "a = (d, sm, On i p)" by (cases pc) (auto simp: task_done_def task_of_def)
  with a(1) assms(1) have "gm_get (mt_map w) d = Some i" by (auto simp: one_cell_def)
  then show ?thesis by (intro that) (simp_all add: domain_view_def)
qed

text \<open>
  C14: the metrics of the whole registry are exact, however requests overlap. Let any number of
  requests below \<open>2 ^ 32\<close>, for any domains, find or create their sites and record into them
  at the same time, in any interleaving of their steps, of prunings and of the clock. Nothing
  panics. And for every domain that no pruning drops, once its requests are done, none of them
  having been held up for a minute between reading the clock and getting the mutex, the
  registry has one site with all of its samples and no others: a snapshot reports all of them
  in its lifetime counters, and as its last-minute sums and its per-second series exactly
  those of the last sixty seconds and of each of these seconds. No sample is lost because two
  requests found the site missing at once, or recorded at once, or because another domain was
  dropped.\<close>
theorem registry_recording_exact:
  assumes "0 < start" "length as < 2 ^ 32"
  shows "\<exists>w. meter_run evs (begin_meter as start) = Some w \<and>
    (\<forall>d. list_all (spares d) evs \<and> samples_of d as \<noteq> [] \<and> list_all task_done (tasks_of d w) \<and>
       list_all task_prompt (tasks_of d w) \<and> 59 \<le> mt_now w \<longrightarrow>
       (let now = mt_now w; h = entries (tasks_of d w); sms = samples_of d as in
        map snd h = sms \<and>
        (\<exists>i sn. gm_get (mt_map w) d = Some i \<and> site_snapshot now (mt_heap w ! i) = Some sn \<and>
          sn_requests sn = of_nat (length sms) \<and> sn_bytes sn = sum_list (map sample_bytes sms) \<and>
          sn_errors sn = of_nat (length (filter is_error sms)) \<and>
          sn_reqs_1m sn = of_nat (length (recent now h)) \<and>
          sn_bytes_1m sn = sum_list (map (\<lambda>e. sample_bytes (snd e)) (recent now h)) \<and>
          sn_errs_1m sn = of_nat (length (filter (\<lambda>e. is_error (snd e)) (recent now h))) \<and>
          sn_reqs_per_sec sn = map (\<lambda>k. of_nat (length (at_second (now - (59 - int k)) h))) [0..<60])))"
proof -
  obtain w where w: "meter_run evs (begin_meter as start) = Some w"
    "\<And>d. list_all (spares d) evs \<Longrightarrow>
       one_cell d w \<and> (\<exists>evs'. rec_run evs' (begin_all (samples_of d as) start) = Some (domain_view d w))"
    using meter_run_ok [OF begin_meter_ok [OF assms(1)], of evs as] begin_one_cell
    unfolding begin_domain_view [symmetric] by blast
  show ?thesis
  proof (intro exI [of _ w] conjI allI impI, fact w(1), elim conjE, goal_cases)
    case (1 d)
    then obtain evs' where run: "one_cell d w" "rec_run evs' (begin_all (samples_of d as) start) = Some (domain_view d w)"
      using w(2) by blast
    have tasks: "rg_tasks (domain_view d w) = tasks_of d w" "rg_now (domain_view d w) = mt_now w" by (simp_all add: domain_view_def)
    have "map fst (tasks_of d w) = samples_of d as"
      using rec_run_samples [OF run(2)] by (simp add: tasks begin_all_def o_def)
    with 1 have "tasks_of d w \<noteq> []" by auto
    then obtain i where i: "gm_get (mt_map w) d = Some i" "rg_site (domain_view d w) = mt_heap w ! i"
      using done_in_registry [OF run(1)] 1 by blast
    have "length (samples_of d as) < 2 ^ 32"
      unfolding samples_of_def length_map by (rule le_less_trans [OF length_filter_le assms(2)])
    from concurrent_recording_exact [OF assms(1) this, of evs'] run(2) 1 i show ?case
      by (simp add: tasks Let_def)
  qed
qed

text \<open>Two requests for one domain both find it missing; a pruning comes in between.\<close>

definition two_requests :: "(string \<times> sample) list" where
  "two_requests = map (Pair ''a'') racing_samples"

definition double_miss :: "meter_event list" where
  "double_miss =
     [Step 0, Step 1, Step 0, Prune_To (\<lambda>d. d = ''a''), Step 1] @ replicate 4 (Step 0) @ [Tick 101] @
     replicate 5 (Step 1) @ [Step 0]"

lemma double_miss_state:
  "map_option (\<lambda>w. (tasks_of ''a'' w, mt_now w, gm_get (mt_map w) ''a'', length (mt_heap w)))
     (meter_run double_miss (begin_meter two_requests 100)) =
   Some ([(\<lparr>sm_status = 200, sm_bytes = 7, sm_latency = 5\<rparr>, Recorded 100 101),
          (\<lparr>sm_status = 502, sm_bytes = 0, sm_latency = 5\<rparr>, Recorded 101 101)], 101, Some 0, 1)"
  by code_simp

theorem registry_recording_exact_witness:
  "\<exists>w sn. meter_run double_miss (begin_meter two_requests 100) = Some w \<and>
     site_snapshot 101 (mt_heap w ! 0) = Some sn \<and> sn_requests sn = 2 \<and> sn_reqs_1m sn = 2 \<and> sn_errs_1m sn = 1"
proof -
  obtain w where w: "meter_run double_miss (begin_meter two_requests 100) = Some w" "mt_now w = 101"
    "gm_get (mt_map w) ''a'' = Some 0"
    and ts: "tasks_of ''a'' w = [(\<lparr>sm_status = 200, sm_bytes = 7, sm_latency = 5\<rparr>, Recorded 100 101),
      (\<lparr>sm_status = 502, sm_bytes = 0, sm_latency = 5\<rparr>, Recorded 101 101)]"
    using double_miss_state by auto
  have d: "list_all (spares ''a'') double_miss" "samples_of ''a'' two_requests = racing_samples"
    by (simp_all add: double_miss_def spares_def samples_of_def two_requests_def racing_samples_def numeral_eq_Suc)
  have ended: "list_all task_done (tasks_of ''a'' w)" "list_all task_prompt (tasks_of ''a'' w)"
    by (simp_all add: ts task_done_def task_prompt_def)
  have h: "entries (tasks_of ''a'' w) = [(100, \<lparr>sm_status = 200, sm_bytes = 7, sm_latency = 5\<rparr>),
      (101, \<lparr>sm_status = 502, sm_bytes = 0, sm_latency = 5\<rparr>)]"
    by (simp add: ts task_entries_def)
  have "length two_requests < 2 ^ 32" by (simp add: two_requests_def racing_samples_def)
  from registry_recording_exact [OF _ this, of 100 double_miss] w d ended
  obtain sn where "site_snapshot 101 (mt_heap w ! 0) = Some sn" "sn_requests sn = of_nat (length racing_samples)"
      "sn_reqs_1m sn = of_nat (length (recent 101 (entries (tasks_of ''a'' w))))"
      "sn_errs_1m sn = of_nat (length (filter (\<lambda>e. is_error (snd e)) (recent 101 (entries (tasks_of ''a'' w)))))"
    by (auto simp: Let_def racing_samples_def)
  with w(1) show ?thesis
    by (auto simp: h recent_def is_error_def racing_samples_def)
qed

end
