(* ===== verification/Metrics_Reader.thy ===== *)
theory Metrics_Reader
  imports Metrics_Registry
begin

section \<open>A snapshot that is taken while requests are recorded\<close>

text \<open>
  \<open>Site.Snapshot\<close> of \<open>internal/metrics/metrics.go\<close>: the three lifetime counters are loaded one
  by one, without the mutex, and the rest is read under it; goroutines in \<open>Record\<close> can take
  their steps in between.
\<close>

datatype read_pc =
    Not_Read | Read_Requests "64 word" | Read_Bytes "64 word" "64 word" | Read_Totals "64 word" "64 word" "64 word"
  | Shot metrics_snapshot

definition read_step :: "int \<Rightarrow> site_metrics \<Rightarrow> read_pc \<Rightarrow> read_pc option" where
  "read_step now m pc =
     (case pc of
        Not_Read \<Rightarrow> Some (Read_Requests (m_requests m))
      | Read_Requests a \<Rightarrow> Some (Read_Bytes a (m_bytes m))
      | Read_Bytes a b \<Rightarrow> Some (Read_Totals a b (m_errors m))
      | Read_Totals a b c \<Rightarrow>
          (case site_snapshot now m of
             None \<Rightarrow> None
           | Some sn \<Rightarrow> Some (Shot (sn\<lparr>sn_requests := a, sn_bytes := b, sn_errors := c\<rparr>)))
      | Shot sn \<Rightarrow> Some pc)"

datatype look_event = Rec rec_event | Look

definition look_step :: "look_event \<Rightarrow> recording \<times> read_pc \<Rightarrow> (recording \<times> read_pc) option" where
  "look_step ev x =
     (case ev of
        Rec e \<Rightarrow> map_option (\<lambda>w. (w, snd x)) (rec_step e (fst x))
      | Look \<Rightarrow> map_option (Pair (fst x)) (read_step (rg_now (fst x)) (rg_site (fst x)) (snd x)))"

fun look_run :: "look_event list \<Rightarrow> recording \<times> read_pc \<Rightarrow> (recording \<times> read_pc) option" where
  "look_run [] x = Some x"
| "look_run (ev # evs) x = (case look_step ev x of None \<Rightarrow> None | Some x' \<Rightarrow> look_run evs x')"

text \<open>The loads run in a row are the snapshot of one step.\<close>

lemma snapshot_in_parts:
  "look_run (replicate 4 Look) (w, Not_Read) =
     map_option (\<lambda>sn. (w, Shot sn)) (site_snapshot (rg_now w) (rg_site w))"
  by (simp add: numeral_eq_Suc look_step_def read_step_def site_snapshot_def Let_def split: option.split)

subsection \<open>Goroutines only go on\<close>

definition rank :: "rec_pc \<Rightarrow> nat" where
  "rank pc = (case pc of Begun \<Rightarrow> 0 | Counted \<Rightarrow> 1 | Weighed \<Rightarrow> 2 | Judged \<Rightarrow> 3 | Timed s \<Rightarrow> 4 | Recorded s l \<Rightarrow> 5)"

definition later :: "sample \<times> rec_pc \<Rightarrow> sample \<times> rec_pc \<Rightarrow> bool" where
  "later t t' \<longleftrightarrow> fst t' = fst t \<and> rank (snd t) \<le> rank (snd t') \<and> (task_done t \<longrightarrow> t' = t)"

abbreviation all_later :: "(sample \<times> rec_pc) list \<Rightarrow> (sample \<times> rec_pc) list \<Rightarrow> bool" where
  "all_later \<equiv> list_all2 later"

lemma later_refl: "later t t"
  by (simp add: later_def)

lemma later_trans: "later a b \<Longrightarrow> later b c \<Longrightarrow> later a c"
  by (auto simp: later_def)

lemma all_later_refl: "all_later ts ts"
  by (simp add: list.rel_refl later_refl)

lemma all_later_trans: "all_later as bs \<Longrightarrow> all_later bs cs \<Longrightarrow> all_later as cs"
  by (rule list_all2_trans [of later later later]) (auto intro: later_trans)

lemma task_step_later: "task_step now sm pc m = Some (pc', m') \<Longrightarrow> later (sm, pc) (sm, pc')"
  by (auto simp: task_step_def later_def rank_def task_done_def split: rec_pc.splits)

lemma rec_step_later:
  assumes "rec_step ev w = Some w'"
  shows "all_later (rg_tasks w) (rg_tasks w')" "rg_now w \<le> rg_now w'"
proof -
  have "all_later (rg_tasks w) (rg_tasks w') \<and> rg_now w \<le> rg_now w'"
  proof (cases ev)
    case (Advance i)
    show ?thesis
    proof (cases "i < length (rg_tasks w)")
      case True
      obtain sm pc where i: "rg_tasks w ! i = (sm, pc)" by (cases "rg_tasks w ! i")
      then obtain pc' m where st: "task_step (rg_now w) sm pc (rg_site w) = Some (pc', m)"
        "w' = w\<lparr>rg_site := m, rg_tasks := (rg_tasks w)[i := (sm, pc')]\<rparr>"
        using assms Advance True by (auto simp: rec_step_def split: option.splits)
      have "all_later ((rg_tasks w)[i := (sm, pc)]) ((rg_tasks w)[i := (sm, pc')])"
        using all_later_refl task_step_later [OF st(1)] by (rule list_all2_update_cong)
      with st(2) i show ?thesis by (metis list_update_id order_refl recording.select_convs(2,3) recording.surjective
          recording.update_convs(1,2))
    qed (use assms Advance in \<open>simp add: rec_step_def all_later_refl\<close>)
  next
    case (Clock t)
    with assms show ?thesis by (auto simp: rec_step_def all_later_refl)
  qed
  then show "all_later (rg_tasks w) (rg_tasks w')" "rg_now w \<le> rg_now w'" by simp_all
qed

lemma count_later:
  assumes "all_later ts ts'" "\<And>t t'. later t t' \<Longrightarrow> P t \<Longrightarrow> Q t'"
  shows "length (filter P ts) \<le> length (filter Q ts')"
  using assms(1)
proof (induction rule: list_all2_induct)
  case (Cons t ts t' ts')
  then show ?case using assms(2) [of t t'] by auto
qed simp

lemma prompt_later: "all_later ts ts' \<Longrightarrow> list_all task_prompt ts' \<Longrightarrow> list_all task_prompt ts"
proof (induction rule: list_all2_induct)
  case (Cons t ts t' ts')
  then have "task_prompt t" by (cases "task_done t") (auto simp: later_def task_done_def task_prompt_def split: rec_pc.splits)
  with Cons show ?case by simp
qed simp

subsection \<open>What the goroutines have added, as numbers\<close>

lemma added_requests_count: "added_requests ts = of_nat (length (filter (\<lambda>t. snd t \<noteq> Begun) ts))"
  by (induction ts) (simp_all add: added_requests_def)

lemma added_errors_count:
  "added_errors ts = of_nat (length (filter (\<lambda>t. snd t \<notin> {Begun, Counted, Weighed} \<and> is_error (fst t)) ts))"
  by (induction ts) (auto simp: added_errors_def)

lemma unat_count:
  assumes "length ts < 2 ^ 32"
  shows "unat (of_nat (length (filter P ts)) :: 64 word) = length (filter P ts)"
proof -
  have "length ts < 2 ^ 64" using assms by simp
  then have "length (filter P ts) < 2 ^ 64" by (rule le_less_trans [OF length_filter_le])
  then show ?thesis by (simp add: unsigned_of_nat take_bit_nat_eq_self)
qed

definition done_since :: "int \<Rightarrow> sample \<times> rec_pc \<Rightarrow> bool" where
  "done_since now t = (case snd t of Recorded s l \<Rightarrow> now - 60 < s | _ \<Rightarrow> False)"

lemma entries_length: "length (entries ts) \<le> length ts"
  by (induction ts) (auto simp: task_entries_def split: rec_pc.splits)

lemma recent_entries: "length (recent now (entries ts)) = length (filter (done_since now) ts)"
  by (induction ts) (auto simp: recent_def task_entries_def done_since_def split: rec_pc.splits)

lemma snapshot_exists:
  assumes "59 \<le> now"
  shows "\<exists>sn. site_snapshot now m = Some sn"
proof -
  have "all_some (map (series_at now bs) [0..<bucket_count]) \<noteq> None" for bs
  proof -
    have "series_at now bs k = Some (the (series_at now bs k))" if "k \<in> set [0..<bucket_count]" for k
      using assms that by (simp add: series_at_def bucket_count_def bucket_index_nonneg Let_def)
    then have "all_some (map (series_at now bs) [0..<bucket_count]) = Some (map (\<lambda>k. the (series_at now bs k)) [0..<bucket_count])"
      by (rule all_some_map)
    then show ?thesis by simp
  qed
  then show ?thesis by (auto simp: site_snapshot_def Let_def split: option.split)
qed

lemma snapshot_with_totals:
  "site_snapshot now (with_totals h m) = map_option
     (\<lambda>sn. sn\<lparr>sn_requests := m_requests (with_totals h m), sn_bytes := m_bytes (with_totals h m),
        sn_errors := m_errors (with_totals h m)\<rparr>) (site_snapshot now m)"
  by (simp add: site_snapshot_def with_totals_def latency_window_def Let_def split: option.split)

lemma minute_figures:
  assumes "recording_ok w" "list_all task_prompt (rg_tasks w)" "59 \<le> rg_now w" "length (rg_tasks w) < 2 ^ 32"
    and "site_snapshot (rg_now w) (rg_site w) = Some sn"
  shows "unat (sn_reqs_1m sn) = length (recent (rg_now w) (entries (rg_tasks w)))"
    and "unat (sn_errs_1m sn) \<le> unat (sn_reqs_1m sn)"
proof -
  let ?g = "entries (rg_tasks w)" and ?now = "rg_now w"
  obtain h where h: "mset h = mset ?g" "history_ok h" "metrics_rep h (with_totals h (rg_site w))"
    using assms(1,2) by (auto simp: recording_ok_def in_some_order_def)
  have len: "length h < 2 ^ 32"
    unfolding mset_eq_length [OF h(1)] by (rule le_less_trans [OF entries_length assms(4)])
  have "\<forall>e \<in> set ?g. fst e \<le> ?now" using assms(1) entries_times by (auto simp: recording_ok_def)
  then have le: "\<forall>e \<in> set h. fst e \<le> ?now" using mset_eq_setD [OF h(1)] by simp
  obtain sn' where sn': "site_snapshot ?now (with_totals h (rg_site w)) = Some sn'"
    "sn_reqs_1m sn' = of_nat (length (recent ?now h))"
    "sn_errs_1m sn' = of_nat (length (filter (\<lambda>e. is_error (snd e)) (recent ?now h)))"
    using snapshot_of_history [OF h(3,2) len le assms(3)] by metis
  then have eq: "sn_reqs_1m sn = sn_reqs_1m sn'" "sn_errs_1m sn = sn_errs_1m sn'"
    using assms(5) by (auto simp: snapshot_with_totals)
  have r: "unat (sn_reqs_1m sn) = length (recent ?now h)"
    unfolding eq(1) sn'(2) recent_def by (rule unat_count [OF len])
  moreover have "unat (sn_errs_1m sn) = length (filter (\<lambda>e. is_error (snd e)) (recent ?now h))"
  proof -
    have "length (recent ?now h) < 2 ^ 32" unfolding recent_def by (rule le_less_trans [OF length_filter_le len])
    then show ?thesis unfolding eq(2) sn'(3) by (rule unat_count)
  qed
  ultimately show "unat (sn_errs_1m sn) \<le> unat (sn_reqs_1m sn)" by simp
  show "unat (sn_reqs_1m sn) = length (recent ?now ?g)" using r mset_counts(1) [OF h(1)] by (simp add: recent_def)
qed

subsection \<open>What a reader has read\<close>

text \<open>A value that was right at some moment between two states.\<close>

definition moment :: "recording \<Rightarrow> recording \<Rightarrow> ((sample \<times> rec_pc) list \<Rightarrow> 'a) \<Rightarrow> 'a \<Rightarrow> bool" where
  "moment w0 w f x \<longleftrightarrow> (\<exists>ts. all_later (rg_tasks w0) ts \<and> all_later ts (rg_tasks w) \<and> x = f ts)"

definition shot_at :: "recording \<Rightarrow> recording \<Rightarrow> metrics_snapshot \<Rightarrow> bool" where
  "shot_at w0 w sn \<longleftrightarrow>
     (\<exists>w1 sn1. recording_ok w1 \<and> all_later (rg_tasks w0) (rg_tasks w1) \<and> all_later (rg_tasks w1) (rg_tasks w) \<and>
        59 \<le> rg_now w1 \<and> rg_now w1 \<le> rg_now w \<and> site_snapshot (rg_now w1) (rg_site w1) = Some sn1 \<and>
        sn_reqs_1m sn = sn_reqs_1m sn1 \<and> sn_errs_1m sn = sn_errs_1m sn1)"

definition has_read :: "recording \<Rightarrow> recording \<Rightarrow> read_pc \<Rightarrow> bool" where
  "has_read w0 w pc \<longleftrightarrow>
     (case pc of
        Not_Read \<Rightarrow> True
      | Read_Requests a \<Rightarrow> moment w0 w added_requests a
      | Read_Bytes a b \<Rightarrow> moment w0 w added_requests a
      | Read_Totals a b c \<Rightarrow> moment w0 w added_requests a \<and> moment w0 w added_errors c
      | Shot sn \<Rightarrow>
          moment w0 w added_requests (sn_requests sn) \<and> moment w0 w added_errors (sn_errors sn) \<and> shot_at w0 w sn)"

definition reader_ok :: "recording \<Rightarrow> recording \<times> read_pc \<Rightarrow> bool" where
  "reader_ok w0 x \<longleftrightarrow>
     recording_ok (fst x) \<and> all_later (rg_tasks w0) (rg_tasks (fst x)) \<and> 59 \<le> rg_now (fst x) \<and>
     has_read w0 (fst x) (snd x)"

lemma moment_later: "moment w0 w f x \<Longrightarrow> all_later (rg_tasks w) (rg_tasks w') \<Longrightarrow> moment w0 w' f x"
  by (auto simp: moment_def intro: all_later_trans)

lemma shot_at_later:
  "shot_at w0 w sn \<Longrightarrow> all_later (rg_tasks w) (rg_tasks w') \<Longrightarrow> rg_now w \<le> rg_now w' \<Longrightarrow> shot_at w0 w' sn"
  unfolding shot_at_def by (meson all_later_trans order_trans)

lemma has_read_later:
  "has_read w0 w pc \<Longrightarrow> all_later (rg_tasks w) (rg_tasks w') \<Longrightarrow> rg_now w \<le> rg_now w' \<Longrightarrow> has_read w0 w' pc"
  using moment_later shot_at_later by (cases pc) (auto simp: has_read_def)

lemma moment_now: "all_later (rg_tasks w0) (rg_tasks w) \<Longrightarrow> moment w0 w f (f (rg_tasks w))"
  using all_later_refl by (auto simp: moment_def)

lemma look_step_ok:
  assumes "reader_ok w0 x"
  shows "\<exists>x'. look_step ev x = Some x' \<and> reader_ok w0 x'"
proof (cases ev)
  case (Rec e)
  obtain w' where w': "rec_step e (fst x) = Some w'" "recording_ok w'"
    using rec_step_ok assms by (metis reader_ok_def)
  note l = rec_step_later [OF w'(1)]
  have "reader_ok w0 (w', snd x)"
    using assms w'(2) l has_read_later [OF _ l] all_later_trans [OF _ l(1)] by (auto simp: reader_ok_def)
  with Rec w'(1) show ?thesis by (simp add: look_step_def)
next
  case Look
  let ?w = "fst x"
  have ok: "recording_ok ?w" "all_later (rg_tasks w0) (rg_tasks ?w)" "59 \<le> rg_now ?w" "has_read w0 ?w (snd x)"
    using assms by (simp_all add: reader_ok_def)
  have tot: "m_requests (rg_site ?w) = added_requests (rg_tasks ?w)" "m_errors (rg_site ?w) = added_errors (rg_tasks ?w)"
    using ok(1) by (simp_all add: recording_ok_def)
  obtain sn where sn: "site_snapshot (rg_now ?w) (rg_site ?w) = Some sn" using snapshot_exists [OF ok(3)] by blast
  have "shot_at w0 ?w (sn\<lparr>sn_requests := a, sn_bytes := b, sn_errors := c\<rparr>)" for a b c
    unfolding shot_at_def using ok sn all_later_refl by (intro exI [of _ ?w] exI [of _ sn]) simp
  moreover have "moment w0 ?w added_requests (added_requests (rg_tasks ?w))"
    "moment w0 ?w added_errors (added_errors (rg_tasks ?w))" by (rule moment_now [OF ok(2)])+
  ultimately have "\<exists>pc. read_step (rg_now ?w) (rg_site ?w) (snd x) = Some pc \<and> has_read w0 ?w pc"
    using ok(4) sn by (cases "snd x") (simp_all add: read_step_def has_read_def tot)
  with ok Look show ?thesis by (auto simp: look_step_def reader_ok_def)
qed

lemma look_run_ok: "reader_ok w0 x \<Longrightarrow> \<exists>x'. look_run evs x = Some x' \<and> reader_ok w0 x'"
proof (induction evs arbitrary: x)
  case (Cons ev evs)
  from look_step_ok [OF Cons.prems, of ev] Cons.IH show ?case by fastforce
qed simp

lemma moment_bounds:
  assumes "moment w0 w (\<lambda>ts. of_nat (length (filter P ts)) :: 64 word) x" "length (rg_tasks w0) < 2 ^ 32"
    and "\<And>t t'. later t t' \<Longrightarrow> L t \<Longrightarrow> P t'" "\<And>t t'. later t t' \<Longrightarrow> P t \<Longrightarrow> U t'"
  shows "length (filter L (rg_tasks w0)) \<le> unat x \<and> unat x \<le> length (filter U (rg_tasks w))"
proof -
  obtain ts where ts: "all_later (rg_tasks w0) ts" "all_later ts (rg_tasks w)" "x = of_nat (length (filter P ts))"
    using assms(1) by (auto simp: moment_def)
  have "length ts < 2 ^ 32" using assms(2) list_all2_lengthD [OF ts(1)] by simp
  then have "unat x = length (filter P ts)" unfolding ts(3) by (rule unat_count)
  with count_later [OF ts(1), of L P] count_later [OF ts(2), of P U] assms(3,4) show ?thesis by simp
qed

lemma later_facts:
  assumes "later t t'"
  shows "fst t' = fst t" "task_done t \<Longrightarrow> t' = t" "snd t \<noteq> Begun \<Longrightarrow> snd t' \<noteq> Begun"
    "snd t \<notin> {Begun, Counted, Weighed} \<Longrightarrow> snd t' \<noteq> Begun"
  using assms by (auto simp: later_def rank_def split: rec_pc.splits)

lemma done_started: "task_done t \<Longrightarrow> snd t \<notin> {Begun, Counted, Weighed}"
  by (auto simp: task_done_def)

lemma rec_run_now: "rec_run evs w = Some w' \<Longrightarrow> rg_now w \<le> rg_now w'"
proof (induction evs arbitrary: w)
  case (Cons ev evs)
  then obtain w1 where "rec_step ev w = Some w1" "rg_now w1 \<le> rg_now w'" by (auto split: option.splits)
  with rec_step_later(2) [of ev w w1] show ?case by simp
qed simp

lemma shot_bounds:
  assumes "shot_at w0 w sn" "length (rg_tasks w0) < 2 ^ 32" "list_all task_prompt (rg_tasks w)"
  shows "length (recent (rg_now w) (entries (rg_tasks w0))) \<le> unat (sn_reqs_1m sn) \<and>
    unat (sn_reqs_1m sn) \<le> length (filter task_done (rg_tasks w)) \<and> unat (sn_errs_1m sn) \<le> unat (sn_reqs_1m sn)"
proof -
  obtain w1 sn1 where s: "recording_ok w1" "all_later (rg_tasks w0) (rg_tasks w1)" "all_later (rg_tasks w1) (rg_tasks w)"
    "59 \<le> rg_now w1" "rg_now w1 \<le> rg_now w" "site_snapshot (rg_now w1) (rg_site w1) = Some sn1"
    and eq: "sn_reqs_1m sn = sn_reqs_1m sn1" "sn_errs_1m sn = sn_errs_1m sn1"
    using assms(1) by (auto simp: shot_at_def)
  have "length (rg_tasks w1) < 2 ^ 32" using assms(2) list_all2_lengthD [OF s(2)] by simp
  note f = minute_figures [OF s(1) prompt_later [OF s(3) assms(3)] s(4) this s(6)]
  have "length (filter (done_since (rg_now w)) (rg_tasks w0)) \<le> length (filter (done_since (rg_now w1)) (rg_tasks w1))"
    using s(2) by (rule count_later) (use s(5) in \<open>auto simp: later_def done_since_def task_done_def split: rec_pc.splits\<close>)
  moreover have "length (filter (done_since (rg_now w1)) (rg_tasks w1)) \<le> length (filter task_done (rg_tasks w))"
    using s(3) by (rule count_later) (auto simp: later_def done_since_def task_done_def split: rec_pc.splits)
  ultimately show ?thesis using f by (simp add: eq recent_entries)
qed

text \<open>
  C33: a snapshot that is taken while requests are recorded is right for the time it was taken.
  With below \<open>2 ^ 32\<close> requests recording in any interleaving with the snapshot's own loads,
  the snapshot never panics; its lifetime counters of requests and errors count at least the
  requests that were done when it began and at most those that had begun when it ended, so
  does its last-minute count, for those of the last minute, and its last-minute errors are
  never more than its last-minute requests, so that the error rate on the dashboard is at
  most one.\<close>
theorem snapshot_while_recording:
  assumes "59 \<le> start" "length sms < 2 ^ 32" "rec_run before (begin_all sms start) = Some w0"
  shows "\<exists>w pc. look_run evs (w0, Not_Read) = Some (w, pc) \<and>
    (\<forall>sn. pc = Shot sn \<longrightarrow>
       length (filter task_done (rg_tasks w0)) \<le> unat (sn_requests sn) \<and>
       unat (sn_requests sn) \<le> length (filter (\<lambda>t. snd t \<noteq> Begun) (rg_tasks w)) \<and>
       length (filter (\<lambda>t. task_done t \<and> is_error (fst t)) (rg_tasks w0)) \<le> unat (sn_errors sn) \<and>
       unat (sn_errors sn) \<le> length (filter (\<lambda>t. snd t \<noteq> Begun \<and> is_error (fst t)) (rg_tasks w)) \<and>
       (list_all task_prompt (rg_tasks w) \<longrightarrow>
          length (recent (rg_now w) (entries (rg_tasks w0))) \<le> unat (sn_reqs_1m sn) \<and>
          unat (sn_reqs_1m sn) \<le> length (filter task_done (rg_tasks w)) \<and>
          unat (sn_errs_1m sn) \<le> unat (sn_reqs_1m sn)))"
proof -
  have w0: "recording_ok w0" using rec_run_ok [OF begin_all_ok, of start before sms] assms(1,3) by auto
  have len: "length (rg_tasks w0) < 2 ^ 32"
    using arg_cong [OF rec_run_samples [OF assms(3)], of length] assms(2) by (simp add: begin_all_def)
  have now: "59 \<le> rg_now w0" using rec_run_now [OF assms(3)] assms(1) by (simp add: begin_all_def)
  have "reader_ok w0 (w0, Not_Read)" using w0 now all_later_refl by (simp add: reader_ok_def has_read_def)
  then obtain w pc where run: "look_run evs (w0, Not_Read) = Some (w, pc)" "reader_ok w0 (w, pc)"
    using look_run_ok by fastforce
  have "length (filter task_done (rg_tasks w0)) \<le> unat (sn_requests sn) \<and>
      unat (sn_requests sn) \<le> length (filter (\<lambda>t. snd t \<noteq> Begun) (rg_tasks w)) \<and>
      length (filter (\<lambda>t. task_done t \<and> is_error (fst t)) (rg_tasks w0)) \<le> unat (sn_errors sn) \<and>
      unat (sn_errors sn) \<le> length (filter (\<lambda>t. snd t \<noteq> Begun \<and> is_error (fst t)) (rg_tasks w)) \<and>
      (list_all task_prompt (rg_tasks w) \<longrightarrow>
         length (recent (rg_now w) (entries (rg_tasks w0))) \<le> unat (sn_reqs_1m sn) \<and>
         unat (sn_reqs_1m sn) \<le> length (filter task_done (rg_tasks w)) \<and> unat (sn_errs_1m sn) \<le> unat (sn_reqs_1m sn))"
    if "pc = Shot sn" for sn
  proof -
    have m: "moment w0 w added_requests (sn_requests sn)" "moment w0 w added_errors (sn_errors sn)" "shot_at w0 w sn"
      using run(2) that by (simp_all add: reader_ok_def has_read_def)
    have req: "length (filter task_done (rg_tasks w0)) \<le> unat (sn_requests sn) \<and>
        unat (sn_requests sn) \<le> length (filter (\<lambda>t. snd t \<noteq> Begun) (rg_tasks w))"
      using m(1) unfolding added_requests_count
      by (rule moment_bounds [OF _ len]) (use later_facts(2,3) done_started in blast)+
    have err: "length (filter (\<lambda>t. task_done t \<and> is_error (fst t)) (rg_tasks w0)) \<le> unat (sn_errors sn) \<and>
        unat (sn_errors sn) \<le> length (filter (\<lambda>t. snd t \<noteq> Begun \<and> is_error (fst t)) (rg_tasks w))"
      using m(2) unfolding added_errors_count
      by (rule moment_bounds [OF _ len]) (use later_facts(1,2,4) done_started in metis)+
    have "length (recent (rg_now w) (entries (rg_tasks w0))) \<le> unat (sn_reqs_1m sn) \<and>
         unat (sn_reqs_1m sn) \<le> length (filter task_done (rg_tasks w)) \<and> unat (sn_errs_1m sn) \<le> unat (sn_reqs_1m sn)"
      if p: "list_all task_prompt (rg_tasks w)"
      using shot_bounds [OF m(3) len p] .
    with req err show ?thesis by blast
  qed
  with run(1) show ?thesis by blast
qed

definition failing_sample :: "sample list" where
  "failing_sample = [\<lparr>sm_status = 502, sm_bytes = 0, sm_latency = 5\<rparr>]"

definition torn_reading :: "look_event list" where
  "torn_reading = [Look] @ replicate 5 (Rec (Advance 0)) @ [Look, Look, Look]"

lemma torn_figures:
  "map_option (\<lambda>x. (list_all task_prompt (rg_tasks (fst x)), case snd x of Shot sn \<Rightarrow>
       Some (sn_requests sn, sn_errors sn, sn_reqs_1m sn, sn_errs_1m sn) | _ \<Rightarrow> None))
     (look_run torn_reading (begin_all failing_sample 100, Not_Read)) = Some (True, Some (0, 1, 1, 1))"
  by code_simp

text \<open>
  The lifetime counters of one snapshot need not fit together: with a request recorded between
  the loads it counts more errors than requests.\<close>

lemma torn_snapshot:
  "\<exists>w sn. look_run torn_reading (begin_all failing_sample 100, Not_Read) = Some (w, Shot sn) \<and>
     sn_requests sn < sn_errors sn \<and> list_all task_prompt (rg_tasks w)"
proof -
  obtain w pc where "look_run torn_reading (begin_all failing_sample 100, Not_Read) = Some (w, pc)"
    using torn_figures by auto
  with torn_figures show ?thesis by (cases pc) auto
qed

theorem snapshot_while_recording_witness:
  "\<exists>w sn. look_run torn_reading (begin_all failing_sample 100, Not_Read) = Some (w, Shot sn) \<and>
     unat (sn_requests sn) \<le> 1 \<and> unat (sn_errs_1m sn) \<le> unat (sn_reqs_1m sn)"
proof -
  obtain w sn where run: "look_run torn_reading (begin_all failing_sample 100, Not_Read) = Some (w, Shot sn)"
    "list_all task_prompt (rg_tasks w)"
    using torn_snapshot by blast
  have before: "rec_run [] (begin_all failing_sample 100) = Some (begin_all failing_sample 100)" by simp
  have len: "length failing_sample < 2 ^ 32" by (simp add: failing_sample_def)
  from snapshot_while_recording [OF _ len before, of torn_reading] run
  have b: "unat (sn_requests sn) \<le> length (filter (\<lambda>t. snd t \<noteq> Begun) (rg_tasks w))"
    "unat (sn_errs_1m sn) \<le> unat (sn_reqs_1m sn)" by auto
  have "reader_ok (begin_all failing_sample 100) (begin_all failing_sample 100, Not_Read)"
    using begin_all_ok [of 100 failing_sample] all_later_refl
    by (simp add: reader_ok_def has_read_def) (simp add: begin_all_def)
  from look_run_ok [OF this, of torn_reading] run(1)
  have "all_later (rg_tasks (begin_all failing_sample 100)) (rg_tasks w)" by (auto simp: reader_ok_def)
  from list_all2_lengthD [OF this] have "length (rg_tasks w) = 1" by (simp add: begin_all_def failing_sample_def)
  with length_filter_le [of "\<lambda>t. snd t \<noteq> Begun" "rg_tasks w"]
  have "length (filter (\<lambda>t. snd t \<noteq> Begun) (rg_tasks w)) \<le> 1" by metis
  with b run(1) show ?thesis by (intro exI [of _ w] exI [of _ sn]) simp
qed

end
