(* ===== verification/Go_Strings.thy ===== *)
theory Go_Strings
  imports Prelude
begin

section \<open>The operations of Go's strings package that the program uses\<close>

text \<open>
  A Go string is a byte string, here a list of 8-bit characters. The definitions follow
  the package's documented results on bytes; \<open>ToLower\<close> and \<open>TrimSpace\<close> are
  modelled on their ASCII behaviour (non-ASCII bytes are left as they are), which is the
  alphabet of host names, file names and cookie payloads.
\<close>

definition between :: "char \<Rightarrow> char \<Rightarrow> char \<Rightarrow> bool" where
  "between lo hi c \<longleftrightarrow> lo \<le> c \<and> c \<le> hi"

declare between_def [simp]

definition lower_byte :: "char \<Rightarrow> char" where
  "lower_byte c =
     (if between CHR ''A'' CHR ''Z'' c then char_of (of_char c + 32 :: nat) else c)"

definition upper_byte :: "char \<Rightarrow> char" where
  "upper_byte c =
     (if between CHR ''a'' CHR ''z'' c then char_of (of_char c - 32 :: nat) else c)"

definition to_lower :: "string \<Rightarrow> string" where
  "to_lower s = map lower_byte s"

definition is_space :: "char \<Rightarrow> bool" where
  "is_space c \<longleftrightarrow> c \<in> {CHR '' '', CHR 0x09, CHR 0x0A, CHR 0x0B, CHR 0x0C, CHR 0x0D}"

definition trim_space :: "string \<Rightarrow> string" where
  "trim_space s = rev (dropWhile is_space (rev (dropWhile is_space s)))"

definition has_prefix :: "string \<Rightarrow> string \<Rightarrow> bool" where
  "has_prefix p s \<longleftrightarrow> take (length p) s = p"

definition has_suffix :: "string \<Rightarrow> string \<Rightarrow> bool" where
  "has_suffix p s \<longleftrightarrow> length p \<le> length s \<and> drop (length s - length p) s = p"

fun index_of :: "string \<Rightarrow> string \<Rightarrow> nat option" where
  "index_of p [] = (if p = [] then Some 0 else None)"
| "index_of p (c # s) =
     (if has_prefix p (c # s) then Some 0 else map_option Suc (index_of p s))"

definition contains :: "string \<Rightarrow> string \<Rightarrow> bool" where
  "contains p s \<longleftrightarrow> index_of p s \<noteq> None"

fun index_byte :: "char \<Rightarrow> string \<Rightarrow> nat option" where
  "index_byte c [] = None"
| "index_byte c (x # s) = (if x = c then Some 0 else map_option Suc (index_byte c s))"

fun last_index_byte :: "char \<Rightarrow> string \<Rightarrow> nat option" where
  "last_index_byte c [] = None"
| "last_index_byte c (x # s) =
     (case last_index_byte c s of
        Some i \<Rightarrow> Some (Suc i)
      | None \<Rightarrow> if x = c then Some 0 else None)"

definition contains_any :: "string \<Rightarrow> string \<Rightarrow> bool" where
  "contains_any chars s \<longleftrightarrow> list_ex (\<lambda>c. c \<in> set chars) s"

text \<open>\<open>SplitN\<close> with a one-byte separator, \<open>Split\<close>, and \<open>Fields\<close>.\<close>

fun split_n :: "nat \<Rightarrow> char \<Rightarrow> string \<Rightarrow> string list" where
  "split_n 0 c s = []"
| "split_n (Suc 0) c s = [s]"
| "split_n (Suc (Suc n)) c s =
     (case index_byte c s of
        None \<Rightarrow> [s]
      | Some i \<Rightarrow> take i s # split_n (Suc n) c (drop (Suc i) s))"

fun split_all :: "char \<Rightarrow> string \<Rightarrow> string list" where
  "split_all c [] = [[]]"
| "split_all c (x # s) =
     (if x = c then [] # split_all c s
      else (case split_all c s of [] \<Rightarrow> [[x]] | w # ws \<Rightarrow> (x # w) # ws))"

fun fields_acc :: "string \<Rightarrow> string \<Rightarrow> string list" where
  "fields_acc w [] = (if w = [] then [] else [w])"
| "fields_acc w (x # s) =
     (if is_space x then (if w = [] then fields_acc [] s else w # fields_acc [] s)
      else fields_acc (w @ [x]) s)"

definition fields :: "string \<Rightarrow> string list" where
  "fields s = fields_acc [] s"

function replace_all :: "string \<Rightarrow> string \<Rightarrow> string \<Rightarrow> string" where
  "replace_all old new s =
     (if s = [] then []
      else if old \<noteq> [] \<and> has_prefix old s then new @ replace_all old new (drop (length old) s)
      else hd s # replace_all old new (tl s))"
  by pat_completeness auto
termination
  by (relation "measure (\<lambda>(old, new, s). length s)") (auto simp: length_greater_0_conv)

declare replace_all.simps [simp del]

subsection \<open>Case folding\<close>

lemma of_char_lower_byte:
  "of_char (lower_byte c) =
     (if between CHR ''A'' CHR ''Z'' c then of_char c + 32 else of_char c :: nat)"
  by (simp add: lower_byte_def less_eq_char_def)

lemma lower_byte_idem [simp]: "lower_byte (lower_byte c) = lower_byte c"
  using of_char_lower_byte [of c]
  by (auto simp: lower_byte_def [of "lower_byte c"] less_eq_char_def split: if_splits)

lemma to_lower_idem [simp]: "to_lower (to_lower s) = to_lower s"
  by (simp add: to_lower_def)

lemma to_lower_append: "to_lower (a @ b) = to_lower a @ to_lower b"
  by (simp add: to_lower_def)

lemma to_lower_Nil_iff [simp]: "to_lower s = [] \<longleftrightarrow> s = []" "[] = to_lower s \<longleftrightarrow> s = []"
  by (auto simp: to_lower_def)

lemma lower_byte_eq_iff:
  "\<not> (between CHR ''a'' CHR ''z'' d) \<Longrightarrow> lower_byte c = d \<longleftrightarrow> c = d \<and> \<not> (between CHR ''A'' CHR ''Z'' c)"
  using of_char_lower_byte [of c]
  by (auto simp: less_eq_char_def lower_byte_def split: if_splits)

lemma in_to_lower_iff:
  assumes "\<not> (between CHR ''a'' CHR ''z'' d)" "\<not> (between CHR ''A'' CHR ''Z'' d)"
  shows "d \<in> set (to_lower s) \<longleftrightarrow> d \<in> set s"
proof -
  have "lower_byte c = d \<longleftrightarrow> c = d" for c
    using lower_byte_eq_iff [OF assms(1)] assms(2) by auto
  then have "d \<in> lower_byte ` set s \<longleftrightarrow> d \<in> set s" by (metis imageE imageI)
  then show ?thesis by (simp add: to_lower_def)
qed

subsection \<open>Searching and cutting\<close>

lemma index_byte_None_iff: "index_byte c s = None \<longleftrightarrow> c \<notin> set s"
  by (induction s) auto

lemma index_byte_notin: "c \<notin> set s \<Longrightarrow> index_byte c s = None"
  by (simp add: index_byte_None_iff)

lemma index_byte_SomeD:
  "index_byte c s = Some i \<Longrightarrow> i < length s \<and> s ! i = c \<and> c \<notin> set (take i s)"
  by (induction s arbitrary: i) (auto split: if_splits)

lemma index_byte_append: "c \<notin> set a \<Longrightarrow> index_byte c (a @ c # b) = Some (length a)"
  by (induction a) auto

lemma last_index_byte_None_iff: "last_index_byte c s = None \<longleftrightarrow> c \<notin> set s"
  by (induction s) (auto split: option.splits)

lemma last_index_byte_notin: "c \<notin> set s \<Longrightarrow> last_index_byte c s = None"
  by (simp add: last_index_byte_None_iff)

lemma last_index_byte_SomeD:
  "last_index_byte c s = Some i \<Longrightarrow>
     i < length s \<and> s ! i = c \<and> s = take i s @ c # drop (Suc i) s \<and> c \<notin> set (drop (Suc i) s)"
  by (induction s arbitrary: i)
    (auto simp: last_index_byte_None_iff split: option.splits if_splits)

lemma last_index_byte_append:
  "c \<notin> set b \<Longrightarrow> last_index_byte c (a @ c # b) = Some (length a)"
proof (induction a)
  case Nil
  then show ?case by (simp add: last_index_byte_None_iff [THEN iffD2])
qed simp

lemma has_prefix_append [simp]: "has_prefix p (p @ s)"
  by (simp add: has_prefix_def)

lemma has_suffix_append [simp]: "has_suffix p (s @ p)"
  by (simp add: has_suffix_def)

lemma has_prefix_iff: "has_prefix p s \<longleftrightarrow> (\<exists>t. s = p @ t)"
  by (metis append_take_drop_id has_prefix_append has_prefix_def)

lemma has_suffix_iff: "has_suffix p s \<longleftrightarrow> (\<exists>t. s = t @ p)"
  by (metis append_take_drop_id has_suffix_append has_suffix_def)

lemma contains_iff: "contains p s \<longleftrightarrow> (\<exists>a b. s = a @ p @ b)"
proof (induction s)
  case Nil
  then show ?case by (simp add: contains_def)
next
  case (Cons c s)
  show ?case
  proof (cases "has_prefix p (c # s)")
    case True
    then show ?thesis
      by (auto simp: contains_def has_prefix_iff intro: exI [of _ "[]"])
  next
    case False
    then have "contains p (c # s) \<longleftrightarrow> contains p s"
      by (simp add: contains_def)
    moreover have "(\<exists>a b. c # s = a @ p @ b) \<longleftrightarrow> (\<exists>a b. s = a @ p @ b)"
      using False by (auto simp: has_prefix_iff Cons_eq_append_conv)
    ultimately show ?thesis using Cons.IH by simp
  qed
qed

lemma contains_set_subset: "contains p s \<Longrightarrow> set p \<subseteq> set s"
  by (auto simp: contains_iff)

lemma split_n_3:
  assumes "c \<notin> set a" "c \<notin> set b"
  shows "split_n 3 c (a @ c # b @ c # d) = [a, b, d]"
  using assms by (simp add: numeral_3_eq_3 index_byte_append)

lemma split_n_3_cases:
  assumes "split_n 3 c s = [a, b, d]"
  shows "s = a @ c # b @ c # d \<and> c \<notin> set a \<and> c \<notin> set b"
proof -
  from assms obtain i where i: "index_byte c s = Some i"
    by (auto simp: numeral_3_eq_3 split: option.splits)
  with assms obtain j where j: "index_byte c (drop (Suc i) s) = Some j"
    by (auto simp: numeral_3_eq_3 split: option.splits)
  let ?r = "drop (Suc i) s"
  from assms i j have abd: "a = take i s" "b = take j ?r" "d = drop (Suc j) ?r"
    by (auto simp: numeral_3_eq_3)
  have "s = take i s @ c # ?r"
    using index_byte_SomeD [OF i] by (metis id_take_nth_drop)
  moreover have "?r = take j ?r @ c # drop (Suc j) ?r"
    using index_byte_SomeD [OF j] by (metis id_take_nth_drop)
  ultimately show ?thesis
    using index_byte_SomeD [OF i] index_byte_SomeD [OF j] abd by metis
qed

subsection \<open>Trimming and splitting\<close>

lemma trim_space_Nil_iff: "trim_space s = [] \<longleftrightarrow> list_all is_space s"
  by (auto simp: trim_space_def list_all_iff dropWhile_eq_Nil_conv dest: set_dropWhileD)
    (metis (full_types) dropWhile_eq_Nil_conv dropWhile_idem hd_in_set hd_dropWhile set_dropWhileD)

lemma fields_acc_words:
  "list_all (\<lambda>c. \<not> is_space c) w \<Longrightarrow> f \<in> set (fields_acc w s) \<Longrightarrow>
     f \<noteq> [] \<and> list_all (\<lambda>c. \<not> is_space c) f"
  by (induction w s rule: fields_acc.induct) (auto split: if_splits)

lemma fields_words: "f \<in> set (fields s) \<Longrightarrow> f \<noteq> [] \<and> list_all (\<lambda>c. \<not> is_space c) f"
  using fields_acc_words [of "[]"] by (simp add: fields_def)

lemma set_split_all: "w \<in> set (split_all c s) \<Longrightarrow> c \<notin> set w"
  by (induction s arbitrary: w) (auto split: if_splits list.splits)

subsection \<open>Replacing\<close>

lemma replace_all_Nil [simp]: "replace_all old new [] = []"
  by (simp add: replace_all.simps [of old new "[]"])

lemma replace_all_Cons:
  "replace_all old new (c # s) =
     (if old \<noteq> [] \<and> has_prefix old (c # s) then new @ replace_all old new (drop (length old) (c # s))
      else c # replace_all old new s)"
  by (simp add: replace_all.simps [of old new "c # s"])

lemma replace_all_byte:
  "replace_all [b] new s = concat (map (\<lambda>c. if c = b then new else [c]) s)"
  by (induction s) (auto simp: replace_all_Cons has_prefix_def)

lemma set_replace_all: "set (replace_all old new s) \<subseteq> set s \<union> set new"
proof (induction old new s rule: replace_all.induct)
  case (1 old new s)
  show ?case
  proof (cases s)
    case Nil
    then show ?thesis by simp
  next
    case (Cons c t)
    have "set (drop (length old) (c # t)) \<subseteq> set (c # t)" by (rule set_drop_subset)
    with 1 Cons show ?thesis by (auto simp: replace_all_Cons)
  qed
qed

lemma contains_Cons: "contains p (c # s) \<longleftrightarrow> has_prefix p (c # s) \<or> contains p s"
  by (simp add: contains_def)

lemma has_prefix_two: "has_prefix [a, b] (c # s) \<longleftrightarrow> c = a \<and> (\<exists>t. s = b # t)"
  by (cases s) (auto simp: has_prefix_def)

text \<open>Replacing a doubled byte by something else leaves no doubled byte.\<close>

lemma replace_all_double:
  assumes "b \<noteq> a"
  shows "\<not> contains [a, a] (replace_all [a, a] [b] s)"
proof (induction "[a, a]" "[b]" s rule: replace_all.induct)
  case (1 s)
  show ?case
  proof (cases s)
    case Nil
    then show ?thesis by (simp add: contains_def)
  next
    case (Cons c t)
    show ?thesis
    proof (cases "has_prefix [a, a] (c # t)")
      case True
      with 1 Cons have "\<not> contains [a, a] (replace_all [a, a] [b] (drop 2 (c # t)))" by simp
      with True assms show ?thesis
        by (simp add: Cons replace_all_Cons contains_Cons has_prefix_two)
    next
      case False
      with 1 Cons have "\<not> contains [a, a] (replace_all [a, a] [b] t)" by simp
      moreover have "\<not> has_prefix [a, a] (c # replace_all [a, a] [b] t)"
        using False assms by (cases t) (auto simp: replace_all_Cons has_prefix_two)
      ultimately show ?thesis using False by (simp add: Cons replace_all_Cons contains_Cons)
    qed
  qed
qed

end
