(* ===== verification/Go_Codecs.thy ===== *)
theory Go_Codecs
  imports Go_Strings
begin

section \<open>Text codecs of Go's standard library: decimal integers and raw base64url\<close>

text \<open>
  \<open>strconv.ParseInt\<close> in base 10 at 64 bits (also \<open>strconv.Atoi\<close>), the
  \<open>%d\<close> of an \<open>int64\<close>, and \<open>base64.RawURLEncoding\<close>. Both directions
  are executable; the locale \<open>codec\<close> states the contract the clients use, decoding
  what was encoded, and is interpreted for each of them.
\<close>

locale codec =
  fixes encode :: "'a \<Rightarrow> string"
    and decode :: "string \<Rightarrow> 'a option"
    and encodable :: "'a \<Rightarrow> bool"
  assumes decode_encode: "encodable x \<Longrightarrow> decode (encode x) = Some x"
begin

lemma encode_inj: "encodable x \<Longrightarrow> encodable y \<Longrightarrow> encode x = encode y \<Longrightarrow> x = y"
  by (metis decode_encode option.inject)

lemma decode_encode_eq: "encodable x \<Longrightarrow> decode (encode x) = Some y \<longleftrightarrow> y = x"
  by (auto simp: decode_encode)

end

subsection \<open>Decimal integers\<close>

definition digit_char :: "nat \<Rightarrow> char" where
  "digit_char d = char_of (48 + d)"

definition is_digit :: "char \<Rightarrow> bool" where
  "is_digit c \<longleftrightarrow> between CHR ''0'' CHR ''9'' c"

definition digit_val :: "char \<Rightarrow> nat" where
  "digit_val c = of_char c - 48"

fun show_nat :: "nat \<Rightarrow> string" where
  "show_nat n = (if n < 10 then [digit_char n] else show_nat (n div 10) @ [digit_char (n mod 10)])"

declare show_nat.simps [simp del]

definition show_int :: "int \<Rightarrow> string" where
  "show_int x = (if x < 0 then CHR ''-'' # show_nat (nat (- x)) else show_nat (nat x))"

definition digits_val :: "string \<Rightarrow> nat" where
  "digits_val s = foldl (\<lambda>n c. 10 * n + digit_val c) 0 s"

definition parse_uint :: "string \<Rightarrow> nat option" where
  "parse_uint s = (if s \<noteq> [] \<and> list_all is_digit s then Some (digits_val s) else None)"

text \<open>An optional sign, then digits; values outside the 64-bit range are an error.\<close>

definition parse_int :: "string \<Rightarrow> int option" where
  "parse_int s =
     (case s of
        [] \<Rightarrow> None
      | c # r \<Rightarrow>
          (case parse_uint (if c = CHR ''+'' \<or> c = CHR ''-'' then r else s) of
             None \<Rightarrow> None
           | Some n \<Rightarrow>
               (let x = (if c = CHR ''-'' then - int n else int n)
                in if int64_range x then Some x else None)))"

lemma digit_char_is_digit: "d < 10 \<Longrightarrow> is_digit (digit_char d)"
  by (simp add: is_digit_def digit_char_def less_eq_char_def)

lemma digit_val_digit_char: "d < 10 \<Longrightarrow> digit_val (digit_char d) = d"
  by (simp add: digit_val_def digit_char_def)

lemma is_digit_neq:
  "\<not> is_digit CHR ''-''" "\<not> is_digit CHR ''+''" "\<not> is_digit CHR ''.''"
  by (simp_all add: is_digit_def less_eq_char_def)

lemma show_nat_not_Nil [simp]: "show_nat n \<noteq> []"
  by (subst show_nat.simps) simp

lemma show_nat_digits: "list_all is_digit (show_nat n)"
proof (induction n rule: show_nat.induct)
  case (1 n)
  then show ?case
    by (subst show_nat.simps) (auto simp: digit_char_is_digit)
qed

lemma digits_val_snoc: "digits_val (s @ [c]) = 10 * digits_val s + digit_val c"
  by (simp add: digits_val_def)

lemma digits_val_show_nat: "digits_val (show_nat n) = n"
proof (induction n rule: show_nat.induct)
  case (1 n)
  show ?case
  proof (cases "n < 10")
    case True
    then show ?thesis
      by (subst show_nat.simps) (simp add: digits_val_def digit_val_digit_char)
  next
    case False
    with 1 show ?thesis
      by (subst show_nat.simps) (simp add: digits_val_snoc digit_val_digit_char)
  qed
qed

lemma parse_uint_show_nat [simp]: "parse_uint (show_nat n) = Some n"
  by (simp add: parse_uint_def show_nat_digits digits_val_show_nat)

lemma show_nat_Cons: "\<exists>c r. show_nat n = c # r \<and> is_digit c"
  using show_nat_digits [of n] by (cases "show_nat n") auto

lemma parse_int_show_int: "int64_range x \<Longrightarrow> parse_int (show_int x) = Some x"
proof (cases "x < 0")
  case True
  assume "int64_range x"
  with True show ?thesis by (simp add: parse_int_def show_int_def)
next
  case False
  assume "int64_range x"
  moreover obtain c r where "show_nat (nat x) = c # r" "is_digit c"
    using show_nat_Cons by blast
  moreover have "parse_uint (c # r) = Some (nat x)"
    using parse_uint_show_nat [of "nat x"] calculation(2) by simp
  ultimately show ?thesis
    using False is_digit_neq by (auto simp: parse_int_def show_int_def)
qed

interpretation dec: codec show_int parse_int int64_range
  by unfold_locales (rule parse_int_show_int)

lemma show_int_chars: "c \<in> set (show_int x) \<Longrightarrow> is_digit c \<or> c = CHR ''-''"
  using show_nat_digits by (auto simp: show_int_def list_all_iff split: if_splits)

lemma show_int_no_dot: "CHR ''.'' \<notin> set (show_int x)"
  using show_int_chars [of "CHR ''.''" x] is_digit_neq(3) by auto

subsection \<open>Raw base64url\<close>

text \<open>
  Three bytes become four symbols of six bits; a last group of one or two bytes becomes
  two or three symbols, without padding. The decoder skips line breaks, refuses every
  other foreign symbol and a last group of one symbol, and ignores the unused low bits of
  the last symbol, as the non-strict encoding of the package does.
\<close>

definition b64_alphabet :: string where
  "b64_alphabet =
     ''ABCDEFGHIJKLMNOPQRSTUVWXYZabcdefghijklmnopqrstuvwxyz0123456789-_''"

definition b64_sym :: "nat \<Rightarrow> char" where
  "b64_sym n = b64_alphabet ! n"

definition b64_val :: "char \<Rightarrow> nat option" where
  "b64_val c = index_byte c b64_alphabet"

abbreviation byte :: "char \<Rightarrow> nat" where
  "byte c \<equiv> of_char c"

fun b64_sextets :: "string \<Rightarrow> nat list" where
  "b64_sextets [] = []"
| "b64_sextets [a] = [byte a div 4, byte a mod 4 * 16]"
| "b64_sextets [a, b] = [byte a div 4, byte a mod 4 * 16 + byte b div 16, byte b mod 16 * 4]"
| "b64_sextets (a # b # c # s) =
     byte a div 4 # (byte a mod 4 * 16 + byte b div 16)
     # (byte b mod 16 * 4 + byte c div 64) # byte c mod 64 # b64_sextets s"

definition b64_encode :: "string \<Rightarrow> string" where
  "b64_encode s = map b64_sym (b64_sextets s)"

fun b64_groups :: "nat list \<Rightarrow> string option" where
  "b64_groups [] = Some []"
| "b64_groups [w] = None"
| "b64_groups [w, x] = Some [char_of (w * 4 + x div 16)]"
| "b64_groups [w, x, y] = Some [char_of (w * 4 + x div 16), char_of (x mod 16 * 16 + y div 4)]"
| "b64_groups (w # x # y # z # r) =
     map_option (\<lambda>t. char_of (w * 4 + x div 16) # char_of (x mod 16 * 16 + y div 4)
       # char_of (y mod 4 * 64 + z) # t) (b64_groups r)"

fun b64_vals :: "string \<Rightarrow> nat list option" where
  "b64_vals [] = Some []"
| "b64_vals (c # s) =
     (if c = CHR 0x0A \<or> c = CHR 0x0D then b64_vals s
      else (case b64_val c of
              None \<Rightarrow> None
            | Some v \<Rightarrow> map_option (Cons v) (b64_vals s)))"

definition b64_decode :: "string \<Rightarrow> string option" where
  "b64_decode s = (case b64_vals s of None \<Rightarrow> None | Some vs \<Rightarrow> b64_groups vs)"

lemma byte_div_less [simp]:
  "byte c div 4 < 64" "byte c div 16 < 16" "byte c div 64 < 4"
  by (rule less_mult_imp_div_less, simp)+

lemma byte_mod_less [simp]:
  "byte a mod 4 * 16 < 64" "byte b mod 16 * 4 < 64"
  "byte a mod 4 * 16 + byte b div 16 < 64" "byte b mod 16 * 4 + byte c div 64 < 64"
proof -
  have "byte a mod 4 < 4" "byte b mod 16 < 16" by simp_all
  moreover have "byte b div 16 < 16" "byte c div 64 < 4" by simp_all
  ultimately show "byte a mod 4 * 16 < 64" "byte b mod 16 * 4 < 64"
    "byte a mod 4 * 16 + byte b div 16 < 64" "byte b mod 16 * 4 + byte c div 64 < 64"
    by linarith+
qed

lemma index_byte_nth: "distinct s \<Longrightarrow> i < length s \<Longrightarrow> index_byte (s ! i) s = Some i"
proof (induction s arbitrary: i)
  case Nil
  then show ?case by simp
next
  case (Cons x s)
  then show ?case by (cases i) auto
qed

lemma b64_alphabet_facts:
  "distinct b64_alphabet" "length b64_alphabet = 64"
  "CHR ''.'' \<notin> set b64_alphabet" "CHR 0x0A \<notin> set b64_alphabet" "CHR 0x0D \<notin> set b64_alphabet"
  by (simp_all add: b64_alphabet_def)

lemma b64_val_sym: "n < 64 \<Longrightarrow> b64_val (b64_sym n) = Some n"
  by (simp add: b64_val_def b64_sym_def index_byte_nth b64_alphabet_facts)

lemma b64_sym_in: "n < 64 \<Longrightarrow> b64_sym n \<in> set b64_alphabet"
  by (simp add: b64_sym_def b64_alphabet_facts)

lemma b64_sym_plain:
  "n < 64 \<Longrightarrow> b64_sym n \<noteq> CHR 0x0A \<and> b64_sym n \<noteq> CHR 0x0D \<and> b64_sym n \<noteq> CHR ''.''"
  using b64_sym_in b64_alphabet_facts(3-5) by metis

lemma b64_sextets_less: "list_all (\<lambda>n. n < 64) (b64_sextets s)"
  by (induction s rule: b64_sextets.induct) simp_all

lemma b64_vals_syms: "list_all (\<lambda>n. n < 64) ns \<Longrightarrow> b64_vals (map b64_sym ns) = Some ns"
  by (induction ns) (simp_all add: b64_val_sym b64_sym_plain)

lemma b64_groups_sextets: "b64_groups (b64_sextets s) = Some s"
  by (induction s rule: b64_sextets.induct) simp_all

lemma b64_decode_encode: "b64_decode (b64_encode s) = Some s"
  by (simp add: b64_decode_def b64_encode_def b64_vals_syms b64_sextets_less b64_groups_sextets)

interpretation b64: codec b64_encode b64_decode "\<lambda>_. True"
  by unfold_locales (rule b64_decode_encode)

lemma b64_encode_no_dot: "CHR ''.'' \<notin> set (b64_encode s)"
proof -
  have "b64_sym n \<noteq> CHR ''.''" if "n \<in> set (b64_sextets s)" for n
    using b64_sextets_less [of s] that b64_sym_plain [of n] by (simp add: list_all_iff)
  then show ?thesis by (force simp: b64_encode_def)
qed

end
