(* ===== verification/Ui_Format.thy ===== *)
theory Ui_Format
  imports Go_Codecs
begin

section \<open>Durations and sizes as the admin pages show them\<close>

text \<open>
  \<open>humanDuration\<close> and \<open>humanBytes\<close> of \<open>internal/ui/ui.go\<close>. The uptime is a number of
  nanoseconds, not negative as the clock behind it is monotonic. The byte count is converted
  to a float64 (53 significant bits, ties to even), divided by a power of two, which is
  exact, and printed with a fixed number of decimals, ties to even again.
\<close>

definition human_duration :: "int \<Rightarrow> string" where
  "human_duration d =
     (let s = d div 1000000000
      in if s < 60 then show_int s @ ''s''
         else if s < 3600 then show_int (s div 60) @ ''m''
         else if s < 24 * 3600 then show_int (s div 3600) @ ''h '' @ show_int (s div 60 mod 60) @ ''m''
         else show_int (s div 3600 div 24) @ ''d '' @ show_int (s div 3600 mod 24) @ ''h'')"

definition round_half_even :: "int \<Rightarrow> int \<Rightarrow> int" where
  "round_half_even n d =
     (let q = n div d; r = n mod d
      in if 2 * r < d \<or> (2 * r = d \<and> even q) then q else q + 1)"

function bit_count :: "int \<Rightarrow> nat" where
  "bit_count n = (if n \<le> 0 then 0 else Suc (bit_count (n div 2)))"
  by pat_completeness auto
termination by (relation "measure nat") auto

declare bit_count.simps [simp del]

definition float_of_uint :: "int \<Rightarrow> int" where
  "float_of_uint n = (let k = bit_count n - 53 in round_half_even n (2 ^ k) * 2 ^ k)"

text \<open>\<open>FormatFloat (x / 2^k) 'f' p\<close>.\<close>

definition pad_digits :: "nat \<Rightarrow> string \<Rightarrow> string" where
  "pad_digits p s = replicate (p - length s) (CHR ''0'') @ s"

definition fixed_decimals :: "nat \<Rightarrow> int \<Rightarrow> nat \<Rightarrow> string" where
  "fixed_decimals p x k =
     (let v = round_half_even (x * 10 ^ p) (2 ^ k)
      in show_int (v div 10 ^ p) @ ''.'' @ pad_digits p (show_int (v mod 10 ^ p)))"

definition human_bytes :: "64 word \<Rightarrow> string" where
  "human_bytes w =
     (let n = uint w
      in if n < 2 ^ 10 then show_int n @ '' B''
         else if n < 2 ^ 20 then fixed_decimals 1 (float_of_uint n) 10 @ '' KB''
         else if n < 2 ^ 30 then fixed_decimals 1 (float_of_uint n) 20 @ '' MB''
         else fixed_decimals 2 (float_of_uint n) 30 @ '' GB'')"

subsection \<open>Facts\<close>

text \<open>Counts below two to the 53rd are converted exactly; rounding is off by at most half.\<close>

lemma bit_count_le: "n < 2 ^ k \<Longrightarrow> bit_count n \<le> k"
proof (induction k arbitrary: n)
  case 0
  then show ?case by (simp add: bit_count.simps)
next
  case (Suc k)
  then have "bit_count (n div 2) \<le> k" by simp
  then show ?case by (subst bit_count.simps) simp
qed

lemma float_of_uint_exact: "0 \<le> n \<Longrightarrow> n < 2 ^ 53 \<Longrightarrow> float_of_uint n = n"
  using bit_count_le [of n 53] by (simp add: float_of_uint_def round_half_even_def)

lemma round_half_even_error:
  assumes "0 < d"
  shows "2 * \<bar>round_half_even n d * d - n\<bar> \<le> d"
proof -
  have n: "n = n div d * d + n mod d" and r: "0 \<le> n mod d" "n mod d < d" using assms by simp_all
  show ?thesis
  proof (cases "2 * (n mod d) < d \<or> (2 * (n mod d) = d \<and> even (n div d))")
    case True
    then have "round_half_even n d * d = n div d * d" by (simp add: round_half_even_def Let_def)
    then have "round_half_even n d * d - n = - (n mod d)" using n by linarith
    with True r show ?thesis by auto
  next
    case False
    then have "round_half_even n d = n div d + 1" by (auto simp: round_half_even_def Let_def)
    then have "round_half_even n d * d = n div d * d + d" by (simp add: distrib_right)
    then have "round_half_even n d * d - n = d - n mod d" using n by linarith
    moreover have "d \<le> 2 * (n mod d)" using False by auto
    ultimately show ?thesis using r by auto
  qed
qed

end
