(* ===== verification/Go_Url.thy ===== *)
theory Go_Url
  imports Go_Codecs
begin

section \<open>URL parsing of Go's net/url and host-port splitting of net\<close>

text \<open>
  The part of \<open>url.Parse\<close> (Go 1.22) that decides whether an upstream is accepted
  and what its scheme, host and path are: fragment and query are cut off, the scheme is
  scanned, the authority is parsed with its user info, bracketed literals and port, and
  every component is percent-decoded under the rules of its mode. Errors are
  \<open>None\<close>; their messages are not modelled.
\<close>

record url =
  u_scheme :: string
  u_opaque :: string
  u_host :: string
  u_path :: string
  u_query :: string

definition is_alpha :: "char \<Rightarrow> bool" where
  "is_alpha c \<longleftrightarrow> between CHR ''a'' CHR ''z'' c \<or> between CHR ''A'' CHR ''Z'' c"

definition is_hex :: "char \<Rightarrow> bool" where
  "is_hex c \<longleftrightarrow> is_digit c \<or> between CHR ''a'' CHR ''f'' c \<or> between CHR ''A'' CHR ''F'' c"

definition unhex :: "char \<Rightarrow> nat" where
  "unhex c =
     (if is_digit c then byte c - 48
      else if between CHR ''a'' CHR ''f'' c then byte c - 97 + 10
      else if between CHR ''A'' CHR ''F'' c then byte c - 65 + 10 else 0)"

text \<open>\<open>strings.Cut\<close> at a byte: the parts before and after its first occurrence.\<close>

definition cut_byte :: "char \<Rightarrow> string \<Rightarrow> string \<times> string" where
  "cut_byte c s =
     (case index_byte c s of None \<Rightarrow> (s, []) | Some i \<Rightarrow> (take i s, drop (Suc i) s))"

datatype esc_mode = Esc_Path | Esc_Host | Esc_Zone | Esc_User | Esc_Fragment

definition host_should_escape :: "char \<Rightarrow> bool" where
  "host_should_escape c \<longleftrightarrow>
     \<not> (is_alpha c \<or> is_digit c
        \<or> c \<in> set ''!$&()*+,;=:[]<>-_.~'' \<or> c = CHR 0x27 \<or> c = CHR 0x22)"

definition pct_ok :: "esc_mode \<Rightarrow> char \<Rightarrow> char \<Rightarrow> bool" where
  "pct_ok m h l \<longleftrightarrow>
     is_hex h \<and> is_hex l \<and>
     (case m of
        Esc_Host \<Rightarrow> 8 \<le> unhex h \<or> [h, l] = ''25''
      | Esc_Zone \<Rightarrow>
          (let v = char_of (16 * unhex h + unhex l)
           in [h, l] = ''25'' \<or> v = CHR '' '' \<or> \<not> host_should_escape v)
      | _ \<Rightarrow> True)"

fun unescape :: "esc_mode \<Rightarrow> string \<Rightarrow> string option" where
  "unescape m [] = Some []"
| "unescape m (c # s) =
     (if c = CHR ''%'' then
        (if 2 \<le> length s \<and> pct_ok m (s ! 0) (s ! 1)
         then map_option (Cons (char_of (16 * unhex (s ! 0) + unhex (s ! 1)))) (unescape m (drop 2 s))
         else None)
      else if (m = Esc_Host \<or> m = Esc_Zone) \<and> byte c < 128 \<and> host_should_escape c then None
      else map_option (Cons c) (unescape m s))"

fun get_scheme_at :: "string \<Rightarrow> string \<Rightarrow> (string \<times> string) option" where
  "get_scheme_at acc [] = Some ([], acc)"
| "get_scheme_at acc (c # s) =
     (if is_alpha c then get_scheme_at (acc @ [c]) s
      else if is_digit c \<or> c \<in> set ''+-.'' then
        (if acc = [] then Some ([], c # s) else get_scheme_at (acc @ [c]) s)
      else if c = CHR '':'' then (if acc = [] then None else Some (acc, s))
      else Some ([], acc @ c # s))"

definition valid_optional_port :: "string \<Rightarrow> bool" where
  "valid_optional_port p \<longleftrightarrow>
     (case p of [] \<Rightarrow> True | c # ds \<Rightarrow> c = CHR '':'' \<and> list_all is_digit ds)"

definition parse_host :: "string \<Rightarrow> string option" where
  "parse_host host =
     (if has_prefix ''['' host then
        (case last_index_byte (CHR '']'') host of
           None \<Rightarrow> None
         | Some i \<Rightarrow>
             (if \<not> valid_optional_port (drop (Suc i) host) then None
              else (case index_of ''%25'' (take i host) of
                      Some z \<Rightarrow>
                        (case (unescape Esc_Host (take z host),
                               unescape Esc_Zone (drop z (take i host)),
                               unescape Esc_Host (drop i host)) of
                           (Some h1, Some h2, Some h3) \<Rightarrow> Some (h1 @ h2 @ h3)
                         | _ \<Rightarrow> None)
                    | None \<Rightarrow> unescape Esc_Host host)))
      else
        (case last_index_byte (CHR '':'') host of
           Some i \<Rightarrow> if valid_optional_port (drop i host) then unescape Esc_Host host else None
         | None \<Rightarrow> unescape Esc_Host host))"

definition userinfo_byte :: "char \<Rightarrow> bool" where
  "userinfo_byte c \<longleftrightarrow> is_alpha c \<or> is_digit c \<or> c \<in> set ''-._:~!$&()*+,;=%@'' \<or> c = CHR 0x27"

definition valid_userinfo :: "string \<Rightarrow> bool" where
  "valid_userinfo s \<longleftrightarrow>
     list_all userinfo_byte s \<and>
     (let (name, password) = cut_byte (CHR '':'') s
      in unescape Esc_User name \<noteq> None \<and> unescape Esc_User password \<noteq> None)"

definition parse_authority :: "string \<Rightarrow> string option" where
  "parse_authority a =
     (case last_index_byte (CHR ''@'') a of
        None \<Rightarrow> parse_host a
      | Some i \<Rightarrow>
          (case parse_host (drop (Suc i) a) of
             None \<Rightarrow> None
           | Some h \<Rightarrow> if valid_userinfo (take i a) then Some h else None))"

definition is_ctl :: "char \<Rightarrow> bool" where
  "is_ctl c \<longleftrightarrow> byte c < 32 \<or> byte c = 127"

definition cut_query :: "string \<Rightarrow> string \<times> string" where
  "cut_query rest =
     (if has_suffix ''?'' rest \<and> length (filter (\<lambda>c. c = CHR ''?'') rest) = 1
      then (butlast rest, []) else cut_byte (CHR ''?'') rest)"

definition parse_rest :: "string \<Rightarrow> string \<Rightarrow> string \<Rightarrow> url option" where
  "parse_rest scheme query rest =
     (let with_path = (\<lambda>host p. map_option
            (\<lambda>path. \<lparr>u_scheme = scheme, u_opaque = [], u_host = host, u_path = path, u_query = query\<rparr>)
            (unescape Esc_Path p))
      in if \<not> has_prefix ''/'' rest \<and> scheme \<noteq> [] then
           Some \<lparr>u_scheme = scheme, u_opaque = rest, u_host = [], u_path = [], u_query = query\<rparr>
         else if \<not> has_prefix ''/'' rest \<and> contains '':'' (fst (cut_byte (CHR ''/'') rest)) then None
         else if (scheme \<noteq> [] \<or> \<not> has_prefix ''///'' rest) \<and> has_prefix ''//'' rest then
           (let a = drop 2 rest;
                (auth, path) = (case index_byte (CHR ''/'') a of
                                  None \<Rightarrow> (a, []) | Some i \<Rightarrow> (take i a, drop i a))
            in case parse_authority auth of None \<Rightarrow> None | Some h \<Rightarrow> with_path h path)
         else with_path [] rest)"

definition url_parse :: "string \<Rightarrow> url option" where
  "url_parse raw =
     (let (u, frag) = cut_byte (CHR ''#'') raw
      in if list_ex is_ctl u then None
         else if unescape Esc_Fragment frag = None then None
         else if u = ''*'' then
           Some \<lparr>u_scheme = [], u_opaque = [], u_host = [], u_path = ''*'', u_query = []\<rparr>
         else (case get_scheme_at [] u of
                 None \<Rightarrow> None
               | Some (scheme, rest) \<Rightarrow>
                   (let (r, query) = cut_query rest in parse_rest (to_lower scheme) query r)))"

subsection \<open>net.SplitHostPort\<close>

definition split_host_port :: "string \<Rightarrow> (string \<times> string) option" where
  "split_host_port hp =
     (case last_index_byte (CHR '':'') hp of
        None \<Rightarrow> None
      | Some i \<Rightarrow>
          (if has_prefix ''['' hp then
             (case index_byte (CHR '']'') hp of
                None \<Rightarrow> None
              | Some e \<Rightarrow>
                  (if Suc e \<noteq> i then None
                   else if CHR ''['' \<in> set (drop 1 hp) \<or> CHR '']'' \<in> set (drop (Suc e) hp) then None
                   else Some (drop 1 (take e hp), drop (Suc i) hp)))
           else if CHR '':'' \<in> set (take i hp) then None
           else if CHR ''['' \<in> set hp \<or> CHR '']'' \<in> set hp then None
           else Some (take i hp, drop (Suc i) hp)))"

lemma split_host_port_plain:
  assumes "set h \<inter> set '':[]'' = {}" "set p \<inter> set '':[]'' = {}"
  shows "split_host_port (h @ CHR '':'' # p) = Some (h, p)"
proof -
  have "last_index_byte (CHR '':'') (h @ CHR '':'' # p) = Some (length h)"
    by (rule last_index_byte_append) (use assms in auto)
  moreover have "\<not> has_prefix ''['' (h @ CHR '':'' # p)"
    using assms by (cases h) (auto simp: has_prefix_def)
  ultimately show ?thesis
    using assms by (auto simp: split_host_port_def)
qed

subsection \<open>Plain upstream addresses\<close>

text \<open>
  Host bytes of a plain address: letters, digits, dots and hyphens. An address of such a
  host and a decimal port under an explicit \<open>http\<close> scheme parses to itself.
\<close>

definition host_byte :: "char \<Rightarrow> bool" where
  "host_byte c \<longleftrightarrow> is_alpha c \<or> is_digit c \<or> c = CHR ''.'' \<or> c = CHR ''-''"

lemma host_byte_facts:
  assumes "host_byte c"
  shows "c \<noteq> CHR ''%''" "c \<noteq> CHR ''#''" "c \<noteq> CHR ''?''" "c \<noteq> CHR ''/''" "c \<noteq> CHR ''@''"
    "c \<noteq> CHR '':''" "c \<noteq> CHR ''[''" "c \<noteq> CHR '']''" "\<not> is_ctl c" "\<not> host_should_escape c"
  using assms
  by (auto simp: host_byte_def is_alpha_def is_digit_def less_eq_char_def is_ctl_def
      host_should_escape_def)

lemma unescape_host_plain:
  "list_all (\<lambda>c. host_byte c \<or> c = CHR '':'') s \<Longrightarrow> unescape Esc_Host s = Some s"
proof (induction s)
  case Nil
  then show ?case by simp
next
  case (Cons c s)
  then have "host_byte c \<or> c = CHR '':''" by simp
  moreover have "\<not> host_should_escape CHR '':''" by (simp add: host_should_escape_def)
  ultimately have "c \<noteq> CHR ''%''" "\<not> host_should_escape c"
    using host_byte_facts(1,10) by auto
  with Cons show ?case by simp
qed

lemma is_digit_host_byte: "is_digit c \<Longrightarrow> host_byte c"
  by (simp add: host_byte_def)

lemma list_all_digit_host: "list_all is_digit p \<Longrightarrow> list_all host_byte p"
  by (simp add: list_all_iff is_digit_host_byte)

lemma parse_host_plain:
  assumes "list_all host_byte h" "list_all is_digit p"
  shows "parse_host (h @ CHR '':'' # p) = Some (h @ CHR '':'' # p)"
proof -
  have p: "list_all host_byte p" using assms(2) by (rule list_all_digit_host)
  have "CHR '':'' \<notin> set p" using p host_byte_facts(6) by (auto simp: list_all_iff)
  then have "last_index_byte (CHR '':'') (h @ CHR '':'' # p) = Some (length h)"
    by (rule last_index_byte_append)
  moreover have "\<not> has_prefix ''['' (h @ CHR '':'' # p)"
    using assms(1) host_byte_facts(7) by (cases h) (auto simp: has_prefix_def)
  moreover have "unescape Esc_Host (h @ CHR '':'' # p) = Some (h @ CHR '':'' # p)"
    by (rule unescape_host_plain) (use assms p in \<open>auto simp: list_all_iff\<close>)
  ultimately show ?thesis
    using assms(2) by (simp add: parse_host_def valid_optional_port_def)
qed

lemma parse_authority_plain:
  assumes "list_all host_byte h" "list_all is_digit p"
  shows "parse_authority (h @ CHR '':'' # p) = Some (h @ CHR '':'' # p)"
proof -
  have "CHR ''@'' \<notin> set (h @ CHR '':'' # p)"
    using assms(1) list_all_digit_host [OF assms(2)] host_byte_facts(5) by (auto simp: list_all_iff)
  then have "last_index_byte (CHR ''@'') (h @ CHR '':'' # p) = None"
    by (rule last_index_byte_notin)
  then show ?thesis by (simp add: parse_authority_def parse_host_plain assms)
qed

lemma get_scheme_http: "get_scheme_at [] (''http:'' @ s) = Some (''http'', s)"
  by (simp add: is_alpha_def is_digit_def less_eq_char_def)

lemma cut_byte_notin: "c \<notin> set s \<Longrightarrow> cut_byte c s = (s, [])"
  by (simp add: cut_byte_def index_byte_notin)

lemma parse_rest_plain:
  assumes "CHR ''/'' \<notin> set a" "parse_authority a = Some h"
  shows "parse_rest ''http'' [] (''//'' @ a) =
    Some \<lparr>u_scheme = ''http'', u_opaque = [], u_host = h, u_path = [], u_query = []\<rparr>"
proof -
  have "index_byte (CHR ''/'') a = None"
    using assms(1) by (rule index_byte_notin)
  with assms(2) show ?thesis by (simp add: parse_rest_def has_prefix_def Let_def)
qed

lemma url_parse_http:
  assumes no: "CHR ''#'' \<notin> set a" "CHR ''?'' \<notin> set a" "\<not> list_ex is_ctl a"
  shows "url_parse (''http://'' @ a) = parse_rest ''http'' [] (''//'' @ a)"
proof -
  have "CHR ''#'' \<notin> set (''http://'' @ a)" using no by simp
  then have "cut_byte (CHR ''#'') (''http://'' @ a) = (''http://'' @ a, [])"
    by (rule cut_byte_notin)
  moreover have "\<not> list_ex is_ctl (''http://'' @ a)"
    using no(3) by (simp add: is_ctl_def)
  moreover have "get_scheme_at [] (''http://'' @ a) = Some (''http'', ''//'' @ a)"
    using get_scheme_http [of "''//'' @ a"] by simp
  moreover have "cut_query (''//'' @ a) = (''//'' @ a, [])"
  proof -
    have q: "CHR ''?'' \<notin> set (''//'' @ a)" using no by simp
    then have "\<not> has_suffix ''?'' (''//'' @ a)" by (metis has_suffix_iff in_set_conv_decomp)
    with q show ?thesis
      by (simp only: cut_query_def cut_byte_notin simp_thms if_False)
  qed
  moreover have "to_lower ''http'' = ''http''"
    by (simp add: to_lower_def lower_byte_def less_eq_char_def)
  moreover have "''http://'' @ a \<noteq> ''*''" by simp
  moreover have "unescape Esc_Fragment [] \<noteq> None" by simp
  ultimately show ?thesis
    by (simp only: url_parse_def Let_def prod.case option.case if_False)
qed

lemma url_parse_plain:
  assumes h: "list_all host_byte h" and p: "list_all is_digit p"
  shows "url_parse (''http://'' @ h @ CHR '':'' # p) =
    Some \<lparr>u_scheme = ''http'', u_opaque = [], u_host = h @ CHR '':'' # p, u_path = [], u_query = []\<rparr>"
proof -
  let ?a = "h @ CHR '':'' # p"
  have a: "c \<in> set ?a \<Longrightarrow> host_byte c \<or> c = CHR '':''" for c
    using h list_all_digit_host [OF p] by (auto simp: list_all_iff)
  have no: "d \<notin> set ?a" if "\<not> host_byte d" "d \<noteq> CHR '':''" for d
    using a that by blast
  have bad: "\<not> host_byte CHR ''#''" "\<not> host_byte CHR ''?''" "\<not> host_byte CHR ''/''"
    using host_byte_facts(2-4) by blast+
  have "CHR ''#'' \<notin> set ?a" "CHR ''?'' \<notin> set ?a" "CHR ''/'' \<notin> set ?a"
    by (rule no [OF bad(1)], simp, rule no [OF bad(2)], simp, rule no [OF bad(3)], simp)
  moreover have "\<not> list_ex is_ctl ?a"
  proof -
    have "\<not> is_ctl CHR '':''" by (simp add: is_ctl_def)
    then show ?thesis using a host_byte_facts(9) unfolding list_ex_iff by blast
  qed
  ultimately show ?thesis
    using url_parse_http [of ?a] parse_rest_plain [OF _ parse_authority_plain [OF h p]]
    by (simp only: not_False_eq_True simp_thms)
qed

end
