(* ===== verification/Config_Site.thy ===== *)
theory Config_Site
  imports Go_Url
begin

section \<open>Site and global configuration: types, defaults, validation\<close>

text \<open>
  The configuration types of \<open>internal/config/config.go\<close>, \<open>AllDomains\<close>,
  \<open>Validate\<close> with its errors in the order the code reports them, the upstream
  syntax check and the defaults of the global file. The error values carry what the Go
  messages carry; Go's \<open>int\<close> fields are integers of the 64-bit range.
\<close>

record admin =
  a_username :: string
  a_password_hash :: string

record global_config =
  g_admin_addr :: string
  g_http_addr :: string
  g_https_addr :: string
  g_acme_email :: string
  g_acme_directory :: string
  g_admins :: "admin list"
  g_session_secret :: string
  g_trust_forwarded :: bool

record tls_config =
  t_auto :: bool
  t_cert_file :: string
  t_key_file :: string

record rate_limit_config =
  rl_enabled :: bool
  rl_rps :: int
  rl_burst :: int

record site =
  s_filename :: string
  s_domain :: string
  s_aliases :: "string list"
  s_upstreams :: "string list"
  s_enabled :: bool
  s_tls :: tls_config
  s_http_to_https :: bool
  s_websocket :: bool
  s_block_exploits :: bool
  s_rate_limit :: rate_limit_config
  s_custom_headers :: "(string, string) gomap"

text \<open>The zero value of Go's \<open>var s Site\<close>.\<close>

definition zero_site :: site where
  "zero_site =
     \<lparr>s_filename = [], s_domain = [], s_aliases = [], s_upstreams = [], s_enabled = False,
      s_tls = \<lparr>t_auto = False, t_cert_file = [], t_key_file = []\<rparr>,
      s_http_to_https = False, s_websocket = False, s_block_exploits = False,
      s_rate_limit = \<lparr>rl_enabled = False, rl_rps = 0, rl_burst = 0\<rparr>, s_custom_headers = []\<rparr>"

definition all_domains :: "site \<Rightarrow> string list" where
  "all_domains s = s_domain s # s_aliases s"

definition split_last_colon :: "string \<Rightarrow> (string \<times> string) option" where
  "split_last_colon s =
     (case last_index_byte (CHR '':'') s of
        None \<Rightarrow> None
      | Some i \<Rightarrow> Some (take i s, drop (Suc i) s))"

definition valid_upstream :: "string \<Rightarrow> bool" where
  "valid_upstream s =
     (if contains ''://'' s then
        (case url_parse s of None \<Rightarrow> False | Some u \<Rightarrow> u_host u \<noteq> [])
      else if \<not> contains '':'' s then False
      else (case split_last_colon s of
              None \<Rightarrow> False
            | Some (host, port) \<Rightarrow> host \<noteq> [] \<and> port \<noteq> []))"

datatype site_error =
    Domain_Required
  | Upstream_Required
  | Invalid_Upstream string
  | RPS_Not_Positive
  | Burst_Negative

fun first_invalid_upstream :: "string list \<Rightarrow> string option" where
  "first_invalid_upstream [] = None"
| "first_invalid_upstream (u # us) =
     (if \<not> valid_upstream u then Some u else first_invalid_upstream us)"

definition validate_rate_limit :: "rate_limit_config \<Rightarrow> site_error option" where
  "validate_rate_limit rl =
     (if rl_enabled rl then
        (if rl_rps rl \<le> 0 then Some RPS_Not_Positive
         else if rl_burst rl < 0 then Some Burst_Negative
         else None)
      else None)"

definition validate :: "site \<Rightarrow> site_error option" where
  "validate s =
     (if trim_space (s_domain s) = [] then Some Domain_Required
      else if s_upstreams s = [] then Some Upstream_Required
      else (case first_invalid_upstream (s_upstreams s) of
              Some u \<Rightarrow> Some (Invalid_Upstream u)
            | None \<Rightarrow> validate_rate_limit (s_rate_limit s)))"

definition apply_defaults :: "global_config \<Rightarrow> global_config" where
  "apply_defaults g =
     g\<lparr>g_admin_addr := (if g_admin_addr g = [] then ''127.0.0.1:8090'' else g_admin_addr g),
       g_http_addr := (if g_http_addr g = [] then '':80'' else g_http_addr g),
       g_https_addr := (if g_https_addr g = [] then '':443'' else g_https_addr g)\<rparr>"

subsection \<open>Validation\<close>

text \<open>What a site that passes validation promises to the rest of the program.\<close>

definition site_ok :: "site \<Rightarrow> bool" where
  "site_ok s \<longleftrightarrow>
     (\<exists>c \<in> set (s_domain s). \<not> is_space c) \<and> s_upstreams s \<noteq> [] \<and>
     (\<forall>u \<in> set (s_upstreams s). valid_upstream u) \<and>
     (rl_enabled (s_rate_limit s) \<longrightarrow> 0 < rl_rps (s_rate_limit s) \<and> 0 \<le> rl_burst (s_rate_limit s))"

lemma first_invalid_upstream_None:
  "first_invalid_upstream us = None \<longleftrightarrow> (\<forall>u \<in> set us. valid_upstream u)"
  by (induction us) auto

lemma first_invalid_upstream_SomeD:
  "first_invalid_upstream us = Some u \<Longrightarrow>
     \<exists>vs ws. us = vs @ u # ws \<and> (\<forall>v \<in> set vs. valid_upstream v) \<and> \<not> valid_upstream u"
proof (induction us)
  case Nil
  then show ?case by simp
next
  case (Cons x us)
  show ?case
  proof (cases "valid_upstream x")
    case True
    with Cons obtain vs ws where "us = vs @ u # ws" "\<forall>v \<in> set vs. valid_upstream v" "\<not> valid_upstream u"
      by auto
    with True show ?thesis by (intro exI [of _ "x # vs"] exI [of _ ws]) simp
  next
    case False
    with Cons.prems show ?thesis by (intro exI [of _ "[]"] exI [of _ us]) simp
  qed
qed

lemma trim_space_eq_Nil: "trim_space s = [] \<longleftrightarrow> (\<forall>c \<in> set s. is_space c)"
  by (simp add: trim_space_Nil_iff list_all_iff)

lemma validate_None_iff: "validate s = None \<longleftrightarrow> site_ok s"
  by (auto simp: validate_def site_ok_def validate_rate_limit_def trim_space_eq_Nil
      simp flip: first_invalid_upstream_None split: option.split)

text \<open>
  Upstream syntax: a plain host and decimal port is accepted, and an
  accepted upstream without a scheme has both parts.
\<close>

lemma contains_colon: "contains '':'' s \<longleftrightarrow> CHR '':'' \<in> set s"
  by (auto simp: contains_iff in_set_conv_decomp)

lemma host_bytes_notin:
  assumes "list_all host_byte s"
  shows "CHR '':'' \<notin> set s" "CHR ''/'' \<notin> set s" "CHR ''@'' \<notin> set s"
    "CHR ''#'' \<notin> set s" "CHR ''?'' \<notin> set s"
proof -
  have "d \<notin> set s" if "\<not> host_byte d" for d
    using assms that unfolding list_all_iff by blast
  moreover have "\<not> host_byte CHR '':''" "\<not> host_byte CHR ''/''" "\<not> host_byte CHR ''@''"
    "\<not> host_byte CHR ''#''" "\<not> host_byte CHR ''?''"
    using host_byte_facts(2-6) by blast+
  ultimately show "CHR '':'' \<notin> set s" "CHR ''/'' \<notin> set s" "CHR ''@'' \<notin> set s"
    "CHR ''#'' \<notin> set s" "CHR ''?'' \<notin> set s"
    by blast+
qed

lemma not_contains_scheme:
  assumes "list_all host_byte h" "list_all host_byte p"
  shows "\<not> contains ''://'' (h @ CHR '':'' # p)"
proof
  assume "contains ''://'' (h @ CHR '':'' # p)"
  then have "CHR ''/'' \<in> set (h @ CHR '':'' # p)"
    using contains_set_subset by fastforce
  with host_bytes_notin(2) [OF assms(1)] host_bytes_notin(2) [OF assms(2)] show False by simp
qed

lemma valid_upstream_plain:
  assumes "list_all host_byte h" "list_all host_byte p" "h \<noteq> []" "p \<noteq> []"
  shows "valid_upstream (h @ CHR '':'' # p)"
proof -
  have "split_last_colon (h @ CHR '':'' # p) = Some (h, p)"
    using host_bytes_notin(1) [OF assms(2)] by (simp add: split_last_colon_def last_index_byte_append)
  then show ?thesis
    using assms(3,4) not_contains_scheme [OF assms(1,2)]
    by (simp add: valid_upstream_def contains_colon)
qed

end
