(* ===== verification/Go_Files.thy ===== *)
theory Go_Files
  imports Go_Strings
begin

section \<open>Lexical paths of path/filepath and a file system for os\<close>

text \<open>
  \<open>filepath.Clean\<close>, \<open>Join\<close> and \<open>Base\<close> on Unix paths, and the calls of
  package os the program makes, over a file system that maps cleaned paths to nodes.
  Failures of the environment (unreadable files, refused or partial writes, locked
  entries) are part of the file system value, so that every error branch can be taken.
\<close>

subsection \<open>Paths\<close>

fun join_with :: "string \<Rightarrow> string list \<Rightarrow> string" where
  "join_with sep [] = []"
| "join_with sep [w] = w"
| "join_with sep (w # v # ws) = w @ sep @ join_with sep (v # ws)"

fun clean_comps :: "bool \<Rightarrow> string list \<Rightarrow> string list \<Rightarrow> string list" where
  "clean_comps rooted st [] = rev st"
| "clean_comps rooted st (c # cs) =
     (if c = [] \<or> c = ''.'' then clean_comps rooted st cs
      else if c = ''..'' then
        (if st \<noteq> [] \<and> hd st \<noteq> ''..'' then clean_comps rooted (tl st) cs
         else if rooted then clean_comps rooted st cs
         else clean_comps rooted (''..'' # st) cs)
      else clean_comps rooted (c # st) cs)"

definition path_comps :: "string \<Rightarrow> string list" where
  "path_comps p = clean_comps (has_prefix ''/'' p) [] (split_all (CHR ''/'') p)"

definition clean_path :: "string \<Rightarrow> string" where
  "clean_path p =
     (let body = join_with ''/'' (path_comps p)
      in if has_prefix ''/'' p then CHR ''/'' # body else if body = [] then ''.'' else body)"

definition join_path :: "string \<Rightarrow> string \<Rightarrow> string" where
  "join_path dir name =
     (if dir \<noteq> [] then clean_path (dir @ ''/'' @ name)
      else if name \<noteq> [] then clean_path name else [])"

definition base_name :: "string \<Rightarrow> string" where
  "base_name p =
     (if p = [] then ''.''
      else (let q = rev (dropWhile (\<lambda>c. c = CHR ''/'') (rev p));
                b = rev (takeWhile (\<lambda>c. c \<noteq> CHR ''/'') (rev q))
            in if b = [] then ''/'' else b))"

text \<open>A regular name is one path component other than the two special ones.\<close>

definition regular_name :: "string \<Rightarrow> bool" where
  "regular_name n \<longleftrightarrow> n \<noteq> [] \<and> n \<noteq> ''.'' \<and> n \<noteq> ''..'' \<and> CHR ''/'' \<notin> set n"

text \<open>The prefix that the entries of a directory share.\<close>

definition dir_prefix :: "string \<Rightarrow> string" where
  "dir_prefix dir =
     (if has_prefix ''/'' dir then ''/'' else [])
     @ (if path_comps dir = [] then [] else join_with ''/'' (path_comps dir) @ ''/'')"

lemma split_all_not_Nil [simp]: "split_all c s \<noteq> []"
  by (induction s) (auto split: list.split)

lemma split_all_append:
  "split_all c (s @ c # n) = split_all c s @ split_all c n"
  by (induction s) (auto split: list.splits)

lemma split_all_notin: "c \<notin> set n \<Longrightarrow> split_all c n = [n]"
  by (induction n) auto

lemma clean_comps_snoc:
  assumes "c \<noteq> []" "c \<noteq> ''.''" "c \<noteq> ''..''"
  shows "clean_comps r st (cs @ [c]) = clean_comps r st cs @ [c]"
  using assms by (induction r st cs rule: clean_comps.induct) auto

lemma join_with_snoc: "ws \<noteq> [] \<Longrightarrow> join_with sep (ws @ [w]) = join_with sep ws @ sep @ w"
  by (induction sep ws rule: join_with.induct) auto

lemma join_path_regular:
  assumes "regular_name n" "dir \<noteq> []"
  shows "join_path dir n = dir_prefix dir @ n"
proof -
  have n: "n \<noteq> []" "n \<noteq> ''.''" "n \<noteq> ''..''" "CHR ''/'' \<notin> set n"
    using assms(1) by (auto simp: regular_name_def)
  have root: "has_prefix ''/'' (dir @ CHR ''/'' # n) = has_prefix ''/'' dir"
    using assms(2) by (cases dir) (auto simp: has_prefix_def)
  have "path_comps (dir @ CHR ''/'' # n) = path_comps dir @ [n]"
    by (simp add: path_comps_def root split_all_append split_all_notin n clean_comps_snoc)
  then show ?thesis
    using assms(2) n(1)
    by (cases "path_comps dir = []")
      (simp_all add: join_path_def clean_path_def root dir_prefix_def join_with_snoc)
qed

lemma join_path_inj:
  assumes "regular_name n" "regular_name m" "dir \<noteq> []"
  shows "join_path dir n = join_path dir m \<longleftrightarrow> n = m"
  using assms by (simp add: join_path_regular)

lemma base_name_append:
  assumes "n \<noteq> []" "CHR ''/'' \<notin> set n"
  shows "base_name (p @ CHR ''/'' # n) = n" "base_name n = n"
proof -
  obtain x xs where x: "rev n = x # xs" using assms(1) by (cases "rev n") auto
  then have "x \<in> set n" by (metis list.set_intros(1) set_rev)
  with assms(2) have "x \<noteq> CHR ''/''" by blast
  then have d: "dropWhile (\<lambda>c. c = CHR ''/'') (rev n @ t) = rev n @ t" for t
    by (simp add: x)
  have t: "takeWhile (\<lambda>c. c \<noteq> CHR ''/'') (rev n @ CHR ''/'' # t) = rev n"
    "takeWhile (\<lambda>c. c \<noteq> CHR ''/'') (rev n) = rev n" for t
    using assms(2) by (auto simp: takeWhile_tail takeWhile_eq_all_conv)
  show "base_name (p @ CHR ''/'' # n) = n"
    using assms(1) d [of "CHR ''/'' # rev p"] t(1) [of "rev p"] by (simp add: base_name_def)
  show "base_name n = n"
    using assms(1) d [of "[]"] by (simp add: base_name_def t(2))
qed

lemma dir_prefix_end:
  "dir_prefix dir = [] \<or> (\<exists>q. dir_prefix dir = q @ ''/'')"
  by (auto simp: dir_prefix_def)

lemma base_name_join:
  assumes "regular_name n" "dir \<noteq> []"
  shows "base_name (join_path dir n) = n"
proof -
  have n: "n \<noteq> []" "CHR ''/'' \<notin> set n" using assms(1) by (auto simp: regular_name_def)
  show ?thesis
    using dir_prefix_end [of dir] base_name_append [OF n]
    by (auto simp: join_path_regular [OF assms])
qed

subsection \<open>The file system\<close>

datatype fnode = FFile string | FDir

datatype write_fault = Write_OK | Write_Denied | Write_Partial nat

record fsys =
  fs_nodes :: "(string, fnode) gomap"
  fs_unreadable :: "string \<Rightarrow> bool"
  fs_write_fault :: "string \<Rightarrow> write_fault"
  fs_locked :: "string \<Rightarrow> bool"

definition fs_file :: "fsys \<Rightarrow> string \<Rightarrow> string option" where
  "fs_file fs p = (case gm_get (fs_nodes fs) p of Some (FFile b) \<Rightarrow> Some b | _ \<Rightarrow> None)"

definition read_file :: "fsys \<Rightarrow> string \<Rightarrow> string option" where
  "read_file fs p = (if fs_unreadable fs p then None else fs_file fs p)"

definition write_file :: "string \<Rightarrow> string \<Rightarrow> fsys \<Rightarrow> bool \<times> fsys" where
  "write_file p b fs =
     (if gm_get (fs_nodes fs) p = Some FDir then (False, fs)
      else (case fs_write_fault fs p of
              Write_OK \<Rightarrow> (True, fs\<lparr>fs_nodes := gm_put p (FFile b) (fs_nodes fs)\<rparr>)
            | Write_Denied \<Rightarrow> (False, fs)
            | Write_Partial n \<Rightarrow>
                (False, fs\<lparr>fs_nodes := gm_put p (FFile (take n b)) (fs_nodes fs)\<rparr>)))"

definition rename_file :: "string \<Rightarrow> string \<Rightarrow> fsys \<Rightarrow> bool \<times> fsys" where
  "rename_file p q fs =
     (case gm_get (fs_nodes fs) p of
        None \<Rightarrow> (False, fs)
      | Some node \<Rightarrow>
          (if fs_locked fs p \<or> gm_get (fs_nodes fs) q = Some FDir then (False, fs)
           else (True, fs\<lparr>fs_nodes := gm_put q node (gm_del p (fs_nodes fs))\<rparr>)))"

text \<open>The entries of a directory, by name.\<close>

definition child_name :: "string \<Rightarrow> string \<Rightarrow> string option" where
  "child_name dir p =
     (let n = drop (length (dir_prefix dir)) p
      in if has_prefix (dir_prefix dir) p \<and> regular_name n then Some n else None)"

definition child_entries :: "string \<Rightarrow> (string, fnode) gomap \<Rightarrow> (string \<times> bool) list" where
  "child_entries dir nodes =
     concat (map (\<lambda>(p, node).
       case child_name dir p of None \<Rightarrow> [] | Some n \<Rightarrow> [(n, node = FDir)]) nodes)"

definition dir_entries :: "fsys \<Rightarrow> string \<Rightarrow> (string \<times> bool) list" where
  "dir_entries fs dir = sort_key fst (child_entries dir (fs_nodes fs))"

definition read_dir :: "fsys \<Rightarrow> string \<Rightarrow> (string \<times> bool) list option" where
  "read_dir fs dir =
     (if fs_unreadable fs dir \<or> gm_get (fs_nodes fs) (clean_path dir) \<noteq> Some FDir then None
      else Some (dir_entries fs dir))"

definition remove_file :: "string \<Rightarrow> fsys \<Rightarrow> bool \<times> fsys" where
  "remove_file p fs =
     (case gm_get (fs_nodes fs) p of
        None \<Rightarrow> (False, fs)
      | Some node \<Rightarrow>
          (if fs_locked fs p \<or> (node = FDir \<and> dir_entries fs p \<noteq> []) then (False, fs)
           else (True, fs\<lparr>fs_nodes := gm_del p (fs_nodes fs)\<rparr>)))"

definition fs_ok :: "fsys \<Rightarrow> bool" where
  "fs_ok fs \<longleftrightarrow> gm_ok (fs_nodes fs)"

lemma child_name_iff:
  "child_name dir p = Some n \<longleftrightarrow> regular_name n \<and> p = dir_prefix dir @ n"
  by (auto simp: child_name_def Let_def has_prefix_iff)

lemma set_child_entries:
  "(n, d) \<in> set (child_entries dir nodes) \<longleftrightarrow>
     regular_name n \<and> (\<exists>node. (dir_prefix dir @ n, node) \<in> set nodes \<and> d = (node = FDir))"
proof -
  have "(n, d) \<in> set (child_entries dir nodes) \<longleftrightarrow>
      (\<exists>p node. (p, node) \<in> set nodes \<and> child_name dir p = Some n \<and> d = (node = FDir))"
    unfolding child_entries_def by (force split: option.splits)
  then show ?thesis unfolding child_name_iff by blast
qed

lemma set_dir_entries:
  assumes "fs_ok fs" "dir \<noteq> []"
  shows "(n, d) \<in> set (dir_entries fs dir) \<longleftrightarrow>
    regular_name n \<and> (\<exists>node. gm_get (fs_nodes fs) (join_path dir n) = Some node \<and> d = (node = FDir))"
proof -
  have "distinct (map fst (fs_nodes fs))"
    using assms(1) by (simp add: fs_ok_def gm_ok_def)
  then have "(p, node) \<in> set (fs_nodes fs) \<longleftrightarrow> gm_get (fs_nodes fs) p = Some node" for p node
    by (simp add: gm_get_def)
  then show ?thesis
    using assms(2) by (auto simp: dir_entries_def set_child_entries join_path_regular)
qed

lemma distinct_child_entries:
  "distinct (map fst nodes) \<Longrightarrow> distinct (map fst (child_entries dir nodes))"
proof (induction nodes)
  case Nil
  then show ?case by (simp add: child_entries_def)
next
  case (Cons x nodes)
  obtain p node where x: "x = (p, node)" by (cases x)
  have step: "child_entries dir (x # nodes) =
      (case child_name dir p of None \<Rightarrow> [] | Some n \<Rightarrow> [(n, node = FDir)]) @ child_entries dir nodes"
    by (simp add: child_entries_def x)
  show ?case
  proof (cases "child_name dir p")
    case None
    with Cons show ?thesis by (simp add: step)
  next
    case (Some n)
    then have "p = dir_prefix dir @ n" by (simp add: child_name_iff)
    with Cons.prems x have "(dir_prefix dir @ n, nd) \<notin> set nodes" for nd
      by (auto dest: in_set_zipE) (metis fst_conv image_eqI)
    then have "n \<notin> fst ` set (child_entries dir nodes)"
      by (auto simp: set_child_entries)
    with Cons Some show ?thesis by (simp add: step)
  qed
qed

lemma distinct_dir_entries:
  assumes "fs_ok fs"
  shows "distinct (map fst (dir_entries fs dir))"
proof -
  have "mset (map fst (dir_entries fs dir)) = mset (map fst (child_entries dir (fs_nodes fs)))"
    by (simp add: dir_entries_def)
  then show ?thesis
    using assms distinct_child_entries mset_eq_imp_distinct_iff
    unfolding fs_ok_def gm_ok_def by blast
qed

lemma write_file_ok: "fs_ok fs \<Longrightarrow> fs_ok (snd (write_file p b fs))"
  by (simp add: write_file_def fs_ok_def split: write_fault.split)

lemma rename_file_ok: "fs_ok fs \<Longrightarrow> fs_ok (snd (rename_file p q fs))"
  by (simp add: rename_file_def fs_ok_def gomap_simps split: option.split)

lemma remove_file_ok: "fs_ok fs \<Longrightarrow> fs_ok (snd (remove_file p fs))"
  by (simp add: remove_file_def fs_ok_def gomap_simps split: option.split)

end
