(* ===== verification/Config_Files.thy ===== *)
theory Config_Files
  imports Config_Site Go_Files
begin

section \<open>Loading, saving and deleting configuration files\<close>

text \<open>
  \<open>LoadGlobal\<close>, \<open>LoadSites\<close>, \<open>SaveSite\<close> and \<open>DeleteSite\<close>. The YAML
  library is not part of the repository: it is the parameter \<open>yaml_lib\<close>, and what
  the round trips need of it is the hypothesis \<open>yaml_roundtrip\<close>, its documented
  behaviour on a struct whose \<open>Filename\<close> field is excluded by its tag. The sort by
  domain is the stable one; on pairwise different domains every sort agrees with it.
\<close>

record yaml_lib =
  y_read_site :: "string \<Rightarrow> site option"
  y_write_site :: "site \<Rightarrow> string option"
  y_read_global :: "string \<Rightarrow> global_config option"

definition yaml_roundtrip :: "yaml_lib \<Rightarrow> bool" where
  "yaml_roundtrip Y \<longleftrightarrow>
     (\<forall>s b. y_write_site Y s = Some b \<longrightarrow> y_read_site Y b = Some (s\<lparr>s_filename := []\<rparr>))"

subsection \<open>Loading\<close>

datatype file_error = Unreadable | Bad_Yaml | Invalid_Site site_error

datatype load_error = Read_Dir_Failed | Site_Failed string file_error

datatype global_error = Global_Unreadable string | Global_Bad_Yaml string

definition load_global :: "yaml_lib \<Rightarrow> fsys \<Rightarrow> string \<Rightarrow> global_error + global_config" where
  "load_global Y fs data_dir =
     (let path = join_path data_dir ''config.yml''
      in case read_file fs path of
           None \<Rightarrow> Inl (Global_Unreadable path)
         | Some b \<Rightarrow>
             (case y_read_global Y b of
                None \<Rightarrow> Inl (Global_Bad_Yaml path)
              | Some g \<Rightarrow> Inr (apply_defaults g)))"

definition load_site_file :: "yaml_lib \<Rightarrow> fsys \<Rightarrow> string \<Rightarrow> file_error + site" where
  "load_site_file Y fs path =
     (case read_file fs path of
        None \<Rightarrow> Inl Unreadable
      | Some b \<Rightarrow>
          (case y_read_site Y b of
             None \<Rightarrow> Inl Bad_Yaml
           | Some s0 \<Rightarrow>
               (let s = s0\<lparr>s_filename := base_name path\<rparr>
                in case validate s of Some e \<Rightarrow> Inl (Invalid_Site e) | None \<Rightarrow> Inr s)))"

definition site_file_name :: "string \<Rightarrow> bool" where
  "site_file_name n \<longleftrightarrow> has_suffix ''.yml'' n \<or> has_suffix ''.yaml'' n"

fun load_entries ::
  "yaml_lib \<Rightarrow> fsys \<Rightarrow> string \<Rightarrow> (string \<times> bool) list \<Rightarrow> site list \<times> load_error list" where
  "load_entries Y fs dir [] = ([], [])"
| "load_entries Y fs dir ((name, is_dir) # es) =
     (let (sites, errs) = load_entries Y fs dir es
      in if is_dir \<or> \<not> site_file_name name then (sites, errs)
         else (case load_site_file Y fs (join_path dir name) of
                 Inl e \<Rightarrow> (sites, Site_Failed name e # errs)
               | Inr s \<Rightarrow> (s # sites, errs)))"

definition load_sites :: "yaml_lib \<Rightarrow> fsys \<Rightarrow> string \<Rightarrow> site list \<times> load_error list" where
  "load_sites Y fs dir =
     (case read_dir fs dir of
        None \<Rightarrow> ([], [Read_Dir_Failed])
      | Some es \<Rightarrow>
          (let (sites, errs) = load_entries Y fs dir es in (sort_key s_domain sites, errs)))"

subsection \<open>Saving and deleting\<close>

datatype save_error = Save_Invalid site_error | Marshal_Failed | Write_Failed | Rename_Failed

definition sanitize_filename :: "string \<Rightarrow> string" where
  "sanitize_filename d =
     replace_all ''..'' ''_''
       (replace_all [CHR 0x5C] ''_'' (replace_all ''/'' ''_'' (to_lower d)))"

definition site_file :: "site \<Rightarrow> string" where
  "site_file s =
     (if s_filename s = [] then sanitize_filename (s_domain s) @ ''.yml'' else s_filename s)"

text \<open>The write to a temporary file and the rename over the target.\<close>

definition commit_file :: "string \<Rightarrow> string \<Rightarrow> fsys \<Rightarrow> save_error option \<times> fsys" where
  "commit_file path b fs =
     (let tmp = path @ ''.tmp'';
          (written, fs1) = write_file tmp b fs
      in if \<not> written then (Some Write_Failed, fs1)
         else (let (renamed, fs2) = rename_file tmp path fs1
               in (if renamed then None else Some Rename_Failed, fs2)))"

definition save_site :: "yaml_lib \<Rightarrow> string \<Rightarrow> site \<Rightarrow> fsys \<Rightarrow> (save_error + string) \<times> fsys" where
  "save_site Y dir s fs =
     (case validate s of
        Some e \<Rightarrow> (Inl (Save_Invalid e), fs)
      | None \<Rightarrow>
          (let path = join_path dir (site_file s)
           in case y_write_site Y s of
                None \<Rightarrow> (Inl Marshal_Failed, fs)
              | Some b \<Rightarrow>
                  (case commit_file path b fs of
                     (Some e, fs1) \<Rightarrow> (Inl e, fs1)
                   | (None, fs1) \<Rightarrow> (Inr path, fs1))))"

datatype delete_error = Invalid_Filename | Remove_Failed

definition delete_site :: "string \<Rightarrow> string \<Rightarrow> fsys \<Rightarrow> delete_error option \<times> fsys" where
  "delete_site dir filename fs =
     (if filename = [] \<or> contains_any [CHR ''/'', CHR 0x5C] filename
      then (Some Invalid_Filename, fs)
      else (let (removed, fs1) = remove_file (join_path dir filename) fs
            in (if removed then None else Some Remove_Failed, fs1)))"

subsection \<open>What a load returns\<close>

lemma set_load_entries:
  "s \<in> set (fst (load_entries Y fs dir es)) \<longleftrightarrow>
     (\<exists>n. (n, False) \<in> set es \<and> site_file_name n \<and> load_site_file Y fs (join_path dir n) = Inr s)"
  by (induction Y fs dir es rule: load_entries.induct)
    (auto simp: Let_def split: sum.split prod.splits)

lemma load_site_file_Inr:
  assumes "regular_name n" "dir \<noteq> []"
  shows "load_site_file Y fs (join_path dir n) = Inr s \<longleftrightarrow>
    (\<exists>b s0. read_file fs (join_path dir n) = Some b \<and> y_read_site Y b = Some s0 \<and>
       site_ok s0 \<and> s = s0\<lparr>s_filename := n\<rparr>)"
proof -
  have "site_ok (s0\<lparr>s_filename := n\<rparr>) \<longleftrightarrow> site_ok s0" for s0
    by (simp add: site_ok_def)
  then have "(case validate (s0\<lparr>s_filename := n\<rparr>) of Some e \<Rightarrow> Inl (Invalid_Site e)
        | None \<Rightarrow> Inr (s0\<lparr>s_filename := n\<rparr>)) = Inr s \<longleftrightarrow> site_ok s0 \<and> s = s0\<lparr>s_filename := n\<rparr>" for s0
    using validate_None_iff [of "s0\<lparr>s_filename := n\<rparr>"] by (auto split: option.split)
  then show ?thesis
    by (simp add: load_site_file_def base_name_join [OF assms] Let_def split: option.split)
qed

lemma read_dir_SomeD: "read_dir fs dir = Some es \<Longrightarrow> es = dir_entries fs dir"
  by (auto simp: read_dir_def split: if_splits)

lemma set_load_sites:
  assumes "fs_ok fs" "dir \<noteq> []" "read_dir fs dir \<noteq> None"
  shows "s \<in> set (fst (load_sites Y fs dir)) \<longleftrightarrow>
    (\<exists>n b s0. regular_name n \<and> site_file_name n \<and> read_file fs (join_path dir n) = Some b \<and>
       y_read_site Y b = Some s0 \<and> site_ok s0 \<and> s = s0\<lparr>s_filename := n\<rparr>)"
proof -
  obtain es where es: "read_dir fs dir = Some es" using assms(3) by blast
  have entry: "(n, False) \<in> set es \<longleftrightarrow> regular_name n \<and>
      (\<exists>b. gm_get (fs_nodes fs) (join_path dir n) = Some (FFile b))" for n
    using set_dir_entries [OF assms(1,2)] read_dir_SomeD [OF es]
    by (auto, metis fnode.exhaust) 
  have readable: "read_file fs p = Some b \<Longrightarrow> \<exists>b. gm_get (fs_nodes fs) p = Some (FFile b)" for p b
    by (auto simp: read_file_def fs_file_def split: if_splits option.splits fnode.splits)
  have "s \<in> set (fst (load_sites Y fs dir)) \<longleftrightarrow>
      (\<exists>n. (n, False) \<in> set es \<and> site_file_name n \<and> load_site_file Y fs (join_path dir n) = Inr s)"
    by (simp add: load_sites_def es set_load_entries case_prod_beta)
  then show ?thesis
    using entry readable load_site_file_Inr [OF _ assms(2)] by blast
qed

lemma sorted_load_sites: "sorted (map s_domain (fst (load_sites Y fs dir)))"
  by (simp add: load_sites_def split: option.split prod.split)

lemma load_entries_filename:
  assumes "dir \<noteq> []" "list_all (\<lambda>(n, d). regular_name n) es" "distinct (map fst es)"
  shows "distinct (map s_filename (fst (load_entries Y fs dir es)))
    \<and> set (map s_filename (fst (load_entries Y fs dir es))) \<subseteq> fst ` set es"
  using assms
proof (induction Y fs dir es rule: load_entries.induct)
  case (1 Y fs dir)
  then show ?case by simp
next
  case (2 Y fs dir name is_dir es)
  obtain ss er where r: "load_entries Y fs dir es = (ss, er)" by (cases "load_entries Y fs dir es")
  with 2 have IH: "distinct (map s_filename ss)" "s_filename ` set ss \<subseteq> fst ` set es"
    by auto
  from 2(3) have reg: "regular_name name" by simp
  have new: "s_filename s = name" if "load_site_file Y fs (join_path dir name) = Inr s" for s
    using that load_site_file_Inr [OF reg 2(2)] by auto
  have "name \<notin> fst ` set es" using 2(4) by auto
  with IH new r show ?case
    by (auto simp: Let_def split: sum.split)
qed

lemma distinct_load_sites:
  assumes "fs_ok fs" "dir \<noteq> []"
  shows "distinct (map s_filename (fst (load_sites Y fs dir)))"
proof (cases "read_dir fs dir")
  case None
  then show ?thesis by (simp add: load_sites_def)
next
  case (Some es)
  let ?ss = "fst (load_entries Y fs dir es)"
  have es: "es = dir_entries fs dir" by (rule read_dir_SomeD [OF Some])
  have "list_all (\<lambda>(n, d). regular_name n) es"
    using set_dir_entries [OF assms] es by (auto simp: list_all_iff)
  with load_entries_filename [OF assms(2)] distinct_dir_entries [OF assms(1)]
  have "distinct (map s_filename ?ss)" using es by blast
  moreover have "mset (map s_filename (sort_key s_domain ?ss)) = mset (map s_filename ?ss)"
    by simp
  ultimately have "distinct (map s_filename (sort_key s_domain ?ss))"
    using mset_eq_imp_distinct_iff by blast
  then show ?thesis
    by (simp add: load_sites_def Some case_prod_beta)
qed

text \<open>Every candidate file is reported, as a site or as an error: none is lost.\<close>

lemma length_load_entries:
  "length (fst (load_entries Y fs dir es)) + length (snd (load_entries Y fs dir es)) =
     length (filter (\<lambda>e. \<not> snd e \<and> site_file_name (fst e)) es)"
  by (induction Y fs dir es rule: load_entries.induct)
    (auto simp: Let_def split: sum.split prod.splits)

text \<open>On pairwise different domains every sorted arrangement of the sites is the model's.\<close>

lemma sort_by_domain_unique:
  assumes "distinct (map s_domain xs)" "mset ys = mset xs" "sorted (map s_domain ys)"
  shows "ys = sort_key s_domain xs"
proof -
  have "inj_on s_domain (set xs)" using assms(1) by (simp add: distinct_map)
  then show ?thesis
    using sort_key_inj_key_eq [of xs ys s_domain] assms(2,3) by simp
qed

subsection \<open>Names of new site files\<close>

lemma sanitize_filename_bytes:
  "CHR ''/'' \<notin> set (sanitize_filename d)" "CHR 0x5C \<notin> set (sanitize_filename d)"
proof -
  let ?a = "replace_all ''/'' ''_'' (to_lower d)"
  let ?b = "replace_all [CHR 0x5C] ''_'' ?a"
  have "CHR ''/'' \<notin> set ?a" by (auto simp: replace_all_byte)
  moreover have "CHR 0x5C \<notin> set ?b" by (auto simp: replace_all_byte [of "CHR 0x5C"])
  moreover have "set ?b \<subseteq> set ?a \<union> set ''_''" by (rule set_replace_all)
  moreover have "set (sanitize_filename d) \<subseteq> set ?b \<union> set ''_''"
    unfolding sanitize_filename_def by (rule set_replace_all)
  ultimately show "CHR ''/'' \<notin> set (sanitize_filename d)" "CHR 0x5C \<notin> set (sanitize_filename d)"
    by auto
qed

lemma sanitize_filename_no_dots: "\<not> contains ''..'' (sanitize_filename d)"
  unfolding sanitize_filename_def by (rule replace_all_double) simp

lemma site_file_regular:
  assumes "s_filename s = [] \<or> regular_name (s_filename s) \<and> site_file_name (s_filename s)"
  shows "regular_name (site_file s)" "site_file_name (site_file s)"
  using assms sanitize_filename_bytes(1) [of "s_domain s"]
  by (auto simp: site_file_def regular_name_def site_file_name_def)

subsection \<open>What a save and a delete change\<close>

lemma tmp_neq: "p @ ''.tmp'' \<noteq> p"
  by simp

lemma write_file_get:
  "q \<noteq> p \<Longrightarrow> gm_get (fs_nodes (snd (write_file p b fs))) q = gm_get (fs_nodes fs) q"
  "fst (write_file p b fs) \<Longrightarrow> gm_get (fs_nodes (snd (write_file p b fs))) p = Some (FFile b)"
  by (auto simp: write_file_def split: write_fault.split)

lemma write_file_more:
  "fs_unreadable (snd (write_file p b fs)) = fs_unreadable fs"
  by (simp add: write_file_def split: write_fault.split)

lemma rename_file_more:
  "fs_unreadable (snd (rename_file p q fs)) = fs_unreadable fs"
  by (simp add: rename_file_def split: option.split)

lemma rename_file_get:
  assumes "fs_ok fs"
  shows "r \<noteq> p \<Longrightarrow> r \<noteq> q \<Longrightarrow> gm_get (fs_nodes (snd (rename_file p q fs))) r = gm_get (fs_nodes fs) r"
    "\<not> fst (rename_file p q fs) \<Longrightarrow> snd (rename_file p q fs) = fs"
    "fst (rename_file p q fs) \<Longrightarrow> p \<noteq> q \<Longrightarrow>
       gm_get (fs_nodes (snd (rename_file p q fs))) p = None \<and>
       gm_get (fs_nodes (snd (rename_file p q fs))) q = gm_get (fs_nodes fs) p"
  using assms by (auto simp: rename_file_def fs_ok_def gomap_simps split: option.splits if_splits)

lemma commit_file_result:
  assumes "fs_ok fs" "commit_file q b fs = (e, fs')"
  shows "p \<noteq> q @ ''.tmp'' \<Longrightarrow> gm_get (fs_nodes fs') p =
      (if e = None \<and> p = q then Some (FFile b) else gm_get (fs_nodes fs) p)"
    and "e = None \<Longrightarrow> gm_get (fs_nodes fs') (q @ ''.tmp'') = None"
    and "fs_ok fs'" and "fs_unreadable fs' = fs_unreadable fs"
proof -
  let ?t = "q @ ''.tmp''"
  obtain w fs1 where w: "write_file ?t b fs = (w, fs1)" by (cases "write_file ?t b fs")
  obtain m fs2 where m: "rename_file ?t q fs1 = (m, fs2)" by (cases "rename_file ?t q fs1")
  have e: "e = (if \<not> w then Some Write_Failed else if m then None else Some Rename_Failed)"
    and fs': "fs' = (if w then fs2 else fs1)"
    using assms(2) w m by (auto simp: commit_file_def split: if_splits)
  have ok1: "fs_ok fs1" using write_file_ok [OF assms(1), of ?t b] w by simp
  have ok2: "fs_ok fs2" using rename_file_ok [OF ok1, of ?t q] m by simp
  show "fs_ok fs'" using ok1 ok2 fs' by simp
  show "fs_unreadable fs' = fs_unreadable fs"
    using write_file_more [of ?t b fs] rename_file_more [of ?t q fs1] w m fs' by simp
  have tmp: "w \<Longrightarrow> gm_get (fs_nodes fs1) ?t = Some (FFile b)"
    using write_file_get(2) [of ?t b fs] w by simp
  have ren: "m \<Longrightarrow> gm_get (fs_nodes fs2) ?t = None \<and> gm_get (fs_nodes fs2) q = gm_get (fs_nodes fs1) ?t"
    using rename_file_get(3) [OF ok1, of ?t q] m by simp
  have unren: "\<not> m \<Longrightarrow> fs2 = fs1"
    using rename_file_get(2) [OF ok1, of ?t q] m by simp
  show "e = None \<Longrightarrow> gm_get (fs_nodes fs') ?t = None"
    using e fs' ren by (auto split: if_splits)
  assume p: "p \<noteq> ?t"
  have get1: "gm_get (fs_nodes fs1) p = gm_get (fs_nodes fs) p"
    using write_file_get(1) [OF p, of b fs] w by simp
  have get2: "p \<noteq> q \<Longrightarrow> gm_get (fs_nodes fs2) p = gm_get (fs_nodes fs1) p"
    using rename_file_get(1) [OF ok1 p, of q] m by simp
  show "gm_get (fs_nodes fs') p =
      (if e = None \<and> p = q then Some (FFile b) else gm_get (fs_nodes fs) p)"
    using e fs' get1 get2 tmp ren unren by (cases w; cases m; cases "p = q") auto
qed

text \<open>
  The save in one statement: at every path but the temporary one the node is the old one,
  unless the save succeeded and the path is the target, which then holds the new bytes.
\<close>

lemma save_site_cases:
  assumes "save_site Y dir s fs = (r, fs')"
  obtains (failed) e where "r = Inl e" "fs' = fs"
  | (committed) b e where "site_ok s" "y_write_site Y s = Some b"
      "commit_file (join_path dir (site_file s)) b fs = (e, fs')"
      "r = (case e of None \<Rightarrow> Inr (join_path dir (site_file s)) | Some x \<Rightarrow> Inl x)"
proof (cases "validate s")
  case (Some e)
  with assms failed show ?thesis by (auto simp: save_site_def)
next
  case None
  then have ok: "site_ok s" by (simp add: validate_None_iff)
  show ?thesis
  proof (cases "y_write_site Y s")
    case (Some b)
    obtain e fs1 where "commit_file (join_path dir (site_file s)) b fs = (e, fs1)" by fastforce
    with assms None Some ok committed show ?thesis
      by (cases e) (auto simp: save_site_def Let_def)
  qed (use assms None failed in \<open>auto simp: save_site_def Let_def\<close>)
qed

lemma save_site_nodes:
  assumes "fs_ok fs" "save_site Y dir s fs = (r, fs')" "p \<noteq> join_path dir (site_file s) @ ''.tmp''"
  shows "gm_get (fs_nodes fs') p =
    (if r = Inr p then map_option FFile (y_write_site Y s) else gm_get (fs_nodes fs) p)"
  using assms(2)
proof (cases rule: save_site_cases)
  case failed
  then show ?thesis by simp
next
  case (committed b e)
  then show ?thesis
    using commit_file_result(1) [OF assms(1) committed(3) assms(3)] by (cases e) auto
qed

lemma save_site_Inr:
  assumes "fs_ok fs" "save_site Y dir s fs = (Inr q, fs')"
  shows "q = join_path dir (site_file s)" "site_ok s" "\<exists>b. y_write_site Y s = Some b"
    "gm_get (fs_nodes fs') (q @ ''.tmp'') = None"
proof -
  show "q = join_path dir (site_file s)" "site_ok s" "\<exists>b. y_write_site Y s = Some b"
    "gm_get (fs_nodes fs') (q @ ''.tmp'') = None"
    using assms(2)
    by (cases rule: save_site_cases; auto dest: commit_file_result(2) [OF assms(1)] split: option.splits)+
qed

lemma save_site_more:
  assumes "fs_ok fs" "save_site Y dir s fs = (r, fs')"
  shows "fs_ok fs'" "fs_unreadable fs' = fs_unreadable fs"
  using assms(2) commit_file_result(3,4) [OF assms(1)] assms(1)
  by (cases rule: save_site_cases; blast)+

text \<open>A directory stays readable when entries below it change.\<close>

lemma join_path_neq_dir:
  assumes "regular_name n" "dir \<noteq> []"
  shows "join_path dir n \<noteq> clean_path dir"
proof (cases "path_comps dir = []")
  case True
  with assms show ?thesis
    by (auto simp: join_path_regular dir_prefix_def clean_path_def regular_name_def)
next
  case False
  let ?b = "join_with ''/'' (path_comps dir)"
  have "length (join_path dir n) > length (clean_path dir)"
    using False assms(1)
    by (auto simp: join_path_regular [OF assms] dir_prefix_def clean_path_def regular_name_def Let_def)
  then show ?thesis by auto
qed

lemma read_dir_other:
  assumes "fs_unreadable fs' = fs_unreadable fs"
    "gm_get (fs_nodes fs') (clean_path dir) = gm_get (fs_nodes fs) (clean_path dir)"
  shows "read_dir fs' dir \<noteq> None \<longleftrightarrow> read_dir fs dir \<noteq> None"
  using assms by (simp add: read_dir_def)

lemma remove_file_result:
  assumes "fs_ok fs" "remove_file q fs = (b, fs')"
  shows "p \<noteq> q \<Longrightarrow> gm_get (fs_nodes fs') p = gm_get (fs_nodes fs) p"
    and "gm_get (fs_nodes fs') q = (if b then None else gm_get (fs_nodes fs) q)"
    and "fs_ok fs'" and "fs_unreadable fs' = fs_unreadable fs"
  using assms
  by (auto simp: remove_file_def fs_ok_def gomap_simps split: option.splits if_splits)

lemma delete_site_cases:
  assumes "delete_site dir n fs = (r, fs')"
  obtains (refused) "r = Some Invalid_Filename" "fs' = fs"
  | (removed) b where "remove_file (join_path dir n) fs = (b, fs')"
      "r = (if b then None else Some Remove_Failed)"
  using assms by (auto simp: delete_site_def Let_def split: if_splits prod.splits)

subsection \<open>Sample values for the witnesses\<close>

definition sample_site :: site where
  "sample_site = zero_site\<lparr>s_domain := ''a.com'', s_upstreams := [''h:80''], s_enabled := True\<rparr>"

text \<open>A YAML library that knows one document.\<close>

definition sample_yaml :: yaml_lib where
  "sample_yaml =
     \<lparr>y_read_site = (\<lambda>b. if b = ''S'' then Some sample_site else None),
      y_write_site = (\<lambda>s. if s\<lparr>s_filename := []\<rparr> = sample_site then Some ''S'' else None),
      y_read_global = (\<lambda>b. None)\<rparr>"

definition sample_fs :: fsys where
  "sample_fs =
     \<lparr>fs_nodes = [(''/d'', FDir), (''/d/a.yml'', FFile ''S''), (''/d/b.yml'', FFile ''?'')],
      fs_unreadable = (\<lambda>_. False), fs_write_fault = (\<lambda>_. Write_OK), fs_locked = (\<lambda>_. False)\<rparr>"

lemma sample_fs_ok: "fs_ok sample_fs" "gm_get (fs_nodes sample_fs) (clean_path ''/d'') = Some FDir"
  by code_simp+

lemma sample_read_dir: "read_dir sample_fs ''/d'' \<noteq> None"
  using sample_fs_ok(2) by (simp add: read_dir_def) (simp add: sample_fs_def)

lemma sample_site_ok: "site_ok sample_site"
  by (simp add: validate_None_iff [symmetric]) code_simp

lemma sample_yaml_roundtrip: "yaml_roundtrip sample_yaml"
  by (auto simp: yaml_roundtrip_def sample_yaml_def split: if_splits)

subsection \<open>Properties\<close>

text \<open>
  C25: a load returns exactly the sites of the valid site files of the directory, each with
  the name of its file, sorted by domain and without two sites of one file; every
  candidate file is accounted for as a site or as an error, so that a broken file takes no
  other site down.
\<close>

theorem load_sites_exact:
  assumes "fs_ok fs" "dir \<noteq> []" "read_dir fs dir = Some es"
  shows "(s \<in> set (fst (load_sites Y fs dir)) \<longleftrightarrow>
      (\<exists>n b s0. regular_name n \<and> site_file_name n \<and> read_file fs (join_path dir n) = Some b \<and>
         y_read_site Y b = Some s0 \<and> site_ok s0 \<and> s = s0\<lparr>s_filename := n\<rparr>)) \<and>
    sorted (map s_domain (fst (load_sites Y fs dir))) \<and>
    distinct (map s_filename (fst (load_sites Y fs dir))) \<and>
    length (fst (load_sites Y fs dir)) + length (snd (load_sites Y fs dir)) =
      length (filter (\<lambda>e. \<not> snd e \<and> site_file_name (fst e)) es)"
proof (intro conjI)
  show "s \<in> set (fst (load_sites Y fs dir)) \<longleftrightarrow>
      (\<exists>n b s0. regular_name n \<and> site_file_name n \<and> read_file fs (join_path dir n) = Some b \<and>
         y_read_site Y b = Some s0 \<and> site_ok s0 \<and> s = s0\<lparr>s_filename := n\<rparr>)"
    by (rule set_load_sites) (use assms in auto)
  show "sorted (map s_domain (fst (load_sites Y fs dir)))" by (rule sorted_load_sites)
  show "distinct (map s_filename (fst (load_sites Y fs dir)))"
    by (rule distinct_load_sites [OF assms(1,2)])
  show "length (fst (load_sites Y fs dir)) + length (snd (load_sites Y fs dir)) =
      length (filter (\<lambda>e. \<not> snd e \<and> site_file_name (fst e)) es)"
    using length_load_entries [of Y fs dir es] assms(3)
    by (simp add: load_sites_def case_prod_beta)
qed

theorem load_sites_exact_witness:
  "sample_site\<lparr>s_filename := ''a.yml''\<rparr> \<in> set (fst (load_sites sample_yaml sample_fs ''/d'')) \<and>
   length (fst (load_sites sample_yaml sample_fs ''/d'')) +
     length (snd (load_sites sample_yaml sample_fs ''/d'')) = 2"
proof -
  obtain es where es: "read_dir sample_fs ''/d'' = Some es"
    using sample_read_dir by blast
  have "\<exists>n b s0. regular_name n \<and> site_file_name n \<and>
      read_file sample_fs (join_path ''/d'' n) = Some b \<and> y_read_site sample_yaml b = Some s0 \<and>
      site_ok s0 \<and> sample_site\<lparr>s_filename := ''a.yml''\<rparr> = s0\<lparr>s_filename := n\<rparr>"
    by (rule exI [of _ "''a.yml''"], rule exI [of _ "''S''"], rule exI [of _ sample_site],
        intro conjI, code_simp, code_simp, code_simp, simp add: sample_yaml_def, rule sample_site_ok, simp)
  moreover have "length (filter (\<lambda>e. \<not> snd e \<and> site_file_name (fst e)) es) = 2"
  proof -
    have "length (filter (\<lambda>e. \<not> snd e \<and> site_file_name (fst e)) (dir_entries sample_fs ''/d'')) = 2"
      by code_simp
    then show ?thesis using read_dir_SomeD [OF es] by simp
  qed
  ultimately show ?thesis
    using load_sites_exact [OF sample_fs_ok(1) _ es, of "sample_site\<lparr>s_filename := ''a.yml''\<rparr>" sample_yaml]
    by simp
qed

text \<open>
  C24: saving is atomic for readers of the directory. Whatever fails, and also on success,
  no path but the temporary one changes unless the save succeeds, and then only the target
  changes: it holds the complete new document and the temporary file is gone.
\<close>

theorem save_site_atomic:
  assumes "fs_ok fs" "save_site Y dir s fs = (r, fs')"
  shows "(p \<noteq> join_path dir (site_file s) @ ''.tmp'' \<longrightarrow>
      gm_get (fs_nodes fs') p =
        (if r = Inr p then map_option FFile (y_write_site Y s) else gm_get (fs_nodes fs) p)) \<and>
    (\<forall>q. r = Inr q \<longrightarrow> q = join_path dir (site_file s) \<and> site_ok s \<and>
       (\<exists>b. gm_get (fs_nodes fs') q = Some (FFile b)) \<and> gm_get (fs_nodes fs') (q @ ''.tmp'') = None)"
proof (intro conjI impI allI)
  assume "p \<noteq> join_path dir (site_file s) @ ''.tmp''"
  then show "gm_get (fs_nodes fs') p =
      (if r = Inr p then map_option FFile (y_write_site Y s) else gm_get (fs_nodes fs) p)"
    by (rule save_site_nodes [OF assms])
next
  fix q assume r: "r = Inr q"
  note q = save_site_Inr [OF assms(1) assms(2) [unfolded r]]
  from q(1,2,4) show "q = join_path dir (site_file s)" "site_ok s"
    "gm_get (fs_nodes fs') (q @ ''.tmp'') = None" by simp_all
  show "\<exists>b. gm_get (fs_nodes fs') q = Some (FFile b)"
    using q(1,3) save_site_nodes [OF assms, of q] r by auto
qed

theorem save_site_atomic_witness:
  "\<exists>fs'. save_site sample_yaml ''/d'' sample_site sample_fs = (Inr ''/d/a.com.yml'', fs') \<and>
     gm_get (fs_nodes fs') ''/d/a.yml'' = Some (FFile ''S'') \<and>
     gm_get (fs_nodes fs') ''/d/a.com.yml.tmp'' = None"
proof -
  obtain r fs' where r: "save_site sample_yaml ''/d'' sample_site sample_fs = (r, fs')" by fastforce
  have "fst (save_site sample_yaml ''/d'' sample_site sample_fs) = Inr ''/d/a.com.yml''"
    by code_simp
  with r have inr: "r = Inr ''/d/a.com.yml''" by simp
  have paths: "''/d/a.yml'' \<noteq> join_path ''/d'' (site_file sample_site) @ ''.tmp''"
    "gm_get (fs_nodes sample_fs) ''/d/a.yml'' = Some (FFile ''S'')" by code_simp+
  with r inr save_site_atomic [OF sample_fs_ok(1) r, of "''/d/a.yml''"] show ?thesis by auto
qed

lemma saved_is_loaded:
  assumes "yaml_roundtrip Y" "fs_ok fs" "dir \<noteq> []" "read_dir fs dir \<noteq> None"
    and name: "s_filename s = [] \<or> regular_name (s_filename s) \<and> site_file_name (s_filename s)"
    and saved: "save_site Y dir s fs = (Inr q, fs')" and "\<not> fs_unreadable fs q"
    and tmp: "q @ ''.tmp'' \<noteq> clean_path dir"
  shows "s\<lparr>s_filename := site_file s\<rparr> \<in> set (fst (load_sites Y fs' dir))"
proof -
  note q = save_site_Inr [OF assms(2) saved] and more = save_site_more [OF assms(2) saved]
  note reg = site_file_regular [OF name]
  from q(3) obtain b where b: "y_write_site Y s = Some b" ..
  have "gm_get (fs_nodes fs') q = Some (FFile b)"
    using save_site_nodes [OF assms(2) saved, of q] q(1) b by simp
  then have read: "read_file fs' q = Some b"
    using assms(7) more(2) by (simp add: read_file_def fs_file_def)
  have "gm_get (fs_nodes fs') (clean_path dir) = gm_get (fs_nodes fs) (clean_path dir)"
    using save_site_nodes [OF assms(2) saved, of "clean_path dir"] tmp q(1)
      join_path_neq_dir [OF reg(1) assms(3)] by auto
  then have dir': "read_dir fs' dir \<noteq> None"
    using read_dir_other [OF more(2)] assms(4) by simp
  have "y_read_site Y b = Some (s\<lparr>s_filename := []\<rparr>)"
    using assms(1) b by (auto simp: yaml_roundtrip_def)
  moreover have "site_ok (s\<lparr>s_filename := []\<rparr>)" using q(2) by (simp add: site_ok_def)
  ultimately show ?thesis
    unfolding set_load_sites [OF more(1) assms(3) dir']
    using read reg q(1) by (intro exI [of _ "site_file s"] exI [of _ b] exI) auto
qed

text \<open>
  C23: what the admin UI saves is what the next load routes: after a successful save, the
  directory loads with the saved site under its file name, for a new site (whose name is
  derived from the domain) and for a loaded one.
\<close>

theorem save_then_load:
  assumes "yaml_roundtrip Y" "fs_ok fs" "dir \<noteq> []" "read_dir fs dir \<noteq> None"
    and name: "s_filename s = [] \<or> regular_name (s_filename s) \<and> site_file_name (s_filename s)"
    and saved: "save_site Y dir s fs = (Inr q, fs')" and "\<not> fs_unreadable fs q"
    and tmp: "q @ ''.tmp'' \<noteq> clean_path dir"
  shows "s\<lparr>s_filename := site_file s\<rparr> \<in> set (fst (load_sites Y fs' dir))"
  by (rule saved_is_loaded [OF assms])

theorem save_then_load_witness:
  "\<exists>fs'. save_site sample_yaml ''/d'' sample_site sample_fs = (Inr ''/d/a.com.yml'', fs') \<and>
     sample_site\<lparr>s_filename := ''a.com.yml''\<rparr> \<in> set (fst (load_sites sample_yaml fs' ''/d''))"
proof -
  obtain r fs' where r: "save_site sample_yaml ''/d'' sample_site sample_fs = (r, fs')" by fastforce
  have "fst (save_site sample_yaml ''/d'' sample_site sample_fs) = Inr ''/d/a.com.yml''"
    by code_simp
  with r have r': "save_site sample_yaml ''/d'' sample_site sample_fs = (Inr ''/d/a.com.yml'', fs')"
    by simp
  have f: "s_filename sample_site = []" "''/d/a.com.yml'' @ ''.tmp'' \<noteq> clean_path ''/d''"
    "site_file sample_site = ''a.com.yml''" by code_simp+
  have "\<not> fs_unreadable sample_fs ''/d/a.com.yml''" by (simp add: sample_fs_def)
  from save_then_load [OF sample_yaml_roundtrip sample_fs_ok(1) _ sample_read_dir _ r' this f(2)] f r'
  show ?thesis by auto
qed

text \<open>
  C34: deleting a site file by a plain name removes that site and nothing else: every other
  site of the directory is still loaded, and a refused or failed delete changes no file.
\<close>

theorem delete_site_exact:
  assumes "fs_ok fs" "dir \<noteq> []" "read_dir fs dir \<noteq> None" "regular_name n"
    and del: "delete_site dir n fs = (r, fs')"
  shows "set (fst (load_sites Y fs' dir)) =
    (if r = None then {s \<in> set (fst (load_sites Y fs dir)). s_filename s \<noteq> n}
     else set (fst (load_sites Y fs dir)))"
  using del
proof (cases rule: delete_site_cases)
  case refused
  then show ?thesis by simp
next
  case (removed b)
  note rem = remove_file_result [OF assms(1) removed(1)]
  have dir': "read_dir fs' dir \<noteq> None"
    using read_dir_other [OF rem(4)] rem(1) join_path_neq_dir [OF assms(4,2)] assms(3) by metis
  have other: "read_file fs' (join_path dir m) = read_file fs (join_path dir m)"
    if "regular_name m" "m \<noteq> n" for m
    using rem(1) [of "join_path dir m"] rem(4) join_path_inj [OF that(1) assms(4,2)] that(2)
    by (simp add: read_file_def fs_file_def)
  have same: "read_file fs' (join_path dir n) = (if b then None else read_file fs (join_path dir n))"
    using rem(2,4) by (simp add: read_file_def fs_file_def)
  show ?thesis
    unfolding set_eq_iff mem_Collect_eq if_distrib [of "(\<in>) _"]
      set_load_sites [OF rem(3) assms(2) dir'] set_load_sites [OF assms(1-3)]
    using other same removed(2) by (auto split: if_splits) (metis option.distinct(1))+
qed

theorem delete_site_exact_witness:
  "\<exists>fs'. delete_site ''/d'' ''a.yml'' sample_fs = (None, fs') \<and>
     sample_site\<lparr>s_filename := ''a.yml''\<rparr> \<notin> set (fst (load_sites sample_yaml fs' ''/d''))"
proof -
  obtain r fs' where r: "delete_site ''/d'' ''a.yml'' sample_fs = (r, fs')" by fastforce
  have "fst (delete_site ''/d'' ''a.yml'' sample_fs) = None" by code_simp
  with r have none: "r = None" by simp
  have "regular_name ''a.yml''" by code_simp
  from delete_site_exact [OF sample_fs_ok(1) _ sample_read_dir this r, of sample_yaml] none r
  show ?thesis by auto
qed

text \<open>
  The file name made for a new site stays inside the sites directory whatever the
  domain is: no separator, no parent reference, and the joined path is the directory's own
  entry of that name.
\<close>

lemma new_site_file_confined:
  assumes "dir \<noteq> []" "s_filename s = []"
  shows "CHR ''/'' \<notin> set (site_file s) \<and> CHR 0x5C \<notin> set (site_file s) \<and>
    \<not> contains ''..'' (sanitize_filename (s_domain s)) \<and>
    join_path dir (site_file s) = dir_prefix dir @ site_file s \<and>
    site_file_name (site_file s)"
  using sanitize_filename_bytes [of "s_domain s"] sanitize_filename_no_dots
    site_file_regular [of s] join_path_regular [of "site_file s" dir] assms
  by (auto simp: site_file_def)


end
