(* ===== verification/Config_Store.thy ===== *)
theory Config_Store
  imports Config_Files
begin

section \<open>The site store: index, lookup, snapshot, domain list\<close>

text \<open>
  \<open>Store\<close> of \<open>internal/config/config.go\<close>. A Go pointer to a site is the
  position of the site in the current list, so that the index \<open>byDomain\<close> and the
  list share their sites as they do in the code: a change of a site through the list is
  seen through the index. Each method runs under the store's lock and is one step.
\<close>

record store =
  st_sites :: "site list"
  st_by_domain :: "(string, nat) gomap"

definition new_store :: store where
  "new_store = \<lparr>st_sites = [], st_by_domain = gm_empty\<rparr>"

text \<open>The index built by \<open>Replace\<close>: later sites and later aliases overwrite.\<close>

definition index_site :: "nat \<Rightarrow> site \<Rightarrow> (string, nat) gomap \<Rightarrow> (string, nat) gomap" where
  "index_site i s idx =
     (if \<not> s_enabled s then idx
      else fold (\<lambda>d. gm_put (to_lower d) i) (all_domains s) idx)"

fun build_index :: "nat \<Rightarrow> site list \<Rightarrow> (string, nat) gomap \<Rightarrow> (string, nat) gomap" where
  "build_index i [] idx = idx"
| "build_index i (s # ss) idx = build_index (Suc i) ss (index_site i s idx)"

definition replace_sites :: "site list \<Rightarrow> store \<Rightarrow> store" where
  "replace_sites sites st = st\<lparr>st_sites := sites, st_by_domain := build_index 0 sites gm_empty\<rparr>"

definition strip_port :: "string \<Rightarrow> string" where
  "strip_port host =
     (case last_index_byte (CHR '':'') host of None \<Rightarrow> host | Some i \<Rightarrow> take i host)"

definition lookup_index :: "store \<Rightarrow> string \<Rightarrow> nat option" where
  "lookup_index st host = gm_get (st_by_domain st) (to_lower (strip_port host))"

definition lookup_site :: "store \<Rightarrow> string \<Rightarrow> site option" where
  "lookup_site st host = map_option (\<lambda>i. st_sites st ! i) (lookup_index st host)"

definition snapshot_sites :: "store \<Rightarrow> site list" where
  "snapshot_sites st = st_sites st"

definition store_domains :: "store \<Rightarrow> string list" where
  "store_domains st = sort (gm_keys (st_by_domain st))"

subsection \<open>The abstract routing table\<close>

text \<open>
  What the store promises: a host is served by the last enabled site of the list that
  has it, case-insensitively and without its port, among its domain and aliases.
\<close>

definition serves :: "site \<Rightarrow> string \<Rightarrow> bool" where
  "serves s h \<longleftrightarrow> s_enabled s \<and> h \<in> to_lower ` set (all_domains s)"

definition route_spec :: "site list \<Rightarrow> string \<Rightarrow> site option" where
  "route_spec sites host = find (\<lambda>s. serves s (to_lower (strip_port host))) (rev sites)"

lemma fold_put_const:
  "gm_get (fold (\<lambda>d. gm_put (f d) i) ds m) x = (if x \<in> f ` set ds then Some i else gm_get m x)"
  by (induction ds arbitrary: m) auto

lemma fold_put_const_ok: "gm_ok m \<Longrightarrow> gm_ok (fold (\<lambda>d. gm_put (f d) i) ds m)"
  by (induction ds arbitrary: m) auto

lemma index_site_get:
  "gm_get (index_site i s idx) x = (if serves s x then Some i else gm_get idx x)"
  by (simp add: index_site_def serves_def fold_put_const)

lemma build_index_ok: "gm_ok m \<Longrightarrow> gm_ok (build_index i ss m)"
  by (induction i ss m rule: build_index.induct) (simp_all add: index_site_def fold_put_const_ok)

lemma build_index_get:
  "gm_get (build_index k ss m) x =
     (case last_pos (\<lambda>s. serves s x) ss of None \<Rightarrow> gm_get m x | Some i \<Rightarrow> Some (k + i))"
  by (induction k ss m rule: build_index.induct) (auto simp: index_site_get split: option.split)

subsection \<open>The interface of the store\<close>

locale host_router =
  fixes replace :: "site list \<Rightarrow> 'st \<Rightarrow> 'st"
    and lookup :: "'st \<Rightarrow> string \<Rightarrow> site option"
    and sites_of :: "'st \<Rightarrow> site list"
  assumes lookup_replace: "lookup (replace ss st) h = route_spec ss h"
    and sites_replace: "sites_of (replace ss st) = ss"
begin

lemma lookup_Some:
  "lookup (replace ss st) h = Some s \<Longrightarrow> s \<in> set ss \<and> serves s (to_lower (strip_port h))"
  unfolding lookup_replace route_spec_def by (auto dest: find_SomeD)

lemma lookup_None:
  "lookup (replace ss st) h = None \<longleftrightarrow> (\<forall>s \<in> set ss. \<not> serves s (to_lower (strip_port h)))"
  unfolding lookup_replace route_spec_def by (auto simp: find_None_iff)

lemma lookup_unique:
  assumes "s \<in> set ss" "serves s (to_lower (strip_port h))"
    "\<And>t. t \<in> set ss \<Longrightarrow> serves t (to_lower (strip_port h)) \<Longrightarrow> t = s"
  shows "lookup (replace ss st) h = Some s"
  unfolding lookup_replace route_spec_def 
  by (rule find_rev_unique [where P = "\<lambda>s. serves s (to_lower (strip_port h))", OF assms])

lemma replace_replace: "lookup (replace ss (replace ss' st)) h = lookup (replace ss st) h"
  by (simp add: lookup_replace)

end

lemma lookup_index_replace:
  "lookup_index (replace_sites ss st) h = last_pos (\<lambda>s. serves s (to_lower (strip_port h))) ss"
  by (simp add: lookup_index_def replace_sites_def build_index_get split: option.split)

interpretation store: host_router replace_sites lookup_site snapshot_sites
proof
  fix ss :: "site list" and st :: store and h :: string
  show "lookup_site (replace_sites ss st) h = route_spec ss h"
    by (simp add: lookup_site_def lookup_index_replace route_spec_def find_rev_last_pos)
      (simp add: replace_sites_def)
  show "snapshot_sites (replace_sites ss st) = ss"
    by (simp add: snapshot_sites_def replace_sites_def)
qed

subsection \<open>Invariant of the store\<close>

text \<open>The index has distinct keys and points into the list.\<close>

definition store_ok :: "store \<Rightarrow> bool" where
  "store_ok st \<longleftrightarrow>
     gm_ok (st_by_domain st) \<and>
     (\<forall>h i. gm_get (st_by_domain st) h = Some i \<longrightarrow> i < length (st_sites st))"

lemma store_ok_new: "store_ok new_store"
  by (simp add: store_ok_def new_store_def)

lemma store_ok_replace: "store_ok (replace_sites ss st)"
  by (auto simp: store_ok_def replace_sites_def build_index_ok build_index_get
      dest: last_pos_SomeD split: option.splits)

lemma strip_port_to_lower: "strip_port (to_lower h) = to_lower (strip_port h)"
proof -
  have eq: "lower_byte c = CHR '':'' \<longleftrightarrow> c = CHR '':''" for c
    using lower_byte_eq_iff [of "CHR '':''" c] by (auto simp: less_eq_char_def)
  have "last_index_byte (CHR '':'') (map lower_byte h) = last_index_byte (CHR '':'') h"
    by (induction h) (auto simp: eq split: option.split)
  then show ?thesis
    by (simp add: strip_port_def to_lower_def take_map split: option.split)
qed

lemma strip_port_append: "CHR '':'' \<notin> set p \<Longrightarrow> strip_port (h @ CHR '':'' # p) = h"
  by (simp add: strip_port_def last_index_byte_append)

lemma strip_port_none: "CHR '':'' \<notin> set h \<Longrightarrow> strip_port h = h"
  by (simp add: strip_port_def last_index_byte_notin)

subsection \<open>Properties\<close>

text \<open>
  C22: after a reload every Host header is routed as the abstract table says: to the last
  enabled site in the list that names it among its domain and aliases, compared without
  case and without the port; no enabled site naming it means no site.
\<close>

theorem store_lookup_refines:
  "lookup_site (replace_sites ss st) host = route_spec ss host \<and>
   (lookup_site (replace_sites ss st) host = None \<longleftrightarrow>
      \<not> (\<exists>s. s \<in> set ss \<and> serves s (to_lower (strip_port host))))"
  using store.lookup_replace [of ss st host] store.lookup_None [of ss st host] by auto

text \<open>
  The letter case of the Host header never changes the routing, nor does a port suffix
  on a host name without a colon.
\<close>

lemma lookup_host_normalised:
  assumes "CHR '':'' \<notin> set h" "CHR '':'' \<notin> set p"
  shows "lookup_site st (h @ CHR '':'' # p) = lookup_site st h \<and>
    lookup_site st (to_lower h) = lookup_site st h"
  using assms
  by (simp add: lookup_site_def lookup_index_def strip_port_append strip_port_none strip_port_to_lower)


lemma store_domains_set:
  "set (store_domains (replace_sites ss st)) =
     {to_lower d | d s. s \<in> set ss \<and> s_enabled s \<and> d \<in> set (all_domains s)}"
proof -
  let ?m = "st_by_domain (replace_sites ss st)"
  have "x \<in> set (gm_keys ?m) \<longleftrightarrow> (\<exists>s \<in> set ss. serves s x)" for x
    using last_pos_None_iff [of "\<lambda>s. serves s x" ss]
    by (auto simp: gm.keys_iff replace_sites_def build_index_get split: option.split)
  then show ?thesis
    unfolding store_domains_def set_sort set_eq_iff serves_def by (simp add: image_iff) blast
qed

text \<open>
  The domain list of the store is the sorted list, without repetition, of exactly the
  names that are routed, and the store's index always points into its list.
\<close>

lemma store_domains_exact:
  "sorted (store_domains (replace_sites ss st)) \<and> distinct (store_domains (replace_sites ss st)) \<and>
   set (store_domains (replace_sites ss st)) =
     {to_lower d | d s. s \<in> set ss \<and> s_enabled s \<and> d \<in> set (all_domains s)} \<and>
   store_ok (replace_sites ss st)"
proof (intro conjI)
  let ?m = "st_by_domain (replace_sites ss st)"
  have ok: "gm_ok ?m" using store_ok_replace by (simp add: store_ok_def)
  show "sorted (store_domains (replace_sites ss st))" by (simp add: store_domains_def)
  show "distinct (store_domains (replace_sites ss st))"
    using gm.keys_distinct [OF ok] by (simp add: store_domains_def)
  show "set (store_domains (replace_sites ss st)) =
      {to_lower d | d s. s \<in> set ss \<and> s_enabled s \<and> d \<in> set (all_domains s)}"
    by (rule store_domains_set)
  show "store_ok (replace_sites ss st)" by (rule store_ok_replace)
qed

end
