(* ===== verification/Pool.thy ===== *)
theory Pool
  imports Config_Site
begin

section \<open>The upstream pool: parsing and round robin\<close>

text \<open>
  \<open>internal/proxy/upstream.go\<close>. The pool keeps the parsed upstreams and an atomic 64-bit
  counter; \<open>Next\<close> is one atomic fetch-and-add, so concurrent calls are a sequence of
  calls. The counter is a machine word and wraps around.
\<close>

record pool =
  p_urls :: "url list"
  p_next :: "64 word"

definition parse_upstream :: "string \<Rightarrow> url option" where
  "parse_upstream raw = url_parse (if \<not> contains ''://'' raw then ''http://'' @ raw else raw)"

fun parse_upstreams :: "string list \<Rightarrow> url list option" where
  "parse_upstreams [] = Some []"
| "parse_upstreams (raw # rest) =
     (case parse_upstream raw of
        None \<Rightarrow> None
      | Some u \<Rightarrow> map_option (Cons u) (parse_upstreams rest))"

definition new_pool :: "string list \<Rightarrow> pool option" where
  "new_pool ups = map_option (\<lambda>us. \<lparr>p_urls = us, p_next = 0\<rparr>) (parse_upstreams ups)"

definition pool_next :: "pool \<Rightarrow> url option \<times> pool" where
  "pool_next p =
     (if p_urls p = [] then (None, p)
      else (let n = p_next p + 1 - 1;
                i = n mod of_nat (length (p_urls p))
            in (Some (p_urls p ! unat i), p\<lparr>p_next := p_next p + 1\<rparr>)))"

definition pool_size :: "pool \<Rightarrow> nat" where
  "pool_size p = length (p_urls p)"

subsection \<open>The contract of a round-robin picker\<close>

text \<open>
  A picker holds a fixed list and a position; a pick returns the item at the position
  modulo the length and advances the position, up to the limit where it wraps.
\<close>

locale round_robin =
  fixes pick :: "'p \<Rightarrow> 'a option \<times> 'p"
    and items :: "'p \<Rightarrow> 'a list"
    and pos :: "'p \<Rightarrow> nat"
    and limit :: nat
  assumes pick_items: "items (snd (pick p)) = items p"
    and pick_item: "items p \<noteq> [] \<Longrightarrow> length (items p) < limit \<Longrightarrow>
      fst (pick p) = Some (items p ! (pos p mod length (items p)))"
    and pick_pos: "items p \<noteq> [] \<Longrightarrow> Suc (pos p) < limit \<Longrightarrow> pos (snd (pick p)) = Suc (pos p)"
begin

lemma picks:
  assumes "items p \<noteq> []" "length (items p) < limit" "pos p + length reqs \<le> limit"
  shows "fst (run_outputs (\<lambda>_. pick) reqs p) =
    map (\<lambda>i. Some (items p ! ((pos p + i) mod length (items p)))) [0..<length reqs]"
  using assms
proof (induction reqs arbitrary: p)
  case Nil
  then show ?case by simp
next
  case (Cons r reqs)
  show ?case
  proof (cases reqs)
    case Nil
    with Cons.prems show ?thesis by (simp add: pick_item)
  next
    case (Cons r' reqs')
    with Cons.prems have "pos (snd (pick p)) = Suc (pos p)" by (intro pick_pos) auto
    moreover from this Cons.prems Cons.IH [of "snd (pick p)"]
    have "fst (run_outputs (\<lambda>_. pick) reqs (snd (pick p))) =
        map (\<lambda>i. Some (items p ! ((Suc (pos p) + i) mod length (items p)))) [0..<length reqs]"
      by (simp add: pick_items)
    moreover have "[0..<length (r # reqs)] = 0 # map Suc [0..<length reqs]"
      by (simp add: upt_conv_Cons map_Suc_upt del: upt_Suc)
    ultimately show ?thesis
      using Cons.prems by (simp add: pick_item del: upt_Suc)
  qed
qed

text \<open>One round over the pool is a rotation of it: every item exactly once.\<close>

lemma one_round:
  assumes "items p \<noteq> []" "pos p + length (items p) \<le> limit" "length (items p) < limit"
    "length reqs = length (items p)"
  shows "fst (run_outputs (\<lambda>_. pick) reqs p) = map Some (rotate (pos p) (items p))"
  unfolding picks [OF assms(1,3) assms(2) [folded assms(4)]]
  by (rule nth_equalityI) (simp_all add: assms(4) nth_rotate)

end

subsection \<open>Counting slots\<close>

text \<open>How often a slot is hit in a run of consecutive counter values.\<close>

definition slot_hits :: "nat \<Rightarrow> nat \<Rightarrow> nat \<Rightarrow> nat \<Rightarrow> nat" where
  "slot_hits n a k j = length (filter (\<lambda>i. (a + i) mod n = j) [0..<k])"

lemma slot_hits_closed:
  assumes "j < n"
  shows "slot_hits n a k j + (a + (n - 1 - j)) div n = (a + k + (n - 1 - j)) div n"
proof (induction k)
  case 0
  then show ?case by (simp add: slot_hits_def)
next
  case (Suc k)
  let ?y = "a + k + (n - 1 - j)"
  have y: "Suc ?y = a + k + (n - j)" using assms by simp
  have "(a + k + (n - j)) mod n = 0 \<longleftrightarrow> (a + k) mod n = j"
  proof -
    have "(a + k + (n - j)) mod n = ((a + k) mod n + (n - j)) mod n" by (simp add: mod_add_left_eq)
    moreover have "(a + k) mod n < n" using assms by simp
    moreover have "(r + (n - j)) mod n = 0 \<longleftrightarrow> r = j" if "r < n" for r
    proof (cases "r < j")
      case True
      with assms show ?thesis by simp
    next
      case False
      then obtain d where d: "r = j + d" by (metis le_Suc_ex not_less)
      then have "r + (n - j) = n + d" using assms by simp
      with d that show ?thesis by simp
    qed
    ultimately show ?thesis by simp
  qed
  then have "Suc ?y mod n = 0 \<longleftrightarrow> (a + k) mod n = j" unfolding y .
  then have "Suc ?y div n = ?y div n + (if (a + k) mod n = j then 1 else 0)"
    by (subst div_Suc) (cases "(a + k) mod n = j", simp_all only: if_True if_False, simp_all)
  moreover have "a + Suc k + (n - 1 - j) = Suc ?y" by simp
  ultimately show ?case using Suc.IH by (simp add: slot_hits_def)
qed

lemma slot_hits_fair:
  assumes "j < n"
  shows "k div n \<le> slot_hits n a k j \<and> slot_hits n a k j \<le> Suc (k div n)"
proof -
  let ?b = "a + (n - 1 - j)"
  have n: "0 < n" using assms by simp
  have "(?b + k) div n = ?b div n + k div n + (?b mod n + k mod n) div n"
    by (rule div_add1_eq)
  moreover have "(?b mod n + k mod n) div n \<le> 1"
  proof -
    have "?b mod n + k mod n < 2 * n" using n by (metis add_strict_mono mod_less_divisor mult_2)
    then show ?thesis using n by (simp add: div_less_iff_less_mult less_Suc_eq_le [symmetric])
  qed
  moreover have "slot_hits n a k j + ?b div n = (?b + k) div n"
    using slot_hits_closed [OF assms, of a k] by (simp add: ac_simps)
  ultimately show ?thesis by linarith
qed

lemma slot_hits_count:
  assumes "distinct xs" "j < length xs"
  shows "count_list (map (\<lambda>i. Some (xs ! ((a + i) mod length xs))) [0..<k]) (Some (xs ! j)) =
    slot_hits (length xs) a k j"
proof -
  have eq: "xs ! (m mod length xs) = xs ! j \<longleftrightarrow> m mod length xs = j" for m
    using assms nth_eq_iff_index_eq [OF assms(1)] by (metis length_pos_if_in_set mod_less_divisor nth_mem)
  have "count_list (map (\<lambda>i. Some (xs ! ((a + i) mod length xs))) is) (Some (xs ! j)) =
      length (filter (\<lambda>i. (a + i) mod length xs = j) is)" for "is"
    by (induction "is") (auto simp: eq)
  then show ?thesis by (simp add: slot_hits_def)
qed

subsection \<open>The pool as a picker\<close>

lemma pool_next_items: "p_urls (snd (pool_next p)) = p_urls p"
  by (simp add: pool_next_def Let_def)

lemma pool_next_item:
  assumes "p_urls p \<noteq> []" "length (p_urls p) < 2 ^ 64"
  shows "fst (pool_next p) = Some (p_urls p ! (unat (p_next p) mod length (p_urls p)))"
proof -
  have "unat (of_nat (length (p_urls p)) :: 64 word) = length (p_urls p)"
    using assms(2) by (simp add: unat_of_nat)
  then have "unat (p_next p mod of_nat (length (p_urls p))) = unat (p_next p) mod length (p_urls p)"
    by (simp add: unat_mod_distrib)
  with assms(1) show ?thesis by (simp add: pool_next_def Let_def)
qed

lemma pool_next_pos:
  assumes "p_urls p \<noteq> []" "Suc (unat (p_next p)) < 2 ^ 64"
  shows "unat (p_next (snd (pool_next p))) = Suc (unat (p_next p))"
proof -
  have "unat (p_next p + 1) = unat (p_next p) + unat (1 :: 64 word)"
    using assms(2) by (subst unat_add_lem [symmetric]) simp
  with assms(1) show ?thesis by (simp add: pool_next_def Let_def)
qed

interpretation pool_rr: round_robin pool_next p_urls "\<lambda>p. unat (p_next p)" "2 ^ 64"
  by unfold_locales (simp_all add: pool_next_items pool_next_item pool_next_pos)

subsection \<open>Building a pool\<close>

lemma parse_upstreams_Some:
  "parse_upstreams ups = Some us \<longleftrightarrow> list_all2 (\<lambda>raw u. parse_upstream raw = Some u) ups us"
  by (induction ups arbitrary: us) (auto simp: list_all2_Cons1 split: option.splits)

lemma parse_upstreams_None: "parse_upstreams ups = None \<longleftrightarrow> (\<exists>raw \<in> set ups. parse_upstream raw = None)"
  by (induction ups) (auto split: option.splits)

lemma new_pool_None: "new_pool ups = None \<longleftrightarrow> (\<exists>raw \<in> set ups. parse_upstream raw = None)"
  by (simp add: new_pool_def parse_upstreams_None)

lemma new_pool_SomeD:
  "new_pool ups = Some p \<Longrightarrow>
     list_all2 (\<lambda>raw u. parse_upstream raw = Some u) ups (p_urls p) \<and> p_next p = 0"
  by (auto simp: new_pool_def parse_upstreams_Some)

lemma parse_upstream_plain:
  assumes "list_all host_byte h" "list_all is_digit p"
  shows "parse_upstream (h @ CHR '':'' # p) =
    Some \<lparr>u_scheme = ''http'', u_opaque = [], u_host = h @ CHR '':'' # p, u_path = [], u_query = []\<rparr>"
  using not_contains_scheme [OF assms(1) list_all_digit_host [OF assms(2)]] url_parse_plain [OF assms] by (simp add: parse_upstream_def)

lemma parse_host_bad_port:
  assumes "CHR '':'' \<notin> set p" "\<not> list_all is_digit p" "\<not> has_prefix ''['' (h @ CHR '':'' # p)"
  shows "parse_host (h @ CHR '':'' # p) = None"
  using assms by (simp add: parse_host_def last_index_byte_append valid_optional_port_def)

lemma parse_upstream_bad_port:
  assumes h: "list_all host_byte h" and p: "list_all host_byte p" and bad: "\<not> list_all is_digit p"
  shows "parse_upstream (h @ CHR '':'' # p) = None"
proof -
  let ?a = "h @ CHR '':'' # p"
  have "\<not> has_prefix ''['' ?a"
    using h host_byte_facts(7) by (cases h) (auto simp: has_prefix_def)
  then have "parse_host ?a = None"
    using bad host_bytes_notin(1) [OF p] by (intro parse_host_bad_port)
  moreover have "last_index_byte (CHR ''@'') ?a = None"
    by (rule last_index_byte_notin) (use host_bytes_notin(3) [OF h] host_bytes_notin(3) [OF p] in simp)
  ultimately have auth: "parse_authority ?a = None" by (simp add: parse_authority_def)
  have "index_byte (CHR ''/'') ?a = None"
    by (rule index_byte_notin) (use host_bytes_notin(2) [OF h] host_bytes_notin(2) [OF p] in simp)
  with auth have rest: "parse_rest ''http'' [] (''//'' @ ?a) = None"
    by (simp add: parse_rest_def has_prefix_def Let_def)
  have "CHR ''#'' \<notin> set ?a" "CHR ''?'' \<notin> set ?a"
    using host_bytes_notin(4,5) [OF h] host_bytes_notin(4,5) [OF p] by simp_all
  moreover have "\<not> list_ex is_ctl ?a"
  proof -
    have "\<not> is_ctl CHR '':''" by (simp add: is_ctl_def)
    with h p host_byte_facts(9) show ?thesis
      unfolding list_ex_iff list_all_iff by (metis Un_iff set_ConsD set_append)
  qed
  ultimately have "url_parse (''http://'' @ ?a) = None" using url_parse_http rest by metis
  then show ?thesis using not_contains_scheme [OF h p] by (simp add: parse_upstream_def)
qed

subsection \<open>Properties\<close>

text \<open>
  Round robin is fair. From any state of the pool, as many consecutive picks as there
  are upstreams return each of them exactly once, in the configured order from the
  current position; and over any number of picks two different upstreams differ by at
  most one (the counter not having wrapped at 64 bits in between).
\<close>

lemma pool_fair:
  assumes "p_urls p \<noteq> []" "unat (p_next p) + k \<le> 2 ^ 64" "length (p_urls p) < 2 ^ 64"
  shows "(k = length (p_urls p) \<longrightarrow>
      fst (run_outputs (\<lambda>_. pool_next) [0..<k] p) = map Some (rotate (unat (p_next p)) (p_urls p))) \<and>
    (distinct (p_urls p) \<longrightarrow> u \<in> set (p_urls p) \<longrightarrow>
      count_list (fst (run_outputs (\<lambda>_. pool_next) [0..<k] p)) (Some u) \<in>
        {k div length (p_urls p), Suc (k div length (p_urls p))})"
proof (intro conjI impI)
  assume k: "k = length (p_urls p)"
  show "fst (run_outputs (\<lambda>_. pool_next) [0..<k] p) = map Some (rotate (unat (p_next p)) (p_urls p))"
    by (rule pool_rr.one_round) (use assms k in simp_all)
next
  assume d: "distinct (p_urls p)" and "u \<in> set (p_urls p)"
  then obtain j where j: "j < length (p_urls p)" "u = p_urls p ! j"
    by (auto simp: in_set_conv_nth)
  have "fst (run_outputs (\<lambda>_. pool_next) [0..<k] p) =
      map (\<lambda>i. Some (p_urls p ! ((unat (p_next p) + i) mod length (p_urls p)))) [0..<k]"
    using pool_rr.picks [of p "[0..<k]"] assms by simp
  then have "count_list (fst (run_outputs (\<lambda>_. pool_next) [0..<k] p)) (Some u) =
      slot_hits (length (p_urls p)) (unat (p_next p)) k j"
    using slot_hits_count [OF d j(1)] j(2) by simp
  with slot_hits_fair [OF j(1), of k "unat (p_next p)"]
  show "count_list (fst (run_outputs (\<lambda>_. pool_next) [0..<k] p)) (Some u) \<in>
        {k div length (p_urls p), Suc (k div length (p_urls p))}" by auto
qed

definition sample_url :: "string \<Rightarrow> url" where
  "sample_url h = \<lparr>u_scheme = ''http'', u_opaque = [], u_host = h, u_path = [], u_query = []\<rparr>"

lemma pool_fair_witness:
  "fst (run_outputs (\<lambda>_. pool_next) [0..<2]
     \<lparr>p_urls = [sample_url ''a:1'', sample_url ''b:2''], p_next = 7\<rparr>) =
     [Some (sample_url ''b:2''), Some (sample_url ''a:1'')]"
proof -
  let ?p = "\<lparr>p_urls = [sample_url ''a:1'', sample_url ''b:2''], p_next = 7\<rparr> :: pool"
  have "p_urls ?p \<noteq> []" "unat (p_next ?p) + 2 \<le> 2 ^ 64" "length (p_urls ?p) < 2 ^ 64"
    by simp_all
  note pool_fair [OF this, of "sample_url ''a:1''", THEN conjunct1, THEN mp]
  moreover have "2 = length (p_urls ?p)" by simp
  moreover have "map Some (rotate (unat (p_next ?p)) (p_urls ?p)) =
      [Some (sample_url ''b:2''), Some (sample_url ''a:1'')]" by code_simp
  ultimately show ?thesis by metis
qed

text \<open>
  A pool is built from plain addresses exactly as configured: every upstream of the
  form host:port, with letters, digits, dots and hyphens and a decimal port, becomes the
  plain HTTP target of that address, in order, and the round starts at the first.
\<close>

lemma new_pool_plain:
  assumes "list_all (\<lambda>(h, q). list_all host_byte h \<and> list_all is_digit q) addrs"
  shows "new_pool (map (\<lambda>(h, q). h @ '':'' @ q) addrs) =
    Some \<lparr>p_urls = map (\<lambda>(h, q). sample_url (h @ '':'' @ q)) addrs, p_next = 0\<rparr>"
proof -
  have "parse_upstreams (map (\<lambda>(h, q). h @ '':'' @ q) addrs) =
      Some (map (\<lambda>(h, q). sample_url (h @ '':'' @ q)) addrs)"
    using assms
    by (induction addrs) (auto simp: parse_upstream_plain sample_url_def)
  then show ?thesis by (simp add: new_pool_def)
qed


text \<open>
  Validation accepts more upstreams than the proxy can use. An address whose port is
  made of host letters but is not decimal passes \<open>Validate\<close>'s syntax check, and no pool
  can be built from a list that holds it.
\<close>

lemma accepted_upstream_without_pool:
  assumes "list_all host_byte h" "list_all host_byte q" "h \<noteq> []" "\<not> list_all is_digit q"
    "h @ '':'' @ q \<in> set ups"
  shows "valid_upstream (h @ '':'' @ q) \<and> new_pool ups = None"
proof -
  have "q \<noteq> []" using assms(4) by auto
  then have "valid_upstream (h @ '':'' @ q)"
    using valid_upstream_plain [OF assms(1,2,3)] by simp
  moreover have "parse_upstream (h @ '':'' @ q) = None"
    using parse_upstream_bad_port [OF assms(1,2,4)] by simp
  ultimately show ?thesis using assms(5) by (auto simp: new_pool_None)
qed

lemma accepted_upstream_without_pool_witness:
  "valid_upstream ''localhost:http'' \<and> new_pool [''localhost:http''] = None"
proof -
  have "list_all host_byte ''localhost''" "list_all host_byte ''http''" "\<not> list_all is_digit ''http''"
    by code_simp+
  from accepted_upstream_without_pool [OF this(1,2) _ this(3), of "[''localhost:http'']"]
  show ?thesis by simp
qed

end
