(* ===== verification/Limiter.thy ===== *)
theory Limiter
  imports Config_Site
begin

section \<open>The per-client token bucket\<close>

text \<open>
  \<open>internal/proxy/ratelimit.go\<close>: \<open>NewLimiter\<close> and \<open>Allow\<close>. A time is a number of
  nanoseconds. Token counts are exact rationals: the rounding of Go's \<open>float64\<close> is left
  out; the 64-bit sum \<open>rps + burst\<close> wraps around as it does in the code. The clock is
  read before the lock is taken, so the stamps of successive calls need not be ordered;
  nothing below assumes they are unless it says so.
\<close>

record token_bucket =
  tb_tokens :: rat
  tb_last :: int

record limiter =
  l_rps :: rat
  l_burst :: rat
  l_buckets :: "(string, token_bucket) gomap"

text \<open>\<open>None\<close> is the nil limiter, which admits everything.\<close>

definition new_limiter :: "int \<Rightarrow> int \<Rightarrow> limiter option" where
  "new_limiter rps burst =
     (if rps \<le> 0 then None
      else (let b = (if burst < 0 then 0 else burst)
            in Some \<lparr>l_rps = of_int rps, l_burst = of_int (wrap64 (rps + b)), l_buckets = gm_empty\<rparr>))"

definition elapsed_seconds :: "int \<Rightarrow> int \<Rightarrow> rat" where
  "elapsed_seconds now prev = of_int (now - prev) / 10 ^ 9"

text \<open>The decision on one bucket, which does not exist before a client's first request.\<close>

definition bucket_allow :: "rat \<Rightarrow> rat \<Rightarrow> int \<Rightarrow> token_bucket option \<Rightarrow> bool \<times> token_bucket" where
  "bucket_allow rps burst now tb =
     (case tb of
        None \<Rightarrow> (True, \<lparr>tb_tokens = burst - 1, tb_last = now\<rparr>)
      | Some b \<Rightarrow>
          (let t = tb_tokens b + elapsed_seconds now (tb_last b) * rps;
               t' = (if t > burst then burst else t)
           in if t' < 1 then (False, \<lparr>tb_tokens = t', tb_last = now\<rparr>)
              else (True, \<lparr>tb_tokens = t' - 1, tb_last = now\<rparr>)))"

definition limiter_allow :: "string \<times> int \<Rightarrow> limiter \<Rightarrow> bool \<times> limiter" where
  "limiter_allow req l =
     (let (key, now) = req;
          (ok, tb) = bucket_allow (l_rps l) (l_burst l) now (gm_get (l_buckets l) key)
      in (ok, l\<lparr>l_buckets := gm_put key tb (l_buckets l)\<rparr>))"

definition allow :: "string \<times> int \<Rightarrow> limiter option \<Rightarrow> bool \<times> limiter option" where
  "allow req l =
     (case l of
        None \<Rightarrow> (True, None)
      | Some l1 \<Rightarrow> (let (ok, l2) = limiter_allow req l1 in (ok, Some l2)))"

subsection \<open>Credit accounting\<close>

text \<open>
  The contract of an admission control that pays each admission from a credit: over any
  run the admissions are at most the credit spent. It does not depend on how the credit
  is earned, nor on the order of time stamps.
\<close>

locale credit_machine =
  fixes step :: "'i \<Rightarrow> 's \<Rightarrow> bool \<times> 's"
    and credit :: "'s \<Rightarrow> rat"
  assumes pay: "credit (snd (step i s)) \<le> credit s - (if fst (step i s) then 1 else 0)"
begin

lemma admissions_paid:
  "of_nat (count_list (fst (run_outputs step is s)) True) \<le> credit s - credit (snd (run_outputs step is s))"
proof (induction "is" arbitrary: s)
  case Nil
  then show ?case by simp
next
  case (Cons i "is")
  show ?case
    using Cons.IH [of "snd (step i s)"] pay [of i s] by (cases "fst (step i s)") simp_all
qed

end

text \<open>One bucket, once it exists, as a machine over time stamps.\<close>

definition bucket_step :: "rat \<Rightarrow> rat \<Rightarrow> int \<Rightarrow> token_bucket \<Rightarrow> bool \<times> token_bucket" where
  "bucket_step rps burst now b = bucket_allow rps burst now (Some b)"

definition bucket_credit :: "rat \<Rightarrow> token_bucket \<Rightarrow> rat" where
  "bucket_credit rps b = tb_tokens b - rps * of_int (tb_last b) / 10 ^ 9"

lemma refill_eq:
  "tb_tokens b + elapsed_seconds now (tb_last b) * rps = bucket_credit rps b + rps * of_int now / 10 ^ 9"
  by (simp add: elapsed_seconds_def bucket_credit_def field_simps)

interpretation bucket: credit_machine "bucket_step rps burst" "bucket_credit rps"
proof
  fix i b
  show "bucket_credit rps (snd (bucket_step rps burst i b)) \<le>
      bucket_credit rps b - (if fst (bucket_step rps burst i b) then 1 else 0)"
    unfolding bucket_step_def bucket_allow_def option.case refill_eq Let_def
    by (auto simp: bucket_credit_def)
qed

lemma bucket_step_last: "tb_last (snd (bucket_step rps burst now b)) = now"
  by (simp add: bucket_step_def bucket_allow_def Let_def)

lemma bucket_step_admitted: "fst (bucket_step rps burst now b) \<Longrightarrow> 0 \<le> tb_tokens (snd (bucket_step rps burst now b))"
  by (simp add: bucket_step_def bucket_allow_def Let_def split: if_splits)

lemma bucket_step_le:
  "tb_tokens (snd (bucket_step rps burst now b)) \<le> burst - (if fst (bucket_step rps burst now b) then 1 else 0)"
  by (simp add: bucket_step_def bucket_allow_def Let_def)

text \<open>With ordered stamps the tokens never become negative.\<close>

lemma bucket_step_nonneg:
  assumes "0 \<le> rps" "0 \<le> burst" "0 \<le> tb_tokens b" "tb_last b \<le> now"
  shows "0 \<le> tb_tokens (snd (bucket_step rps burst now b))"
proof -
  have "0 \<le> elapsed_seconds now (tb_last b) * rps"
    using assms by (simp add: elapsed_seconds_def)
  with assms show ?thesis
    by (simp add: bucket_step_def bucket_allow_def Let_def)
qed

lemma bucket_run_nonneg:
  assumes "0 \<le> rps" "0 \<le> burst" "0 \<le> tb_tokens b" "sorted (tb_last b # ts)"
  shows "0 \<le> tb_tokens (snd (run_outputs (bucket_step rps burst) ts b)) \<and>
    tb_last (snd (run_outputs (bucket_step rps burst) ts b)) = last (tb_last b # ts)"
  using assms(3,4)
proof (induction ts arbitrary: b)
  case Nil
  then show ?case by simp
next
  case (Cons t ts)
  let ?b = "snd (bucket_step rps burst t b)"
  have "0 \<le> tb_tokens ?b" using assms(1,2) Cons.prems by (intro bucket_step_nonneg) auto
  moreover have "sorted (tb_last ?b # ts)" using Cons.prems by (simp add: bucket_step_last)
  ultimately show ?case using Cons.IH [of ?b] by (simp add: bucket_step_last)
qed

lemma bucket_run_last:
  "tb_last (snd (run_outputs (bucket_step rps burst) ts b)) = last (tb_last b # ts)"
  by (induction ts arbitrary: b) (simp_all add: bucket_step_last)

lemma bucket_run_admitted:
  "ts \<noteq> [] \<Longrightarrow> last (fst (run_outputs (bucket_step rps burst) ts b)) \<Longrightarrow>
     0 \<le> tb_tokens (snd (run_outputs (bucket_step rps burst) ts b))"
proof (induction ts arbitrary: b)
  case Nil
  then show ?case by simp
next
  case (Cons t ts)
  show ?case
  proof (cases ts)
    case Nil
    with Cons.prems show ?thesis by (simp add: bucket_step_admitted)
  next
    case (Cons t' ts')
    have "fst (run_outputs (bucket_step rps burst) ts (snd (bucket_step rps burst t b))) \<noteq> []"
      using Cons by (simp flip: length_0_conv)
    with Cons Cons.prems Cons.IH [of "snd (bucket_step rps burst t b)"] show ?thesis by simp
  qed
qed

subsection \<open>Clients do not share budgets\<close>

text \<open>The requests of one key in a request sequence, and the decisions they got.\<close>

definition times_of :: "string \<Rightarrow> (string \<times> int) list \<Rightarrow> int list" where
  "times_of k reqs = map snd (filter (\<lambda>r. fst r = k) reqs)"

definition decisions_of :: "string \<Rightarrow> (string \<times> int) list \<Rightarrow> bool list \<Rightarrow> bool list" where
  "decisions_of k reqs outs = map snd (filter (\<lambda>p. fst (fst p) = k) (zip reqs outs))"

lemma decisions_of_own:
  assumes "\<forall>r \<in> set reqs. fst r = k" "length outs = length reqs"
  shows "decisions_of k reqs outs = outs"
proof -
  have "filter (\<lambda>p. fst (fst p) = k) (zip reqs outs) = zip reqs outs"
    using assms(1) by (auto simp: filter_id_conv dest!: set_zip_leftD)
  with assms(2) show ?thesis by (simp add: decisions_of_def)
qed

definition client_step :: "rat \<Rightarrow> rat \<Rightarrow> int \<Rightarrow> token_bucket option \<Rightarrow> bool \<times> token_bucket option" where
  "client_step rps burst now ob = (let (ok, b) = bucket_allow rps burst now ob in (ok, Some b))"

lemma limiter_allow_simps:
  "fst (limiter_allow (k, t) l) = fst (client_step (l_rps l) (l_burst l) t (gm_get (l_buckets l) k))"
  "gm_get (l_buckets (snd (limiter_allow (k, t) l))) x =
     (if x = k then snd (client_step (l_rps l) (l_burst l) t (gm_get (l_buckets l) k))
      else gm_get (l_buckets l) x)"
  "l_rps (snd (limiter_allow (k, t) l)) = l_rps l"
  "l_burst (snd (limiter_allow (k, t) l)) = l_burst l"
  by (simp_all add: limiter_allow_def client_step_def Let_def split: prod.split)

lemma limiter_run_params:
  "l_rps (snd (run_outputs limiter_allow reqs l)) = l_rps l"
  "l_burst (snd (run_outputs limiter_allow reqs l)) = l_burst l"
  by (induction reqs arbitrary: l) (auto simp: limiter_allow_simps)

lemma limiter_run_client:
  "decisions_of k reqs (fst (run_outputs limiter_allow reqs l)) =
     fst (run_outputs (client_step (l_rps l) (l_burst l)) (times_of k reqs) (gm_get (l_buckets l) k))"
  "gm_get (l_buckets (snd (run_outputs limiter_allow reqs l))) k =
     snd (run_outputs (client_step (l_rps l) (l_burst l)) (times_of k reqs) (gm_get (l_buckets l) k))"
  by (induction reqs arbitrary: l)
    (auto simp: decisions_of_def times_of_def limiter_allow_simps)

lemma client_run_Some:
  "run_outputs (client_step rps burst) ts (Some b) =
     (fst (run_outputs (bucket_step rps burst) ts b), Some (snd (run_outputs (bucket_step rps burst) ts b)))"
proof (induction ts arbitrary: b)
  case Nil
  then show ?case by simp
next
  case (Cons t ts)
  have "client_step rps burst t (Some b) =
      (fst (bucket_step rps burst t b), Some (snd (bucket_step rps burst t b)))"
    by (simp add: client_step_def bucket_step_def split: prod.split)
  then show ?case
    by (intro prod_eqI) (simp_all add: Cons.IH)
qed

subsection \<open>The budget of a window\<close>

text \<open>After the first request of a window the tokens are at most the burst less the admission.\<close>

lemma client_first:
  assumes "1 \<le> burst"
  obtains b where "snd (client_step rps burst t ob) = Some b" "tb_last b = t"
    "tb_tokens b \<le> burst - (if fst (client_step rps burst t ob) then 1 else 0)"
    "fst (client_step rps burst t ob) \<Longrightarrow> 0 \<le> tb_tokens b"
proof (cases ob)
  case None
  with assms that show ?thesis by (simp add: client_step_def bucket_allow_def)
next
  case (Some b0)
  have "client_step rps burst t ob =
      (fst (bucket_step rps burst t b0), Some (snd (bucket_step rps burst t b0)))"
    by (simp add: Some client_step_def bucket_step_def split: prod.split)
  with that [of "snd (bucket_step rps burst t b0)"] show ?thesis
    using bucket_step_last bucket_step_le bucket_step_admitted by simp
qed

lemma client_window:
  assumes "1 \<le> burst" "ts \<noteq> []"
  obtains b where "snd (run_outputs (client_step rps burst) ts ob) = Some b"
    "of_nat (count_list (fst (run_outputs (client_step rps burst) ts ob)) True) \<le>
       burst - tb_tokens b + rps * of_int (last ts - hd ts) / 10 ^ 9"
    "last (fst (run_outputs (client_step rps burst) ts ob)) \<Longrightarrow> 0 \<le> tb_tokens b"
proof -
  obtain t ts' where ts: "ts = t # ts'" using assms(2) by (cases ts) auto
  obtain b1 where b1: "snd (client_step rps burst t ob) = Some b1" "tb_last b1 = t"
      "tb_tokens b1 \<le> burst - (if fst (client_step rps burst t ob) then 1 else 0)"
      "fst (client_step rps burst t ob) \<Longrightarrow> 0 \<le> tb_tokens b1"
    by (rule client_first [OF assms(1), of rps t ob]) blast
  let ?bn = "snd (run_outputs (bucket_step rps burst) ts' b1)"
  let ?outs = "fst (run_outputs (bucket_step rps burst) ts' b1)"
  have run: "run_outputs (client_step rps burst) ts ob =
      (fst (client_step rps burst t ob) # ?outs, Some ?bn)"
    by (rule prod_eqI) (simp_all add: ts b1(1) client_run_Some)
  have paid: "of_nat (count_list ?outs True) \<le> bucket_credit rps b1 - bucket_credit rps ?bn"
    by (rule bucket.admissions_paid)
  have last: "tb_last ?bn = last ts" using bucket_run_last [of rps burst ts' b1] ts b1(2) by simp
  show ?thesis
  proof (rule that [of ?bn])
    show "snd (run_outputs (client_step rps burst) ts ob) = Some ?bn" by (simp add: run)
    have "bucket_credit rps b1 - bucket_credit rps ?bn =
        tb_tokens b1 - tb_tokens ?bn + rps * of_int (last ts - hd ts) / 10 ^ 9"
      using b1(2) last ts by (simp add: bucket_credit_def field_simps)
    with paid b1(3) show "of_nat (count_list (fst (run_outputs (client_step rps burst) ts ob)) True) \<le>
       burst - tb_tokens ?bn + rps * of_int (last ts - hd ts) / 10 ^ 9"
      by (cases "fst (client_step rps burst t ob)") (simp_all add: run)
    assume "last (fst (run_outputs (client_step rps burst) ts ob))"
    then show "0 \<le> tb_tokens ?bn"
      using bucket_run_admitted [of ts' rps burst b1] b1(4) run
      by (cases ts') (auto split: if_splits simp flip: length_0_conv)
  qed
qed

lemma client_run_nonneg:
  assumes "0 \<le> rps" "1 \<le> burst" "sorted ts" "ts \<noteq> []"
  obtains b where "snd (run_outputs (client_step rps burst) ts None) = Some b" "0 \<le> tb_tokens b"
    "tb_last b = last ts"
proof -
  obtain t ts' where ts: "ts = t # ts'" using assms(4) by (cases ts) auto
  let ?b = "\<lparr>tb_tokens = burst - 1, tb_last = t\<rparr> :: token_bucket"
  have "snd (run_outputs (client_step rps burst) ts None) =
      Some (snd (run_outputs (bucket_step rps burst) ts' ?b))"
    by (simp add: ts client_step_def bucket_allow_def client_run_Some)
  moreover have "0 \<le> tb_tokens (snd (run_outputs (bucket_step rps burst) ts' ?b)) \<and>
      tb_last (snd (run_outputs (bucket_step rps burst) ts' ?b)) = last (tb_last ?b # ts')"
    by (rule bucket_run_nonneg) (use assms ts in auto)
  ultimately show ?thesis using that ts by simp
qed

lemma new_limiter_SomeD:
  assumes "new_limiter rps burst = Some l" "rps + max burst 0 < 2 ^ 63"
  shows "l_rps l = of_int rps" "l_burst l = of_int (rps + max burst 0)" "gm_get (l_buckets l) k = None"
    "0 < l_rps l" "1 \<le> l_burst l"
proof -
  have rps: "0 < rps" using assms(1) by (simp add: new_limiter_def split: if_splits)
  have "int64_range (rps + max burst 0)" using rps assms(2) by (simp add: int64_range_def)
  moreover have "(if burst < 0 then 0 else burst) = max burst 0" by simp
  ultimately have "wrap64 (rps + (if burst < 0 then 0 else burst)) = rps + max burst 0"
    using wrap64_id by simp
  with assms(1) rps have l: "l = \<lparr>l_rps = of_int rps, l_burst = of_int (rps + max burst 0), l_buckets = gm_empty\<rparr>"
    by (auto simp: new_limiter_def Let_def)
  then show "l_rps l = of_int rps" "l_burst l = of_int (rps + max burst 0)" "gm_get (l_buckets l) k = None"
    by simp_all
  have "1 \<le> rps + max burst 0" using rps by linarith
  then have "(1 :: rat) \<le> of_int (rps + max burst 0)" by (simp only: of_int_1_le_iff)
  then show "1 \<le> l_burst l" "0 < l_rps l" using l rps by simp_all
qed

subsection \<open>Properties\<close>

lemma limiter_bound:
  assumes "new_limiter rps burst = Some l0" "rps + max burst 0 < 2 ^ 63"
    and "l = snd (run_outputs limiter_allow before l0)"
    and "ts = times_of k window" "ts \<noteq> []"
    and "outs = decisions_of k window (fst (run_outputs limiter_allow window l))"
    and "last outs \<or> sorted (times_of k (before @ window))"
  shows "of_nat (count_list outs True) \<le>
    (of_int (rps + max burst 0) + of_int rps * of_int (last ts - hd ts) / 10 ^ 9 :: rat)"
proof -
  note new = new_limiter_SomeD [OF assms(1,2)]
  have par: "l_rps l = l_rps l0" "l_burst l = l_burst l0"
    by (simp_all add: assms(3) limiter_run_params)
  let ?run = "run_outputs (client_step (l_rps l0) (l_burst l0))"
  let ?ob = "gm_get (l_buckets l) k"
  have outs: "outs = fst (?run ts ?ob)"
    by (simp add: assms(4,6) limiter_run_client par)
  obtain b where b: "snd (?run ts ?ob) = Some b"
      "of_nat (count_list outs True) \<le>
         l_burst l0 - tb_tokens b + l_rps l0 * of_int (last ts - hd ts) / 10 ^ 9"
      "last outs \<Longrightarrow> 0 \<le> tb_tokens b"
    using client_window [OF new(5) assms(5), of "l_rps l0" ?ob] outs by metis
  have "0 \<le> tb_tokens b" if "sorted (times_of k (before @ window))"
  proof -
    have "times_of k (before @ window) = times_of k before @ ts"
      by (simp add: times_of_def assms(4))
    moreover have "snd (?run (times_of k before @ ts) None) = Some b"
      using b(1) by (simp add: run_outputs_append assms(3) limiter_run_client new(3))
    ultimately show ?thesis
      using client_run_nonneg [of "l_rps l0" "l_burst l0" "times_of k before @ ts"] that assms(5) new(4,5)
      by (metis append_is_Nil_conv less_imp_le option.inject)
  qed
  with assms(7) b(3) have "0 \<le> tb_tokens b" by blast
  with b(2) show ?thesis by (simp add: new(1,2))
qed

text \<open>
  Clients are isolated. In any mix of requests, the decisions one client gets are
  exactly those it would get if the others had sent nothing.
\<close>

lemma limiter_isolated:
  "decisions_of k reqs (fst (run_outputs limiter_allow reqs l)) =
     fst (run_outputs limiter_allow (filter (\<lambda>r. fst r = k) reqs) l)"
proof -
  let ?own = "filter (\<lambda>r. fst r = k) reqs"
  have "decisions_of k ?own outs = outs" if "length outs = length ?own" for outs
    using that by (intro decisions_of_own) simp_all
  moreover have "times_of k ?own = times_of k reqs" by (simp add: times_of_def)
  ultimately show ?thesis
    using limiter_run_client(1) [of k reqs l] limiter_run_client(1) [of k ?own l] by simp
qed

text \<open>
  A patient client is served. With ordered time stamps, a request that comes at least
  one refill interval (a second divided by the rate) after the client's previous request
  is admitted, however its earlier requests were decided.
\<close>

lemma limiter_patient_client:
  assumes "new_limiter rps burst = Some l0" "rps + max burst 0 < 2 ^ 63"
    and "sorted (times_of k before)"
    and "times_of k before \<noteq> [] \<longrightarrow> 10 ^ 9 \<le> rps * (now - last (times_of k before))"
  shows "fst (limiter_allow (k, now) (snd (run_outputs limiter_allow before l0)))"
proof (cases "times_of k before = []")
  case True
  note new = new_limiter_SomeD [OF assms(1,2)]
  show ?thesis
    by (simp add: limiter_allow_simps limiter_run_client limiter_run_params new(3) True
        client_step_def bucket_allow_def)
next
  case False
  note new = new_limiter_SomeD [OF assms(1,2)]
  obtain b where b: "snd (run_outputs (client_step (l_rps l0) (l_burst l0)) (times_of k before) None) = Some b"
      "0 \<le> tb_tokens b" "tb_last b = last (times_of k before)"
    using client_run_nonneg [OF less_imp_le [OF new(4)] new(5) assms(3) False] by blast
  have "(10 ^ 9 :: rat) \<le> of_int (rps * (now - last (times_of k before)))"
    using False assms(4) by (metis of_int_le_iff of_int_numeral of_int_power)
  then have "1 \<le> elapsed_seconds now (tb_last b) * l_rps l0"
    by (simp add: elapsed_seconds_def b(3) new(1) field_simps)
  with b(2) new(5) show ?thesis
    by (simp add: limiter_allow_simps limiter_run_client limiter_run_params new(3) b(1)
        client_step_def bucket_allow_def Let_def)
qed

lemma limiter_patient_client_witness:
  "\<exists>l. new_limiter 4 0 = Some l \<and> fst (limiter_allow (''c'', 250000005)
     (snd (run_outputs limiter_allow [(''c'', 1), (''d'', 9), (''c'', 5)] l)))"
proof -
  obtain l where l: "new_limiter 4 0 = Some l" by (simp add: new_limiter_def)
  have "times_of ''c'' [(''c'', 1), (''d'', 9), (''c'', 5)] = [1, 5]" by (simp add: times_of_def)
  with limiter_patient_client [OF l, of "''c''" "[(''c'', 1), (''d'', 9), (''c'', 5)]" 250000005] l
  show ?thesis by auto
qed

lemma bucket_run_burst:
  "run_outputs (bucket_step rps burst) (replicate n t) \<lparr>tb_tokens = of_nat m, tb_last = t\<rparr> =
     (replicate (min n m) True @ replicate (n - m) False, \<lparr>tb_tokens = of_nat (m - n), tb_last = t\<rparr>)"
  if "of_nat m \<le> burst"
  using that
proof (induction n arbitrary: m)
  case 0
  then show ?case by simp
next
  case (Suc n)
  have step: "bucket_step rps burst t \<lparr>tb_tokens = of_nat m, tb_last = t\<rparr> =
      (0 < m, \<lparr>tb_tokens = of_nat (m - 1), tb_last = t\<rparr>)"
    using Suc.prems by (cases m) (auto simp: bucket_step_def bucket_allow_def elapsed_seconds_def Let_def)
  show ?case
  proof (cases m)
    case 0
    with Suc.IH [of 0] Suc.prems step show ?thesis by (intro prod_eqI) simp_all
  next
    case (Suc m')
    with Suc.IH [of m'] Suc.prems step show ?thesis by (intro prod_eqI) simp_all
  qed
qed

lemma client_run_burst:
  assumes "1 \<le> cap" "burst = of_nat cap"
  shows "fst (run_outputs (client_step rps burst) (replicate n t) None) =
    replicate (min n cap) True @ replicate (n - cap) False"
proof (cases n)
  case 0
  then show ?thesis by simp
next
  case (Suc m)
  have "burst - 1 = of_nat (cap - 1)" using assms by (simp add: of_nat_diff)
  moreover have "of_nat (cap - 1) \<le> burst" using assms by simp
  ultimately have "fst (run_outputs (client_step rps burst) (replicate n t) None) =
      True # replicate (min m (cap - 1)) True @ replicate (m - (cap - 1)) False"
    using bucket_run_burst [of "cap - 1" burst rps m t]
    by (simp add: Suc client_step_def bucket_allow_def client_run_Some)
  also have "\<dots> = replicate (min n cap) True @ replicate (n - cap) False"
    using assms(1) Suc by (cases cap) simp_all
  finally show ?thesis .
qed

text \<open>
  A fresh client may burst. Of any number of simultaneous requests of a new client the
  first \<open>rps + burst\<close> are admitted and every later one is refused.
\<close>

lemma limiter_burst:
  assumes "new_limiter rps burst = Some l0" "rps + max burst 0 < 2 ^ 63"
  shows "fst (run_outputs limiter_allow (replicate n (k, t)) l0) =
    replicate (min n (nat (rps + max burst 0))) True @ replicate (n - nat (rps + max burst 0)) False"
proof -
  note new = new_limiter_SomeD [OF assms]
  let ?cap = "nat (rps + max burst 0)"
  have pos: "0 < rps" using assms(1) by (simp add: new_limiter_def split: if_splits)
  then have "l_burst l0 = of_nat ?cap" "1 \<le> ?cap" by (simp_all add: new(2) of_nat_nat)
  moreover have "decisions_of k (replicate n (k, t)) outs = outs" if "length outs = n" for outs
    using that by (intro decisions_of_own) simp_all
  moreover have "times_of k (replicate n (k, t)) = replicate n t" by (simp add: times_of_def)
  ultimately show ?thesis
    using limiter_run_client(1) [of k "replicate n (k, t)" l0] client_run_burst [of ?cap "l_burst l0"]
    by (simp add: new(3))
qed


text \<open>
  An accepted rate limit can lock clients out. When the 64-bit sum of rate and burst
  overflows, which validation allows, the capacity is negative, and after its first request
  a client is refused at every later time.
\<close>

lemma limiter_overflow_locks_out:
  assumes "0 < rps" "rps < 2 ^ 63" "0 \<le> burst" "burst < 2 ^ 63" "2 ^ 63 \<le> rps + burst"
  shows "validate_rate_limit \<lparr>rl_enabled = True, rl_rps = rps, rl_burst = burst\<rparr> = None \<and>
    (\<exists>l. new_limiter rps burst = Some l \<and>
       \<not> fst (limiter_allow (k, t2) (snd (limiter_allow (k, t1) l))))"
proof -
  have "wrap64 (rps + burst) = rps + burst - 2 ^ 64"
  proof -
    have "(rps + burst + 2 ^ 63) mod 2 ^ 64 = (rps + burst + 2 ^ 63 - 2 ^ 64) mod 2 ^ 64"
      by (simp only: minus_mod_self2)
    also have "\<dots> = rps + burst + 2 ^ 63 - 2 ^ 64" using assms by (intro mod_pos_pos_trivial) auto
    finally show ?thesis by (simp add: wrap64_def)
  qed
  then have "wrap64 (rps + burst) < 0" using assms by simp
  then have neg: "of_int (wrap64 (rps + burst)) < (0 :: rat)" by (simp only: of_int_less_0_iff)
  obtain l where l: "new_limiter rps burst = Some l" "l_burst l = of_int (wrap64 (rps + burst))"
      "gm_get (l_buckets l) k = None"
    using assms(1,3) by (simp add: new_limiter_def)
  have "\<not> fst (limiter_allow (k, t2) (snd (limiter_allow (k, t1) l)))"
    using neg by (simp add: limiter_allow_simps l client_step_def bucket_allow_def Let_def)
  with l(1) assms(1,3) show ?thesis by (simp add: validate_rate_limit_def)
qed

lemma limiter_overflow_locks_out_witness:
  "\<exists>l. new_limiter 1 (2 ^ 63 - 1) = Some l \<and>
     \<not> fst (limiter_allow (''c'', 10 ^ 18) (snd (limiter_allow (''c'', 0) l)))"
  using limiter_overflow_locks_out [of 1 "2 ^ 63 - 1" "''c''" "10 ^ 18" 0] by simp

end
