(* ===== verification/Go_Http.thy ===== *)
theory Go_Http
  imports Go_Url
begin

section \<open>The part of Go's net/http that the proxy is written against\<close>

text \<open>
  Header maps with canonical keys, requests, the server's response writer with its
  commit-once status line and informational responses, \<open>http.Error\<close> and
  \<open>http.Redirect\<close>, after Go 1.22. A connection accepts a number of body bytes and then
  fails. Content-Length accounting, trailers and HTTP/2 framing are left out.
\<close>

subsection \<open>Headers\<close>

type_synonym header = "(string, string list) gomap"

definition token_byte :: "char \<Rightarrow> bool" where
  "token_byte c \<longleftrightarrow> is_alpha c \<or> is_digit c \<or> c \<in> set ''!#$%&*+-.^_|~'' \<or> c = CHR 0x27 \<or> c = CHR 0x60"

fun canon_bytes :: "bool \<Rightarrow> string \<Rightarrow> string" where
  "canon_bytes up [] = []"
| "canon_bytes up (c # s) = (if up then upper_byte c else lower_byte c) # canon_bytes (c = CHR ''-'') s"

definition canonical_key :: "string \<Rightarrow> string" where
  "canonical_key k = (if list_all token_byte k then canon_bytes True k else k)"

definition header_values :: "string \<Rightarrow> header \<Rightarrow> string list" where
  "header_values k h = (case gm_get h k of None \<Rightarrow> [] | Some vs \<Rightarrow> vs)"

definition header_get :: "string \<Rightarrow> header \<Rightarrow> string" where
  "header_get k h = (case header_values (canonical_key k) h of [] \<Rightarrow> [] | v # _ \<Rightarrow> v)"

definition header_set :: "string \<Rightarrow> string \<Rightarrow> header \<Rightarrow> header" where
  "header_set k v h = gm_put (canonical_key k) [v] h"

definition header_add :: "string \<Rightarrow> string \<Rightarrow> header \<Rightarrow> header" where
  "header_add k v h = gm_put (canonical_key k) (header_values (canonical_key k) h @ [v]) h"

definition header_del :: "string \<Rightarrow> header \<Rightarrow> header" where
  "header_del k h = gm_del (canonical_key k) h"

definition copy_header :: "header \<Rightarrow> header \<Rightarrow> header" where
  "copy_header src dst = fold (\<lambda>(k, vs). fold (header_add k) vs) src dst"

text \<open>Comma-separated tokens, compared without case.\<close>

definition trim_where :: "(char \<Rightarrow> bool) \<Rightarrow> string \<Rightarrow> string" where
  "trim_where p s = rev (dropWhile p (rev (dropWhile p s)))"

definition is_ows :: "char \<Rightarrow> bool" where
  "is_ows c \<longleftrightarrow> c = CHR '' '' \<or> c = CHR 0x09"

definition is_mime_space :: "char \<Rightarrow> bool" where
  "is_mime_space c \<longleftrightarrow> is_ows c \<or> c = CHR 0x0A \<or> c = CHR 0x0D"

definition ascii_eq_fold :: "string \<Rightarrow> string \<Rightarrow> bool" where
  "ascii_eq_fold s t \<longleftrightarrow> list_all (\<lambda>c. byte c < 128) s \<and> list_all (\<lambda>c. byte c < 128) t \<and> to_lower s = to_lower t"

definition values_contain_token :: "string list \<Rightarrow> string \<Rightarrow> bool" where
  "values_contain_token vs tok \<longleftrightarrow>
     list_ex (\<lambda>v. list_ex (\<lambda>p. ascii_eq_fold (trim_where is_ows p) tok) (split_all (CHR '','') v)) vs"

definition ascii_print :: "string \<Rightarrow> bool" where
  "ascii_print s \<longleftrightarrow> list_all (\<lambda>c. 32 \<le> byte c \<and> byte c \<le> 126) s"

subsection \<open>Requests\<close>

record request_url =
  ru_scheme :: string
  ru_opaque :: string
  ru_host :: string
  ru_path :: string
  ru_raw_path :: string
  ru_force_query :: bool
  ru_raw_query :: string

record request =
  rq_method :: string
  rq_url :: request_url
  rq_host :: string
  rq_header :: header
  rq_remote :: string
  rq_tls :: bool
  rq_body :: string

definition user_agent :: "request \<Rightarrow> string" where
  "user_agent rq = header_get ''User-Agent'' (rq_header rq)"

definition path_should_escape :: "char \<Rightarrow> bool" where
  "path_should_escape c \<longleftrightarrow> \<not> (is_alpha c \<or> is_digit c \<or> c \<in> set ''-_.~$&+,/:;=@'')"

definition hex_digit :: "nat \<Rightarrow> char" where
  "hex_digit n = ''0123456789ABCDEF'' ! (n mod 16)"

definition percent_byte :: "char \<Rightarrow> string" where
  "percent_byte c = [CHR ''%'', hex_digit (byte c div 16), hex_digit (byte c)]"

definition escape_path :: "string \<Rightarrow> string" where
  "escape_path s = concat (map (\<lambda>c. if path_should_escape c then percent_byte c else [c]) s)"

definition valid_encoded_path :: "string \<Rightarrow> bool" where
  "valid_encoded_path s \<longleftrightarrow>
     list_all (\<lambda>c. c \<in> set ''!$&()*+,;=:@[]%'' \<or> c = CHR 0x27 \<or> \<not> path_should_escape c) s"

definition escaped_path :: "request_url \<Rightarrow> string" where
  "escaped_path u =
     (if ru_raw_path u \<noteq> [] \<and> valid_encoded_path (ru_raw_path u)
         \<and> unescape Esc_Path (ru_raw_path u) = Some (ru_path u) then ru_raw_path u
      else if ru_path u = ''*'' then ''*''
      else escape_path (ru_path u))"

definition request_uri :: "request_url \<Rightarrow> string" where
  "request_uri u =
     (if ru_opaque u = [] then (if escaped_path u = [] then ''/'' else escaped_path u)
      else if has_prefix ''//'' (ru_opaque u) then ru_scheme u @ '':'' @ ru_opaque u
      else ru_opaque u)
     @ (if ru_force_query u \<or> ru_raw_query u \<noteq> [] then ''?'' @ ru_raw_query u else [])"

subsection \<open>The server's response writer\<close>

record writer =
  w_header :: header
  w_status :: "int option"
  w_sent :: header
  w_info :: "(int \<times> header) list"
  w_body :: string
  w_room :: "nat option"

definition fresh_writer :: writer where
  "fresh_writer = \<lparr>w_header = gm_empty, w_status = None, w_sent = gm_empty, w_info = [], w_body = [], w_room = None\<rparr>"

text \<open>The header is committed once; 1xx codes other than 101 are sent ahead of it.\<close>

definition commit_header :: "int \<Rightarrow> writer \<Rightarrow> writer" where
  "commit_header code w =
     (if w_status w \<noteq> None then w
      else if 100 \<le> code \<and> code \<le> 199 \<and> code \<noteq> 101 then w\<lparr>w_info := w_info w @ [(code, w_header w)]\<rparr>
      else w\<lparr>w_status := Some code, w_sent := w_header w\<rparr>)"

text \<open>\<open>None\<close> is the panic on an invalid code.\<close>

definition write_header :: "int \<Rightarrow> writer \<Rightarrow> writer option" where
  "write_header code w =
     (if w_status w = None \<and> (code < 100 \<or> 999 < code) then None else Some (commit_header code w))"

definition body_allowed :: "int \<Rightarrow> bool" where
  "body_allowed code \<longleftrightarrow> \<not> (100 \<le> code \<and> code \<le> 199) \<and> code \<noteq> 204 \<and> code \<noteq> 304"

text \<open>A write returns the number of bytes taken and whether it succeeded.\<close>

definition write_body :: "string \<Rightarrow> writer \<Rightarrow> nat \<times> bool \<times> writer" where
  "write_body bs w0 =
     (let w = commit_header 200 w0
      in if bs = [] then (0, True, w)
         else if \<not> body_allowed (case w_status w of None \<Rightarrow> 200 | Some c \<Rightarrow> c) then (0, False, w)
         else (case w_room w of
                 None \<Rightarrow> (length bs, True, w\<lparr>w_body := w_body w @ bs\<rparr>)
               | Some r \<Rightarrow>
                   (let n = min r (length bs)
                    in (n, n = length bs, w\<lparr>w_body := w_body w @ take n bs, w_room := Some (r - n)\<rparr>))))"

definition flush :: "writer \<Rightarrow> writer" where
  "flush w = commit_header 200 w"

definition newline :: string where
  "newline = [CHR 0x0A]"

definition error_header :: "header \<Rightarrow> header" where
  "error_header h =
     header_set ''X-Content-Type-Options'' ''nosniff''
       (header_set ''Content-Type'' ''text/plain; charset=utf-8'' h)"

definition http_error :: "string \<Rightarrow> int \<Rightarrow> writer \<Rightarrow> writer" where
  "http_error msg code w =
     snd (snd (write_body (msg @ newline) (commit_header code (w\<lparr>w_header := error_header (w_header w)\<rparr>))))"

definition html_escape_byte :: "char \<Rightarrow> string" where
  "html_escape_byte c =
     (if c = CHR ''&'' then ''&amp;'' else if c = CHR ''<'' then ''&lt;'' else if c = CHR ''>'' then ''&gt;''
      else if c = CHR 0x22 then ''&#34;'' else if c = CHR 0x27 then ''&#39;'' else [c])"

definition html_escape :: "string \<Rightarrow> string" where
  "html_escape s = concat (map html_escape_byte s)"

definition hex_escape_non_ascii :: "string \<Rightarrow> string" where
  "hex_escape_non_ascii s = concat (map (\<lambda>c. if 128 \<le> byte c then to_lower (percent_byte c) else [c]) s)"

text \<open>A redirect to an absolute location.\<close>

definition http_redirect :: "string \<Rightarrow> string \<Rightarrow> int \<Rightarrow> string \<Rightarrow> writer \<Rightarrow> writer" where
  "http_redirect method loc code status_text w =
     (let had = gm_get (w_header w) ''Content-Type'' \<noteq> None;
          h1 = header_set ''Location'' (hex_escape_non_ascii loc) (w_header w);
          h2 = (if \<not> had \<and> (method = ''GET'' \<or> method = ''HEAD'')
                then header_set ''Content-Type'' ''text/html; charset=utf-8'' h1 else h1);
          w1 = commit_header code (w\<lparr>w_header := h2\<rparr>)
      in if \<not> had \<and> method = ''GET''
         then snd (snd (write_body (''<a href='' @ [CHR 0x22] @ html_escape loc @ [CHR 0x22] @ ''>'' @ status_text
                @ ''</a>.'' @ newline @ newline) w1))
         else w1)"

subsection \<open>Facts\<close>

lemma byte_upper_lower: "upper_byte (upper_byte c) = upper_byte c" "lower_byte (upper_byte c) = lower_byte c"
    "upper_byte (lower_byte c) = upper_byte c" "lower_byte (lower_byte c) = lower_byte c"
  by (auto simp: upper_byte_def lower_byte_def less_eq_char_def)

lemma header_get_set: "header_get k (header_set k' v h) = (if canonical_key k = canonical_key k' then v else header_get k h)"
  by (simp add: header_get_def header_set_def header_values_def)

lemma header_values_set: "header_values k (header_set k' v h) = (if k = canonical_key k' then [v] else header_values k h)"
  by (simp add: header_set_def header_values_def)

lemma header_values_del: "gm_ok h \<Longrightarrow> header_values k (header_del k' h) = (if k = canonical_key k' then [] else header_values k h)"
  by (simp add: header_del_def header_values_def gomap_simps)

lemma header_ok: "gm_ok h \<Longrightarrow> gm_ok (header_set k v h)" "gm_ok h \<Longrightarrow> gm_ok (header_del k h)"
    "gm_ok h \<Longrightarrow> gm_ok (header_add k v h)"
  by (simp_all add: header_set_def header_del_def header_add_def gomap_simps)

lemma commit_header_simps:
  "w_status w = None \<Longrightarrow> body_allowed code \<Longrightarrow> commit_header code w = w\<lparr>w_status := Some code, w_sent := w_header w\<rparr>"
  "w_status w = Some c \<Longrightarrow> commit_header code w = w"
  by (auto simp: commit_header_def body_allowed_def)

text \<open>A body chunk that is accepted is appended as a whole; else a prefix of it is.\<close>

lemma write_body_props:
  assumes "write_body bs w = (n, ok, w')" "w_status w = Some c"
  shows "n \<le> length bs" "w_body w' = w_body w @ take n bs" "ok \<Longrightarrow> n = length bs"
    "w_status w' = Some c" "w_sent w' = w_sent w" "w_info w' = w_info w" "w_header w' = w_header w"
  using assms
  by (auto simp: write_body_def Let_def commit_header_simps split: if_splits option.splits)

text \<open>On a fresh response with room, an error page is its status and its message.\<close>

lemma http_error_fresh:
  assumes "w_status w = None" "w_room w = None" "body_allowed code"
  shows "http_error msg code w =
    w\<lparr>w_header := error_header (w_header w), w_status := Some code,
      w_sent := error_header (w_header w), w_body := w_body w @ msg @ newline\<rparr>"
  using assms by (simp add: http_error_def write_body_def commit_header_simps Let_def newline_def)

lemma write_body_keeps_status: "w_status w = Some c \<Longrightarrow> w_status (snd (snd (write_body bs w))) = Some c"
  using write_body_props(4) [of bs w] by (cases "write_body bs w") auto

lemma http_error_status: "body_allowed code \<Longrightarrow> w_status (http_error msg code fresh_writer) = Some code"
  by (simp add: http_error_fresh fresh_writer_def)

end
