(* ===== verification/Reverse_Proxy.thy ===== *)
theory Reverse_Proxy
  imports Go_Http
begin

section \<open>The counting response writer and httputil.ReverseProxy\<close>

text \<open>
  \<open>countingWriter\<close> of \<open>internal/proxy/router.go\<close> over the server's response writer, and
  \<open>ReverseProxy.ServeHTTP\<close> of Go's \<open>net/http/httputil\<close> in the order of Go 1.22, with
  the transport as a parameter: for an outgoing request it answers with informational
  responses and then an error or a response. Trailers are left out.
\<close>

subsection \<open>The counting writer\<close>

record counting =
  c_writer :: writer
  c_status :: int
  c_bytes :: int
  c_wrote :: bool

definition new_counting :: "writer \<Rightarrow> counting" where
  "new_counting w = \<lparr>c_writer = w, c_status = 200, c_bytes = 0, c_wrote = False\<rparr>"

definition cw_write_header :: "int \<Rightarrow> counting \<Rightarrow> counting option" where
  "cw_write_header code c =
     (let c1 = (if \<not> c_wrote c then c\<lparr>c_status := code, c_wrote := True\<rparr> else c)
      in map_option (\<lambda>w. c1\<lparr>c_writer := w\<rparr>) (write_header code (c_writer c)))"

definition cw_write :: "string \<Rightarrow> counting \<Rightarrow> nat \<times> bool \<times> counting" where
  "cw_write bs c =
     (let (n, ok, w) = write_body bs (c_writer c)
      in (n, ok, c\<lparr>c_writer := w, c_bytes := wrap64 (c_bytes c + int n), c_wrote := True\<rparr>))"

definition cw_flush :: "counting \<Rightarrow> counting" where
  "cw_flush c = c\<lparr>c_writer := flush (c_writer c)\<rparr>"

definition cw_map_header :: "(header \<Rightarrow> header) \<Rightarrow> counting \<Rightarrow> counting" where
  "cw_map_header f c = c\<lparr>c_writer := (c_writer c)\<lparr>w_header := f (w_header (c_writer c))\<rparr>\<rparr>"

text \<open>\<open>http.Error\<close> on the counting writer; the codes used are valid, so it does not panic.\<close>

definition cw_error :: "string \<Rightarrow> int \<Rightarrow> counting \<Rightarrow> counting" where
  "cw_error msg code c =
     (case cw_write_header code (cw_map_header error_header c) of
        None \<Rightarrow> c
      | Some c1 \<Rightarrow> snd (snd (cw_write (msg @ newline) c1)))"

subsection \<open>Copying a body\<close>

fun copy_chunks :: "(string \<Rightarrow> 's \<Rightarrow> nat \<times> bool \<times> 's) \<Rightarrow> string list \<Rightarrow> 's \<Rightarrow> bool \<times> 's" where
  "copy_chunks wr [] s = (True, s)"
| "copy_chunks wr (b # bs) s =
     (if b = [] then copy_chunks wr bs s
      else (let (n, ok, s1) = wr b s
            in if ok \<and> n = length b then copy_chunks wr bs s1 else (False, s1)))"

text \<open>
  The contract of a body sink: a write appends a prefix of the bytes, all of them on
  success. A copy loop over a sink then delivers a prefix of the whole body.
\<close>

locale body_sink =
  fixes wr :: "string \<Rightarrow> 's \<Rightarrow> nat \<times> bool \<times> 's"
    and body :: "'s \<Rightarrow> string"
  assumes wr_body: "wr bs s = (n, ok, s') \<Longrightarrow> body s' = body s @ take n bs"
    and wr_ok: "wr bs s = (n, True, s') \<Longrightarrow> n = length bs"
begin

lemma copy_all: "copy_chunks wr bs s = (True, s') \<Longrightarrow> body s' = body s @ concat bs"
proof (induction bs arbitrary: s)
  case (Cons b bs)
  obtain n ok s1 where w: "wr b s = (n, ok, s1)" by (cases "wr b s")
  with Cons.prems Cons.IH wr_body [OF w] show ?case
    by (fastforce split: if_splits)
qed simp

lemma copy_prefix: "copy_chunks wr bs s = (ok, s') \<Longrightarrow> \<exists>k. body s' = body s @ take k (concat bs)"
proof (induction bs arbitrary: s)
  case Nil
  then show ?case by (auto intro: exI [of _ 0])
next
  case (Cons b bs)
  obtain n ok1 s1 where w: "wr b s = (n, ok1, s1)" by (cases "wr b s")
  show ?case
  proof (cases "b = []")
    case True
    with Cons show ?thesis by simp
  next
    case ne: False
    show ?thesis
    proof (cases "ok1 \<and> n = length b")
      case True
      with Cons ne w obtain k where "body s' = body s1 @ take k (concat bs)" by fastforce
      with True wr_body [OF w] have "body s' = body s @ take (length b + k) (concat (b # bs))" by simp
      then show ?thesis ..
    next
      case False
      with Cons.prems ne w have "s' = s1" by (auto split: if_splits)
      with wr_body [OF w] have "body s' = body s @ take (min n (length b)) (concat (b # bs))"
        by (simp add: min_def)
      then show ?thesis ..
    qed
  qed
qed

end

lemma write_body_sink:
  "write_body bs w = (n, ok, w') \<Longrightarrow> w_body w' = w_body w @ take n bs"
  "write_body bs w = (n, True, w') \<Longrightarrow> n = length bs"
  by (auto simp: write_body_def Let_def commit_header_def split: if_splits option.splits)

interpretation raw_sink: body_sink write_body w_body
  by unfold_locales (auto dest: write_body_sink)

subsection \<open>Hop-by-hop headers\<close>

definition hop_headers :: "string list" where
  "hop_headers =
     [''Connection'', ''Proxy-Connection'', ''Keep-Alive'', ''Proxy-Authenticate'', ''Proxy-Authorization'',
      ''Te'', ''Trailer'', ''Transfer-Encoding'', ''Upgrade'']"

text \<open>The header names that the message itself declares hop-by-hop.\<close>

definition connection_named :: "header \<Rightarrow> string list" where
  "connection_named h =
     filter (\<lambda>s. s \<noteq> []) (map (trim_where is_mime_space)
       (concat (map (split_all (CHR '','')) (header_values ''Connection'' h))))"

definition remove_hop_headers :: "header \<Rightarrow> header" where
  "remove_hop_headers h = fold header_del hop_headers (fold header_del (connection_named h) h)"

definition upgrade_type :: "header \<Rightarrow> string" where
  "upgrade_type h =
     (if \<not> values_contain_token (header_values ''Connection'' h) ''Upgrade'' then []
      else header_get ''Upgrade'' h)"

subsection \<open>The outgoing request\<close>

definition forwarded_for :: "request \<Rightarrow> header \<Rightarrow> header" where
  "forwarded_for req h =
     (case split_host_port (rq_remote req) of
        None \<Rightarrow> h
      | Some (ip, _) \<Rightarrow>
          header_set ''X-Forwarded-For'' (concat (map (\<lambda>v. v @ '', '') (header_values ''X-Forwarded-For'' h)) @ ip) h)"

text \<open>
  What happens to the request after the director has run on the clone \<open>out\<close>: \<open>None\<close> when
  the client asks for a protocol whose name is not printable.
\<close>

definition prepare_header :: "request \<Rightarrow> header \<Rightarrow> header" where
  "prepare_header req h =
     (let up = upgrade_type h;
          h1 = remove_hop_headers h;
          h2 = (if values_contain_token (header_values ''Te'' (rq_header req)) ''trailers''
                then header_set ''Te'' ''trailers'' h1 else h1);
          h3 = (if up \<noteq> [] then header_set ''Upgrade'' up (header_set ''Connection'' ''Upgrade'' h2) else h2);
          h4 = forwarded_for req h3
      in if gm_get h4 ''User-Agent'' = None then header_set ''User-Agent'' [] h4 else h4)"

definition prepare_out :: "request \<Rightarrow> request \<Rightarrow> request option" where
  "prepare_out req out =
     (if \<not> ascii_print (upgrade_type (rq_header out)) then None
      else Some (out\<lparr>rq_header := prepare_header req (rq_header out)\<rparr>))"

subsection \<open>The upstream side and the exchange\<close>

text \<open>
  A response's body comes in chunks and may break off after them; a stream (an event
  stream or a body of unknown length) is flushed after every write.
\<close>

record response =
  rs_status :: int
  rs_header :: header
  rs_chunks :: "string list"
  rs_broken :: bool
  rs_stream :: bool

text \<open>The transport's answer: \<open>Inl True\<close> when the request's context was cancelled.\<close>

record reply =
  rp_info :: "(int \<times> header) list"
  rp_result :: "bool + response"

type_synonym transport = "request \<Rightarrow> reply"

text \<open>A handler returns, or panics with \<open>ErrAbortHandler\<close> (or on an invalid status code).\<close>

datatype exchange = Served counting | Aborted counting

definition send_info :: "int \<times> header \<Rightarrow> counting \<Rightarrow> counting option" where
  "send_info i c =
     map_option (cw_map_header (\<lambda>_. gm_empty)) (cw_write_header (fst i) (cw_map_header (copy_header (snd i)) c))"

fun send_infos :: "(int \<times> header) list \<Rightarrow> counting \<Rightarrow> counting option" where
  "send_infos [] c = Some c"
| "send_infos (i # is) c = (case send_info i c of None \<Rightarrow> None | Some c1 \<Rightarrow> send_infos is c1)"

text \<open>The error handler of the router: silent on cancellation, else 502.\<close>

definition proxy_error :: "bool \<Rightarrow> counting \<Rightarrow> counting" where
  "proxy_error cancelled c = (if cancelled then c else cw_error ''Bad Gateway'' 502 c)"

definition cw_send :: "bool \<Rightarrow> string \<Rightarrow> counting \<Rightarrow> nat \<times> bool \<times> counting" where
  "cw_send stream bs c =
     (let (n, ok, c1) = cw_write bs c in (n, ok, if stream then cw_flush c1 else c1))"

interpretation counted_sink: body_sink "cw_send stream" "\<lambda>c. w_body (c_writer c)" for stream
  by unfold_locales
    (auto simp: cw_send_def cw_write_def cw_flush_def flush_def commit_header_def dest: write_body_sink
      split: prod.splits)

definition send_response :: "(header \<Rightarrow> header) \<Rightarrow> response \<Rightarrow> counting \<Rightarrow> exchange" where
  "send_response modify res c =
     (case cw_write_header (rs_status res)
             (cw_map_header (copy_header (modify (remove_hop_headers (rs_header res)))) c) of
        None \<Rightarrow> Aborted c
      | Some c1 \<Rightarrow>
          (let (ok, c2) = copy_chunks (cw_send (rs_stream res)) (rs_chunks res) c1
           in if ok \<and> \<not> rs_broken res then Served c2 else Aborted c2))"

text \<open>
  A 101 response needs the client connection to be hijacked, which the counting writer
  does not offer: every outcome of the upgrade is the error handler.
\<close>

definition proxy_serve ::
  "(header \<Rightarrow> header) \<Rightarrow> transport \<Rightarrow> request \<Rightarrow> request \<Rightarrow> counting \<Rightarrow> exchange" where
  "proxy_serve modify transport req out c =
     (case prepare_out req out of
        None \<Rightarrow> Served (proxy_error False c)
      | Some out1 \<Rightarrow>
          (case send_infos (rp_info (transport out1)) c of
             None \<Rightarrow> Aborted c
           | Some c1 \<Rightarrow>
               (case rp_result (transport out1) of
                  Inl cancelled \<Rightarrow> Served (proxy_error cancelled c1)
                | Inr res \<Rightarrow>
                    if rs_status res = 101 then Served (proxy_error False c1)
                    else send_response modify res c1)))"

end
