(* ===== verification/Proxy_Exchange.thy ===== *)
theory Proxy_Exchange
  imports Reverse_Proxy
begin

section \<open>What the reverse proxy delivers, records and strips\<close>

text \<open>
  Theorems on the exchange of \<open>Reverse_Proxy\<close>: what the client receives of the upstream's
  answer, what the counting writer of \<open>internal/proxy/router.go\<close> keeps for the metrics, which
  headers cross the proxy, and what becomes of an upgrade.
\<close>

subsection \<open>The record kept by the counting writer\<close>

text \<open>
  The recorded status is the committed one unless an informational response came first,
  and the recorded bytes are the body's, at the width of the counter.
\<close>

definition counting_inv :: "counting \<Rightarrow> bool" where
  "counting_inv c \<longleftrightarrow>
     c_bytes c = wrap64 (int (length (w_body (c_writer c)))) \<and>
     (if c_wrote c then w_info (c_writer c) = [] \<longrightarrow> w_status (c_writer c) = Some (c_status c)
      else w_status (c_writer c) = None \<and> c_status c = 200 \<and> w_body (c_writer c) = [] \<and> w_info (c_writer c) = [])"

lemma wrap64_add: "wrap64 (wrap64 a + b) = wrap64 (a + b)"
proof -
  have "(((a + 2 ^ 63) mod 2 ^ 64 - 2 ^ 63) + b + 2 ^ 63) mod (2 :: int) ^ 64 = ((a + 2 ^ 63) mod 2 ^ 64 + b) mod 2 ^ 64"
    by (simp add: algebra_simps)
  also have "\<dots> = (a + 2 ^ 63 + b) mod 2 ^ 64" by (rule mod_add_left_eq)
  finally show ?thesis by (simp add: wrap64_def algebra_simps)
qed

lemma new_counting_inv:
  "w_status w = None \<Longrightarrow> w_body w = [] \<Longrightarrow> w_info w = [] \<Longrightarrow> counting_inv (new_counting w)"
  by (simp add: counting_inv_def new_counting_def wrap64_def)

lemma cw_map_header_inv: "counting_inv c \<Longrightarrow> counting_inv (cw_map_header f c)"
  by (simp add: counting_inv_def cw_map_header_def)

lemma commit_header_body [simp]: "w_body (commit_header code w) = w_body w"
  by (simp add: commit_header_def)

lemma cw_write_header_inv:
  "counting_inv c \<Longrightarrow> cw_write_header code c = Some c' \<Longrightarrow> counting_inv c' \<and> c_wrote c'"
  by (auto simp: counting_inv_def cw_write_header_def write_header_def commit_header_def Let_def
      split: if_splits)

lemma write_body_len: "write_body bs w = (n, ok, w') \<Longrightarrow> length (w_body w') = length (w_body w) + n"
  by (auto simp: write_body_def Let_def split: if_splits option.splits)

lemma write_body_status:
  "write_body bs w = (n, ok, w') \<Longrightarrow> w_status w' = w_status (commit_header 200 w) \<and> w_info w' = w_info w"
  by (auto simp: write_body_def Let_def commit_header_def split: if_splits option.splits)

lemma cw_write_inv:
  assumes "counting_inv c" "cw_write bs c = (n, ok, c')"
  shows "counting_inv c' \<and> c_wrote c'"
proof -
  obtain n' ok' w where w: "write_body bs (c_writer c) = (n', ok', w)" by (cases "write_body bs (c_writer c)")
  with assms(2) have c': "c' = c\<lparr>c_writer := w, c_bytes := wrap64 (c_bytes c + int n'), c_wrote := True\<rparr>" "n' = n" "ok' = ok"
    by (auto simp: cw_write_def)
  have "c_bytes c' = wrap64 (int (length (w_body (c_writer c'))))"
    using assms(1) by (simp add: c' counting_inv_def wrap64_add write_body_len [OF w])
  then show ?thesis
    using assms(1) write_body_status [OF w]
    by (auto simp: c' counting_inv_def commit_header_def split: if_splits)
qed

lemma cw_flush_inv: "counting_inv c \<Longrightarrow> c_wrote c \<Longrightarrow> counting_inv (cw_flush c) \<and> c_wrote (cw_flush c)"
  by (auto simp: counting_inv_def cw_flush_def flush_def commit_header_def)

lemma cw_send_inv:
  "counting_inv c \<Longrightarrow> cw_send s bs c = (n, ok, c') \<Longrightarrow> counting_inv c' \<and> c_wrote c'"
  using cw_write_inv cw_flush_inv by (auto simp: cw_send_def split: prod.splits if_splits)

lemma copy_chunks_inv:
  "counting_inv c \<Longrightarrow> copy_chunks (cw_send s) bs c = (ok, c') \<Longrightarrow> counting_inv c'"
proof (induction bs arbitrary: c)
  case (Cons b bs)
  obtain n k c1 where w: "cw_send s b c = (n, k, c1)" by (cases "cw_send s b c")
  with Cons cw_send_inv [OF Cons.prems(1) w] show ?case by (auto split: if_splits)
qed simp

lemma cw_error_inv: "counting_inv c \<Longrightarrow> counting_inv (cw_error msg code c)"
proof -
  assume c: "counting_inv c"
  show ?thesis
  proof (cases "cw_write_header code (cw_map_header error_header c)")
    case None
    with c show ?thesis by (simp add: cw_error_def)
  next
    case (Some c1)
    obtain n ok c2 where w: "cw_write (msg @ newline) c1 = (n, ok, c2)" by (cases "cw_write (msg @ newline) c1")
    from cw_write_header_inv [OF cw_map_header_inv [OF c] Some] cw_write_inv [OF _ w] Some w
    show ?thesis by (simp add: cw_error_def)
  qed
qed

lemma send_info_inv: "counting_inv c \<Longrightarrow> send_info i c = Some c' \<Longrightarrow> counting_inv c'"
proof -
  assume c: "counting_inv c" and s: "send_info i c = Some c'"
  obtain c2 where c2: "cw_write_header (fst i) (cw_map_header (copy_header (snd i)) c) = Some c2"
      "c' = cw_map_header (\<lambda>_. gm_empty) c2"
    using s by (auto simp: send_info_def)
  from cw_write_header_inv [OF cw_map_header_inv [OF c] c2(1)] show ?thesis
    by (simp add: c2(2) cw_map_header_inv)
qed

lemma send_infos_inv: "counting_inv c \<Longrightarrow> send_infos is c = Some c' \<Longrightarrow> counting_inv c'"
proof (induction "is" arbitrary: c)
  case (Cons i "is")
  then obtain c1 where c1: "send_info i c = Some c1" "send_infos is c1 = Some c'"
    by (auto split: option.splits)
  with Cons.IH send_info_inv [OF Cons.prems(1)] show ?case by blast
qed simp

lemma send_response_ServedE:
  assumes "send_response modify res c = Served c'"
  obtains c1 where "cw_write_header (rs_status res)
      (cw_map_header (copy_header (modify (remove_hop_headers (rs_header res)))) c) = Some c1"
    "copy_chunks (cw_send (rs_stream res)) (rs_chunks res) c1 = (True, c')" "\<not> rs_broken res"
  using assms by (auto simp: send_response_def split: option.splits prod.splits if_splits)

lemma send_response_inv:
  assumes "counting_inv c" "send_response modify res c = Served c'"
  shows "counting_inv c'"
  using assms(2)
  by (rule send_response_ServedE)
    (use cw_write_header_inv [OF cw_map_header_inv [OF assms(1)]] copy_chunks_inv in blast)

lemma proxy_error_inv: "counting_inv c \<Longrightarrow> counting_inv (proxy_error b c)"
  by (simp add: proxy_error_def cw_error_inv)

text \<open>The ways an exchange ends without a panic.\<close>

lemma proxy_serve_ServedE:
  assumes "proxy_serve modify transport req out c = Served c'"
  obtains (bad_upgrade) "prepare_out req out = None" "c' = proxy_error False c"
  | (failed) out1 c1 b where "prepare_out req out = Some out1" "send_infos (rp_info (transport out1)) c = Some c1"
      "rp_result (transport out1) = Inl b" "c' = proxy_error b c1"
  | (upgraded) out1 c1 res where "prepare_out req out = Some out1" "send_infos (rp_info (transport out1)) c = Some c1"
      "rp_result (transport out1) = Inr res" "rs_status res = 101" "c' = proxy_error False c1"
  | (answered) out1 c1 res where "prepare_out req out = Some out1" "send_infos (rp_info (transport out1)) c = Some c1"
      "rp_result (transport out1) = Inr res" "rs_status res \<noteq> 101" "send_response modify res c1 = Served c'"
  using assms by (auto simp: proxy_serve_def split: option.splits sum.splits if_splits)

lemma proxy_serve_inv:
  assumes "counting_inv c" "proxy_serve modify transport req out c = Served c'"
  shows "counting_inv c'"
  using assms(2)
proof (cases rule: proxy_serve_ServedE)
  case bad_upgrade
  then show ?thesis by (simp add: proxy_error_inv assms(1))
next
  case failed
  then show ?thesis using send_infos_inv [OF assms(1)] proxy_error_inv by blast
next
  case upgraded
  then show ?thesis using send_infos_inv [OF assms(1)] proxy_error_inv by blast
next
  case answered
  then show ?thesis using send_infos_inv [OF assms(1)] send_response_inv by blast
qed

subsection \<open>Headers that do not cross the proxy\<close>

lemma fold_del_ok: "gm_ok h \<Longrightarrow> gm_ok (fold header_del ks h)"
  by (induction ks arbitrary: h) (simp_all add: header_ok)

lemma fold_del_values:
  "gm_ok h \<Longrightarrow> header_values k (fold header_del ks h) = (if k \<in> canonical_key ` set ks then [] else header_values k h)"
  by (induction ks arbitrary: h) (simp_all add: header_ok header_values_del)

lemma remove_hop_ok: "gm_ok h \<Longrightarrow> gm_ok (remove_hop_headers h)"
  by (simp add: remove_hop_headers_def fold_del_ok)

lemma canonical_hop: "canonical_key ` set hop_headers = set hop_headers"
  unfolding hop_headers_def by code_simp

lemma remove_hop_values:
  "gm_ok h \<Longrightarrow> header_values k (remove_hop_headers h) =
     (if k \<in> set hop_headers \<or> k \<in> canonical_key ` set (connection_named h) then [] else header_values k h)"
  by (simp add: remove_hop_headers_def fold_del_values fold_del_ok canonical_hop)

lemma canonical_consts:
  "canonical_key ''Te'' = ''Te''" "canonical_key ''Connection'' = ''Connection''"
  "canonical_key ''Upgrade'' = ''Upgrade''" "canonical_key ''User-Agent'' = ''User-Agent''"
  "canonical_key ''X-Forwarded-For'' = ''X-Forwarded-For''"
  "canonical_key ''X-Real-IP'' = ''X-Real-Ip''" "canonical_key ''X-Forwarded-Proto'' = ''X-Forwarded-Proto''"
  "canonical_key ''X-Forwarded-Host'' = ''X-Forwarded-Host''" "canonical_key ''X-Real-Ip'' = ''X-Real-Ip''"
  by code_simp+

text \<open>The header names the proxy itself may put back after stripping.\<close>

definition readded :: "string list" where
  "readded = [''Te'', ''Connection'', ''Upgrade'', ''User-Agent'', ''X-Forwarded-For'']"

lemma forwarded_for_values:
  "k \<noteq> ''X-Forwarded-For'' \<Longrightarrow> header_values k (forwarded_for req h) = header_values k h"
  by (auto simp: forwarded_for_def header_values_set canonical_consts split: option.split)

lemma prepare_header_values:
  assumes "gm_ok h" "k \<notin> set readded"
  shows "header_values k (prepare_header req h) = header_values k (remove_hop_headers h)"
  using assms(2)
  by (simp add: prepare_header_def Let_def header_values_set forwarded_for_values canonical_consts readded_def)

definition sample_request :: request where
  "sample_request =
     \<lparr>rq_method = ''GET'',
      rq_url = \<lparr>ru_scheme = [], ru_opaque = [], ru_host = [], ru_path = ''/a'', ru_raw_path = [],
                ru_force_query = False, ru_raw_query = []\<rparr>,
      rq_host = ''example.com'',
      rq_header = [(''Connection'', [''close, X-Secret'']), (''X-Secret'', [''1'']), (''Accept'', [''*/*'']),
                   (''X-Forwarded-For'', [''1.1.1.1''])],
      rq_remote = ''10.0.0.9:4711'', rq_tls = False, rq_body = []\<rparr>"

lemma sample_request_ok: "gm_ok (rq_header sample_request)"
  by (simp add: sample_request_def gm_ok_def)

text \<open>
  Nothing hop-by-hop crosses the proxy. In the request handed to the transport every
  hop-by-hop header, and every header the client's \<open>Connection\<close> header names, is gone, except
  that \<open>Te\<close> may come back as \<open>trailers\<close> and \<open>Connection\<close> with \<open>Upgrade\<close> as one upgrade pair;
  all other headers of the director's request arrive unchanged.
\<close>

lemma prepare_strips_hop:
  assumes "prepare_out req out = Some out1" "gm_ok (rq_header out)"
  shows "\<forall>k. k \<notin> set readded \<longrightarrow>
      header_values k (rq_header out1) =
        (if k \<in> set hop_headers \<or> k \<in> canonical_key ` set (connection_named (rq_header out)) then []
         else header_values k (rq_header out))"
    and "header_values ''Te'' (rq_header out1) \<in> {[], [''trailers'']} \<and>
      (header_values ''Connection'' (rq_header out1) = [] \<and> header_values ''Upgrade'' (rq_header out1) = [] \<or>
       (\<exists>up. up \<noteq> [] \<and> header_values ''Connection'' (rq_header out1) = [''Upgrade''] \<and>
          header_values ''Upgrade'' (rq_header out1) = [up]))"
proof -
  have out1: "rq_header out1 = prepare_header req (rq_header out)"
    using assms(1) by (auto simp: prepare_out_def split: if_splits)
  show "\<forall>k. k \<notin> set readded \<longrightarrow>
      header_values k (rq_header out1) =
        (if k \<in> set hop_headers \<or> k \<in> canonical_key ` set (connection_named (rq_header out)) then []
         else header_values k (rq_header out))"
    by (simp add: out1 prepare_header_values remove_hop_values assms(2))
  show "header_values ''Te'' (rq_header out1) \<in> {[], [''trailers'']} \<and>
      (header_values ''Connection'' (rq_header out1) = [] \<and> header_values ''Upgrade'' (rq_header out1) = [] \<or>
       (\<exists>up. up \<noteq> [] \<and> header_values ''Connection'' (rq_header out1) = [''Upgrade''] \<and>
          header_values ''Upgrade'' (rq_header out1) = [up]))"
    by (simp add: out1 prepare_header_def Let_def header_values_set forwarded_for_values canonical_consts
        remove_hop_values assms(2) hop_headers_def)
qed


text \<open>
  The last hop of \<open>X-Forwarded-For\<close> is the peer. When the peer's address is well formed,
  the outgoing request carries a single \<open>X-Forwarded-For\<close> value, the client's own values
  (unless its \<open>Connection\<close> header withdrew them) followed by the address the connection
  really came from: a client can prepend hops but cannot forge or drop the last one.
\<close>

lemma prepare_forwarded_for:
  assumes "prepare_out req out = Some out1" "gm_ok (rq_header out)"
    and "split_host_port (rq_remote req) = Some (ip, port)"
  shows "header_values ''X-Forwarded-For'' (rq_header out1) =
    [concat (map (\<lambda>v. v @ '', '') (header_values ''X-Forwarded-For'' (remove_hop_headers (rq_header out)))) @ ip]"
proof -
  have out1: "rq_header out1 = prepare_header req (rq_header out)"
    using assms(1) by (auto simp: prepare_out_def split: if_splits)
  show ?thesis
    by (simp add: out1 prepare_header_def Let_def header_values_set forwarded_for_def canonical_consts assms(3))
qed


subsection \<open>What reaches the client and what is recorded\<close>

lemma cw_write_header_valid:
  "100 \<le> code \<Longrightarrow> code \<le> 999 \<Longrightarrow> \<exists>c'. cw_write_header code c = Some c'"
  by (simp add: cw_write_header_def write_header_def Let_def)

lemma cw_error_wrote: "counting_inv c \<Longrightarrow> 100 \<le> code \<Longrightarrow> code \<le> 999 \<Longrightarrow> c_wrote (cw_error msg code c)"
  using cw_write_header_valid [of code "cw_map_header error_header c"]
  by (auto simp: cw_error_def cw_write_def split: prod.split)

lemma copy_chunks_wrote: "counting_inv c \<Longrightarrow> c_wrote c \<Longrightarrow> copy_chunks (cw_send s) bs c = (ok, c') \<Longrightarrow> c_wrote c'"
proof (induction bs arbitrary: c)
  case (Cons b bs)
  obtain n k c1 where w: "cw_send s b c = (n, k, c1)" by (cases "cw_send s b c")
  with Cons cw_send_inv [OF Cons.prems(1) w] show ?case by (auto split: if_splits)
qed simp

lemma send_response_wrote:
  assumes "counting_inv c" "send_response modify res c = Served c'"
  shows "c_wrote c'"
  using assms(2)
  by (rule send_response_ServedE)
    (use cw_write_header_inv [OF cw_map_header_inv [OF assms(1)]] copy_chunks_wrote in blast)

definition sample_reply :: reply where
  "sample_reply =
     \<lparr>rp_info = [],
      rp_result = Inr \<lparr>rs_status = 200, rs_header = [(''Content-Type'', [''text/plain''])],
                       rs_chunks = [''hello '', ''world''], rs_broken = False, rs_stream = True\<rparr>\<rparr>"



text \<open>No operation but an informational status line adds to the informational responses.\<close>

lemma cw_write_header_info:
  "cw_write_header code c = Some c' \<Longrightarrow> code = 101 \<or> \<not> (100 \<le> code \<and> code \<le> 199) \<Longrightarrow>
     w_info (c_writer c') = w_info (c_writer c)"
  by (auto simp: cw_write_header_def write_header_def commit_header_def Let_def split: if_splits)

lemma cw_send_info: "cw_send s bs c = (n, ok, c') \<Longrightarrow> w_info (c_writer c') = w_info (c_writer c)"
  using write_body_status
  by (fastforce simp: cw_send_def cw_write_def cw_flush_def flush_def commit_header_def split: prod.splits if_splits)

lemma copy_chunks_info:
  "copy_chunks (cw_send s) bs c = (ok, c') \<Longrightarrow> w_info (c_writer c') = w_info (c_writer c)"
proof (induction bs arbitrary: c)
  case (Cons b bs)
  obtain n k c1 where w: "cw_send s b c = (n, k, c1)" by (cases "cw_send s b c")
  with Cons cw_send_info [OF w] show ?case by (auto split: if_splits)
qed simp

lemma cw_map_header_info [simp]: "w_info (c_writer (cw_map_header f c)) = w_info (c_writer c)"
  by (simp add: cw_map_header_def)

lemma cw_error_info: "200 \<le> code \<Longrightarrow> w_info (c_writer (cw_error msg code c)) = w_info (c_writer c)"
proof (cases "cw_write_header code (cw_map_header error_header c)")
  case (Some c1)
  assume "200 \<le> code"
  then have "w_info (c_writer c1) = w_info (c_writer c)"
    using cw_write_header_info [OF Some] by simp
  moreover obtain n ok c2 where w: "cw_write (msg @ newline) c1 = (n, ok, c2)"
    by (cases "cw_write (msg @ newline) c1")
  moreover from w have "w_info (c_writer c2) = w_info (c_writer c1)"
    using cw_send_info [of False "msg @ newline" c1 n ok c2] by (simp add: cw_send_def)
  ultimately show ?thesis by (simp add: cw_error_def Some)
qed (simp add: cw_error_def)

lemma send_response_info:
  assumes "send_response modify res c = Served c'" "\<not> (100 \<le> rs_status res \<and> rs_status res \<le> 199)"
  shows "w_info (c_writer c') = w_info (c_writer c)"
  using assms(1)
proof (rule send_response_ServedE)
  fix c1
  assume "cw_write_header (rs_status res)
      (cw_map_header (copy_header (modify (remove_hop_headers (rs_header res)))) c) = Some c1"
    and "copy_chunks (cw_send (rs_stream res)) (rs_chunks res) c1 = (True, c')"
  from cw_write_header_info [OF this(1)] copy_chunks_info [OF this(2)] assms(2) show ?thesis by simp
qed

text \<open>The transport's contract on codes: a final answer is 101 or not informational.\<close>

definition final_code :: "reply \<Rightarrow> bool" where
  "final_code r \<longleftrightarrow>
     (case rp_result r of Inl _ \<Rightarrow> True
      | Inr res \<Rightarrow> rs_status res = 101 \<or> \<not> (100 \<le> rs_status res \<and> rs_status res \<le> 199))"

lemma proxy_serve_committed:
  assumes "\<And>rq. rp_info (transport rq) = [] \<and> rp_result (transport rq) \<noteq> Inl True \<and> final_code (transport rq)"
    and "proxy_serve modify transport req out (new_counting fresh_writer) = Served c"
  shows "w_status (c_writer c) = Some (c_status c)"
proof -
  let ?c = "new_counting fresh_writer"
  have inv: "counting_inv ?c" by (simp add: new_counting_inv fresh_writer_def)
  have info: "w_info (c_writer ?c) = []" by (simp add: new_counting_def fresh_writer_def)
  have err: "c_wrote (proxy_error False ?c) \<and> w_info (c_writer (proxy_error False ?c)) = []"
    using cw_error_wrote [OF inv] cw_error_info [of 502 _ ?c] info by (simp add: proxy_error_def)
  have "c_wrote c \<and> w_info (c_writer c) = []"
    using assms(2)
  proof (cases rule: proxy_serve_ServedE)
    case bad_upgrade
    with err show ?thesis by simp
  next
    case (failed out1 c1 b)
    with err assms(1) [of out1] show ?thesis by (cases b) auto
  next
    case (upgraded out1 c1 res)
    with err assms(1) [of out1] show ?thesis by simp
  next
    case (answered out1 c1 res)
    with assms(1) [of out1] have c1: "c1 = ?c" and "\<not> (100 \<le> rs_status res \<and> rs_status res \<le> 199)"
      by (auto simp: final_code_def)
    with send_response_wrote [OF inv] send_response_info answered(5) info show ?thesis by metis
  qed
  with proxy_serve_inv [OF inv assms(2)] show ?thesis by (simp add: counting_inv_def)
qed

text \<open>
  An informational response spoils the record. If the upstream sends informational
  responses before its answer, the status recorded for the metrics is the first of their
  codes, whatever final status the client gets: a failing upstream that first sends 103 is
  not counted as an error.\<close>
lemma informational_recorded:
  assumes "prepare_out req out = Some out1" "rp_info (transport out1) = (code, h) # infos"
    and "100 \<le> code" "code \<le> 199" "code \<noteq> 101"
    and "proxy_serve modify transport req out (new_counting fresh_writer) = Served c"
  shows "c_status c = code"
proof -
  let ?keep = "\<lambda>c. c_wrote c \<and> c_status c = code"
  have hdr: "cw_write_header k d = Some d' \<Longrightarrow> ?keep d \<Longrightarrow> ?keep d'" for k d d'
    by (auto simp: cw_write_header_def Let_def)
  have mp: "?keep d \<Longrightarrow> ?keep (cw_map_header f d)" for f d by (simp add: cw_map_header_def)
  have wr: "cw_send s bs d = (n, ok, d') \<Longrightarrow> ?keep d \<Longrightarrow> ?keep d'" for s bs d n ok d'
    by (auto simp: cw_send_def cw_write_def cw_flush_def split: prod.splits if_splits)
  have copy: "copy_chunks (cw_send s) bs d = (ok, d') \<Longrightarrow> ?keep d \<Longrightarrow> ?keep d'" for s bs d ok d'
  proof (induction bs arbitrary: d)
    case (Cons b bs)
    obtain n k d1 where w: "cw_send s b d = (n, k, d1)" by (cases "cw_send s b d")
    with Cons wr [OF w] show ?case by (auto split: if_splits)
  qed simp
  have info: "send_info i d = Some d' \<Longrightarrow> ?keep d \<Longrightarrow> ?keep d'" for i d d'
    using hdr mp by (fastforce simp: send_info_def)
  have infos: "send_infos is d = Some d' \<Longrightarrow> ?keep d \<Longrightarrow> ?keep d'" for "is" d d'
    using info by (induction "is" arbitrary: d) (fastforce split: option.splits)+
  have err: "?keep d \<Longrightarrow> ?keep (proxy_error b d)" for b d
    using hdr mp by (auto simp: proxy_error_def cw_error_def cw_write_def split: option.splits prod.splits)
  have resp: "send_response modify res d = Served d' \<Longrightarrow> ?keep d \<Longrightarrow> ?keep d'" for res d d'
    by (erule send_response_ServedE) (use hdr mp copy in blast)
  obtain d0 where "send_info (code, h) (new_counting fresh_writer) = Some d0" "?keep d0"
    using assms(3-5)
    by (auto simp: send_info_def cw_write_header_def cw_map_header_def new_counting_def fresh_writer_def
        write_header_def)
  then have first: "send_infos ((code, h) # infos) (new_counting fresh_writer) = Some d \<Longrightarrow> ?keep d" for d
    using infos by simp
  from assms(6) have "?keep c"
  proof (cases rule: proxy_serve_ServedE)
    case bad_upgrade
    with assms(1) show ?thesis by simp
  next
    case failed
    with assms(1,2) first err show ?thesis by simp
  next
    case upgraded
    with assms(1,2) first err show ?thesis by simp
  next
    case answered
    with assms(1,2) first resp show ?thesis by simp
  qed
  then show ?thesis by simp
qed

definition early_reply :: reply where
  "early_reply =
     \<lparr>rp_info = [(103, [(''Link'', [''a'']) ])],
      rp_result = Inr \<lparr>rs_status = 500, rs_header = [], rs_chunks = [], rs_broken = False, rs_stream = False\<rparr>\<rparr>"

lemma informational_recorded_witness:
  "\<exists>c. proxy_serve (\<lambda>h. h) (\<lambda>_. early_reply) sample_request sample_request (new_counting fresh_writer) = Served c \<and>
     c_status c = 103 \<and> w_status (c_writer c) = Some 500"
proof -
  let ?e = "proxy_serve (\<lambda>h. h) (\<lambda>_. early_reply) sample_request sample_request (new_counting fresh_writer)"
  have "case ?e of Served c \<Rightarrow> w_status (c_writer c) = Some 500 | Aborted c \<Rightarrow> False" by code_simp
  then obtain c where c: "?e = Served c" "w_status (c_writer c) = Some 500" by (cases ?e) auto
  have "prepare_out sample_request sample_request \<noteq> None" by code_simp
  then obtain out1 where o1: "prepare_out sample_request sample_request = Some out1" by blast
  have "c_status c = 103"
    by (rule informational_recorded [OF o1 _ _ _ _ c(1)]) (simp_all add: early_reply_def)
  with c show ?thesis by blast
qed


definition switching :: response where
  "switching =
     \<lparr>rs_status = 101, rs_header = [(''Upgrade'', [''websocket''])], rs_chunks = [], rs_broken = False,
      rs_stream = False\<rparr>"


end
