(* ===== verification/Router.thy ===== *)
theory Router
  imports Config_Store Pool Limiter Metrics Proxy_Exchange
begin

section \<open>The router: runtimes, director, and the request path\<close>

text \<open>
  \<open>internal/proxy/router.go\<close> and \<open>ClientIP\<close> of \<open>ratelimit.go\<close>. The map of runtimes holds
  pointers, several keys sharing one runtime: a pointer is a position in the heap of
  runtimes, so that a pool or a limiter advanced under one name is advanced under all. The
  upstream side is the transport parameter; the clock is read through a tick. A request is
  one step; \<open>Reload\<close> is one step, apart from the replacement of the store before it.
\<close>

subsection \<open>Pre-filters\<close>

text \<open>
  The literals of the two patterns match case-insensitively, by Go's folding: besides the
  ASCII cases, \<open>k\<close> also matches the Kelvin sign and \<open>s\<close> the long s, in UTF-8.
\<close>

definition fold_step :: "char \<Rightarrow> string \<Rightarrow> string option" where
  "fold_step p s =
     (case s of
        [] \<Rightarrow> None
      | c # t \<Rightarrow>
          if lower_byte c = p then Some t
          else if p = CHR ''k'' \<and> take 3 s = [CHR 0xE2, CHR 0x84, CHR 0xAA] then Some (drop 3 s)
          else if p = CHR ''s'' \<and> take 2 s = [CHR 0xC5, CHR 0xBF] then Some (drop 2 s)
          else None)"

fun ci_prefix :: "string \<Rightarrow> string \<Rightarrow> bool" where
  "ci_prefix [] s = True"
| "ci_prefix (p # ps) s = (case fold_step p s of None \<Rightarrow> False | Some t \<Rightarrow> ci_prefix ps t)"

fun ci_contains :: "string \<Rightarrow> string \<Rightarrow> bool" where
  "ci_contains p [] = ci_prefix p []"
| "ci_contains p (c # s) = (ci_prefix p (c # s) \<or> ci_contains p s)"

definition exploit_paths :: "string list" where
  "exploit_paths =
     [''wp-admin'', ''wp-login.php'', ''wp-content'', ''xmlrpc.php'', ''.env'', ''.git'', ''phpmyadmin'',
      ''administrator'', ''cgi-bin'', ''server-status'', ''owa/'']"

definition common_exploit :: "string \<Rightarrow> bool" where
  "common_exploit path \<longleftrightarrow> list_ex (\<lambda>p. ci_prefix (CHR ''/'' # p) path) exploit_paths"

definition scanner_names :: "string list" where
  "scanner_names =
     [''sqlmap'', ''nikto'', ''nmap'', ''masscan'', ''acunetix'', ''nessus'', ''libwww-perl'', ''whatweb'', ''wpscan'']"

definition scanner_ua :: "string \<Rightarrow> bool" where
  "scanner_ua ua \<longleftrightarrow> list_ex (\<lambda>n. ci_contains n ua) scanner_names"

subsection \<open>Small helpers\<close>

definition client_ip :: "request \<Rightarrow> bool \<Rightarrow> string" where
  "client_ip req trust =
     (let xff = header_get ''X-Forwarded-For'' (rq_header req);
          xri = header_get ''X-Real-IP'' (rq_header req);
          peer = (case split_host_port (rq_remote req) of None \<Rightarrow> rq_remote req | Some (h, _) \<Rightarrow> h)
      in if trust \<and> xff \<noteq> [] then
           (case index_byte (CHR '','') xff of Some i \<Rightarrow> trim_space (take i xff) | None \<Rightarrow> trim_space xff)
         else if trust \<and> xri \<noteq> [] then trim_space xri
         else peer)"

definition single_join :: "string \<Rightarrow> string \<Rightarrow> string" where
  "single_join a b =
     (if a = [] \<or> a = ''/'' then b
      else if b = [] \<or> b = ''/'' then a
      else if last a = CHR ''/'' \<and> hd b = CHR ''/'' then a @ tl b
      else if last a \<noteq> CHR ''/'' \<and> hd b \<noteq> CHR ''/'' then a @ ''/'' @ b
      else a @ b)"

definition scheme_of :: "request \<Rightarrow> string" where
  "scheme_of req =
     (if rq_tls req then ''https''
      else let xf = header_get ''X-Forwarded-Proto'' (rq_header req) in if xf \<noteq> [] then xf else ''http'')"

definition log_byte :: "char \<Rightarrow> bool" where
  "log_byte c \<longleftrightarrow> is_alpha c \<or> is_digit c \<or> c = CHR ''.'' \<or> c = CHR '':'' \<or> c = CHR ''-''"

definition sanitize_host_for_log :: "string \<Rightarrow> string" where
  "sanitize_host_for_log host = filter log_byte (take 253 host)"

subsection \<open>State\<close>

record runtime =
  rn_site :: site
  rn_pool :: pool
  rn_limiter :: "limiter option"

record router =
  ro_store :: store
  ro_registry :: registry
  ro_trust :: bool
  ro_heap :: "runtime list"
  ro_runtimes :: "(string, nat) gomap"
  ro_stopping :: bool

definition new_router :: "store \<Rightarrow> registry \<Rightarrow> bool \<Rightarrow> router" where
  "new_router st reg trust =
     \<lparr>ro_store = st, ro_registry = reg, ro_trust = trust, ro_heap = [], ro_runtimes = gm_empty, ro_stopping = False\<rparr>"

definition make_runtime :: "site \<Rightarrow> pool \<Rightarrow> runtime" where
  "make_runtime s p =
     \<lparr>rn_site = s, rn_pool = p,
      rn_limiter = (if rl_enabled (s_rate_limit s)
                    then new_limiter (rl_rps (s_rate_limit s)) (rl_burst (s_rate_limit s)) else None)\<rparr>"

definition add_runtime :: "site \<Rightarrow> runtime list \<times> (string, nat) gomap \<Rightarrow> runtime list \<times> (string, nat) gomap" where
  "add_runtime s hm =
     (if \<not> s_enabled s then hm
      else (case new_pool (s_upstreams s) of
              None \<Rightarrow> hm
            | Some p \<Rightarrow>
                (fst hm @ [make_runtime s p],
                 fold (\<lambda>d. gm_put d (length (fst hm))) (s_domain s # s_aliases s) (snd hm))))"

definition reload :: "site list \<Rightarrow> router \<Rightarrow> router" where
  "reload sites r =
     (let (heap, next) = fold add_runtime sites ([], gm_empty)
      in r\<lparr>ro_heap := heap, ro_runtimes := next\<rparr>)"

definition stop :: "router \<Rightarrow> router" where
  "stop r = r\<lparr>ro_stopping := True\<rparr>"

subsection \<open>The reverse proxy of a site\<close>

definition direct_to :: "bool \<Rightarrow> url \<Rightarrow> request \<Rightarrow> request" where
  "direct_to trust t req =
     (let u = (rq_url req)\<lparr>ru_scheme := u_scheme t, ru_host := u_host t,
                ru_path := (if u_path t \<noteq> [] \<and> u_path t \<noteq> ''/'' then single_join (u_path t) (ru_path (rq_url req))
                            else ru_path (rq_url req))\<rparr>;
          req1 = req\<lparr>rq_url := u, rq_header := header_set ''X-Forwarded-Host'' (rq_host req) (rq_header req)\<rparr>;
          req2 = req1\<lparr>rq_header := header_set ''X-Forwarded-Proto'' (scheme_of req1) (rq_header req1)\<rparr>
      in req2\<lparr>rq_header := header_set ''X-Real-IP'' (client_ip req2 trust) (rq_header req2)\<rparr>)"

definition director :: "bool \<Rightarrow> pool \<Rightarrow> request \<Rightarrow> request \<times> pool" where
  "director trust p req =
     (let (target, p1) = pool_next p
      in (case target of None \<Rightarrow> req | Some t \<Rightarrow> direct_to trust t req, p1))"

definition modify_response :: "(string \<times> string) list \<Rightarrow> header \<Rightarrow> header" where
  "modify_response custom h = fold (\<lambda>(k, v). header_set k v) custom h"

subsection \<open>The request path\<close>

record tick =
  tk_now :: int
  tk_sec :: int
  tk_latency :: int

datatype outcome = Finished writer | Panicked writer

definition record_metric :: "string \<Rightarrow> int \<Rightarrow> int \<Rightarrow> tick \<Rightarrow> router \<Rightarrow> router option" where
  "record_metric d status bytes tk r =
     map_option (\<lambda>reg. r\<lparr>ro_registry := reg\<rparr>)
       (registry_record d (tk_sec tk) \<lparr>sm_status = status, sm_bytes = bytes, sm_latency = tk_latency tk\<rparr>
         (ro_registry r))"

text \<open>Ending a handler with a record; a panic of the record leaves the registry as it was.\<close>

definition finish :: "string \<Rightarrow> int \<Rightarrow> int \<Rightarrow> tick \<Rightarrow> writer \<Rightarrow> router \<Rightarrow> outcome \<times> router" where
  "finish d status bytes tk w r =
     (case record_metric d status bytes tk r of None \<Rightarrow> (Panicked w, r) | Some r1 \<Rightarrow> (Finished w, r1))"

definition set_runtime :: "nat \<Rightarrow> runtime \<Rightarrow> router \<Rightarrow> router" where
  "set_runtime i rt r = r\<lparr>ro_heap := (ro_heap r)[i := rt]\<rparr>"

definition proxy_request ::
  "transport \<Rightarrow> tick \<Rightarrow> writer \<Rightarrow> request \<Rightarrow> string \<Rightarrow> nat \<Rightarrow> router \<Rightarrow> outcome \<times> router" where
  "proxy_request tr tk w req d i r =
     (let rt = ro_heap r ! i;
          (out, p1) = director (ro_trust r) (rn_pool rt) req;
          r1 = set_runtime i (rt\<lparr>rn_pool := p1\<rparr>) r
      in case proxy_serve (modify_response (s_custom_headers (rn_site rt))) tr req out (new_counting w) of
           Served c \<Rightarrow> finish d (c_status c) (c_bytes c) tk (c_writer c) r1
         | Aborted c \<Rightarrow> (Panicked (c_writer c), r1))"

definition serve_runtime ::
  "transport \<Rightarrow> tick \<Rightarrow> writer \<Rightarrow> request \<Rightarrow> string \<Rightarrow> nat \<Rightarrow> router \<Rightarrow> outcome \<times> router" where
  "serve_runtime tr tk w req d i r =
     (let rt = ro_heap r ! i;
          (ok, l1) = allow (client_ip req (ro_trust r), tk_now tk) (rn_limiter rt);
          r1 = set_runtime i (rt\<lparr>rn_limiter := l1\<rparr>) r
      in if \<not> ok then finish d 429 0 tk (http_error ''Too Many Requests'' 429 w) r1
         else proxy_request tr tk w req d i r1)"

definition serve_http ::
  "transport \<Rightarrow> tick \<Rightarrow> writer \<Rightarrow> request \<Rightarrow> router \<Rightarrow> outcome \<times> router" where
  "serve_http tr tk w req r =
     (if ro_stopping r then (Finished (http_error ''Service Unavailable'' 503 w), r)
      else (case lookup_site (ro_store r) (rq_host req) of
              None \<Rightarrow>
                (Finished (http_error (''No site configured for '' @ sanitize_host_for_log (rq_host req)) 404 w), r)
            | Some s \<Rightarrow>
                if s_http_to_https s \<and> \<not> rq_tls req then
                  (Finished (http_redirect (rq_method req) (''https://'' @ rq_host req @ request_uri (rq_url req))
                     301 ''Moved Permanently'' w), r)
                else if s_block_exploits s \<and>
                    (common_exploit (ru_path (rq_url req)) \<or> scanner_ua (user_agent req)) then
                  (Finished (http_error ''Forbidden'' 403 w), r)
                else (case gm_get (ro_runtimes r) (s_domain s) of
                        None \<Rightarrow> (Finished (http_error ''Service Unavailable'' 503 w), r)
                      | Some i \<Rightarrow> serve_runtime tr tk w req (s_domain s) i r)))"

end
