(* ===== verification/Routing.thy ===== *)
theory Routing
  imports Router
begin

section \<open>What the router promises: runtimes, isolation of sites, filters, accounting\<close>

text \<open>
  Theorems on the router: the runtimes a reload builds against an abstract table of names,
  the upstream a request ends at, and the invariant \<open>consistent\<close> of index, runtimes and site
  list, which every request keeps.
\<close>

subsection \<open>Reload builds the runtimes of the site list\<close>

definition runtime_of :: "router \<Rightarrow> string \<Rightarrow> runtime option" where
  "runtime_of r d = map_option ((!) (ro_heap r)) (gm_get (ro_runtimes r) d)"

text \<open>
  The abstract runtime table: a name belongs to the last enabled site with usable upstreams
  that lists it, letter for letter, as its domain or an alias.
\<close>

definition builds :: "site \<Rightarrow> string \<Rightarrow> bool" where
  "builds s d \<longleftrightarrow> s_enabled s \<and> new_pool (s_upstreams s) \<noteq> None \<and> d \<in> set (all_domains s)"

definition site_runtime :: "site \<Rightarrow> runtime" where
  "site_runtime s = make_runtime s (the (new_pool (s_upstreams s)))"

definition runtime_spec :: "site list \<Rightarrow> string \<Rightarrow> runtime option" where
  "runtime_spec sites d = map_option site_runtime (find (\<lambda>s. builds s d) (rev sites))"

definition heap_ok :: "runtime list \<times> (string, nat) gomap \<Rightarrow> bool" where
  "heap_ok hm \<longleftrightarrow> gm_ok (snd hm) \<and> (\<forall>d i. gm_get (snd hm) d = Some i \<longrightarrow> i < length (fst hm))"

definition at_name :: "runtime list \<times> (string, nat) gomap \<Rightarrow> string \<Rightarrow> runtime option" where
  "at_name hm d = map_option ((!) (fst hm)) (gm_get (snd hm) d)"

lemma put_names_get:
  "gm_get (fold (\<lambda>d. gm_put d i) ds m) x = (if x \<in> set ds then Some i else gm_get m x)"
  using fold_put_const [of "\<lambda>d. d" i ds m x] by simp

lemma put_names_ok: "gm_ok m \<Longrightarrow> gm_ok (fold (\<lambda>d. gm_put d i) ds m)"
  using fold_put_const_ok [of m "\<lambda>d. d" i ds] by simp

lemma add_runtime_step:
  assumes "heap_ok hm"
  shows "heap_ok (add_runtime s hm)"
    and "at_name (add_runtime s hm) d = (if builds s d then Some (site_runtime s) else at_name hm d)"
proof -
  have "heap_ok (add_runtime s hm) \<and>
      at_name (add_runtime s hm) d = (if builds s d then Some (site_runtime s) else at_name hm d)"
  proof (cases "s_enabled s \<and> new_pool (s_upstreams s) \<noteq> None")
    case True
    then obtain p where p: "s_enabled s" "new_pool (s_upstreams s) = Some p" by blast
    then have add: "add_runtime s hm = (fst hm @ [make_runtime s p],
        fold (\<lambda>d. gm_put d (length (fst hm))) (all_domains s) (snd hm))"
      by (simp add: add_runtime_def all_domains_def)
    have bound: "gm_get (snd hm) x = Some i \<Longrightarrow> i < length (fst hm)" for x i
      using assms by (auto simp: heap_ok_def)
    then have "heap_ok (add_runtime s hm)"
      using assms by (auto simp: add heap_ok_def put_names_ok put_names_get less_Suc_eq split: if_splits)
    moreover have "at_name (add_runtime s hm) d = (if d \<in> set (all_domains s) then Some (make_runtime s p) else at_name hm d)"
      using bound by (cases "gm_get (snd hm) d") (auto simp: add at_name_def put_names_get nth_append)
    ultimately show ?thesis using p by (simp add: builds_def site_runtime_def)
  next
    case False
    then show ?thesis using assms by (auto simp: add_runtime_def builds_def split: option.split)
  qed
  then show "heap_ok (add_runtime s hm)"
    and "at_name (add_runtime s hm) d = (if builds s d then Some (site_runtime s) else at_name hm d)" by auto
qed

lemma fold_add_runtime:
  "heap_ok (fold add_runtime ss ([], gm_empty)) \<and>
   at_name (fold add_runtime ss ([], gm_empty)) d = runtime_spec ss d"
proof (induction ss rule: rev_induct)
  case Nil
  then show ?case by (simp add: heap_ok_def at_name_def runtime_spec_def)
next
  case (snoc s ss)
  then show ?case by (simp add: add_runtime_step runtime_spec_def)
qed

lemma reload_fields:
  "ro_store (reload ss r) = ro_store r" "ro_registry (reload ss r) = ro_registry r"
  "ro_trust (reload ss r) = ro_trust r" "ro_stopping (reload ss r) = ro_stopping r"
  "(ro_heap (reload ss r), ro_runtimes (reload ss r)) = fold add_runtime ss ([], gm_empty)"
  by (simp_all add: reload_def Let_def split: prod.split)

text \<open>
  C20: a reload builds exactly the runtimes of the new site list. Whatever was there before,
  a name then has the fresh runtime (pool of the parsed upstreams, limiter of the settings)
  of the last enabled site with parsable upstreams that lists the name, and no runtime when
  there is none: nothing of the previous configuration survives.\<close>
theorem reload_refines: "runtime_of (reload ss r) d = runtime_spec ss d"
proof -
  have "runtime_of (reload ss r) d = at_name (ro_heap (reload ss r), ro_runtimes (reload ss r)) d"
    by (simp add: runtime_of_def at_name_def)
  then show ?thesis by (simp only: reload_fields(5) fold_add_runtime)
qed

subsection \<open>Consistency of the serving state with the site list\<close>

text \<open>
  Between two reloads the store and the runtimes come from the same list; requests change
  pools' counters, limiters and metrics only.
\<close>

definition shape :: "runtime \<Rightarrow> site \<times> url list" where
  "shape rt = (rn_site rt, p_urls (rn_pool rt))"

definition consistent :: "site list \<Rightarrow> router \<Rightarrow> bool" where
  "consistent ss r \<longleftrightarrow>
     heap_ok (ro_heap r, ro_runtimes r) \<and> (\<forall>h. lookup_site (ro_store r) h = route_spec ss h) \<and>
     (\<forall>d. map_option shape (runtime_of r d) = map_option shape (runtime_spec ss d))"

definition install :: "site list \<Rightarrow> router \<Rightarrow> router" where
  "install ss r = reload ss (r\<lparr>ro_store := replace_sites ss (ro_store r)\<rparr>)"

lemma runtime_of_reload: "runtime_of (reload ss r) d = runtime_spec ss d"
proof -
  have "runtime_of (reload ss r) d = at_name (ro_heap (reload ss r), ro_runtimes (reload ss r)) d"
    by (simp add: runtime_of_def at_name_def)
  then show ?thesis by (simp only: reload_fields(5) fold_add_runtime)
qed

lemma install_consistent: "consistent ss (install ss r)"
  using fold_add_runtime [of ss]
  by (simp add: consistent_def install_def runtime_of_reload reload_fields store.lookup_replace)

text \<open>A change of one cell that keeps its shape keeps consistency.\<close>

lemma set_runtime_fields [simp]:
  "ro_store (set_runtime i rt r) = ro_store r" "ro_runtimes (set_runtime i rt r) = ro_runtimes r"
  "ro_trust (set_runtime i rt r) = ro_trust r" "ro_registry (set_runtime i rt r) = ro_registry r"
  "ro_stopping (set_runtime i rt r) = ro_stopping r"
  by (simp_all add: set_runtime_def)

definition same_shape :: "router \<Rightarrow> router \<Rightarrow> bool" where
  "same_shape r r' \<longleftrightarrow>
     ro_store r' = ro_store r \<and> ro_runtimes r' = ro_runtimes r \<and> ro_trust r' = ro_trust r \<and>
     ro_stopping r' = ro_stopping r \<and> map shape (ro_heap r') = map shape (ro_heap r)"

lemma same_shape_refl [simp]: "same_shape r r"
  by (simp add: same_shape_def)

lemma same_shape_trans: "same_shape r r' \<Longrightarrow> same_shape r' r'' \<Longrightarrow> same_shape r r''"
  by (simp add: same_shape_def)

lemma same_shape_set_runtime:
  assumes "shape rt = shape (ro_heap r ! i)"
  shows "same_shape r (set_runtime i rt r)"
proof -
  have "map shape ((ro_heap r)[i := rt]) = map shape (ro_heap r)"
    using assms by (metis list_update_id map_update)
  then show ?thesis by (simp add: same_shape_def set_runtime_def)
qed

lemma record_metric_shape: "record_metric d st b tk r = Some r' \<Longrightarrow> same_shape r r'"
  by (auto simp: record_metric_def same_shape_def)

lemma finish_shape: "same_shape r (snd (finish d st b tk w r))"
  by (auto simp: finish_def dest: record_metric_shape split: option.split)

lemma director_urls: "p_urls (snd (director trust p req)) = p_urls p"
  using pool_next_items [of p] by (simp add: director_def case_prod_beta)

lemma proxy_request_shape: "same_shape r (snd (proxy_request tr tk w req d i r))"
proof -
  let ?rt = "ro_heap r ! i"
  obtain out p1 where dir: "director (ro_trust r) (rn_pool ?rt) req = (out, p1)"
    by (cases "director (ro_trust r) (rn_pool ?rt) req")
  then have "p_urls p1 = p_urls (rn_pool ?rt)"
    using director_urls [of "ro_trust r" "rn_pool ?rt" req] by simp
  then have "same_shape r (set_runtime i (?rt\<lparr>rn_pool := p1\<rparr>) r)"
    by (intro same_shape_set_runtime) (simp add: shape_def)
  then show ?thesis
    using same_shape_trans finish_shape
    by (auto simp: proxy_request_def dir Let_def split: exchange.split)
qed

lemma serve_runtime_shape: "same_shape r (snd (serve_runtime tr tk w req d i r))"
proof -
  obtain ok l1 where al: "allow (client_ip req (ro_trust r), tk_now tk) (rn_limiter (ro_heap r ! i)) = (ok, l1)"
    by (cases "allow (client_ip req (ro_trust r), tk_now tk) (rn_limiter (ro_heap r ! i))")
  let ?r1 = "set_runtime i ((ro_heap r ! i)\<lparr>rn_limiter := l1\<rparr>) r"
  have "same_shape r ?r1" by (intro same_shape_set_runtime) (simp add: shape_def)
  moreover have "same_shape ?r1 (snd (serve_runtime tr tk w req d i r))"
    using finish_shape proxy_request_shape by (simp add: serve_runtime_def al Let_def)
  ultimately show ?thesis by (rule same_shape_trans)
qed

lemma serve_http_shape: "same_shape r (snd (serve_http tr tk w req r))"
  by (simp add: serve_http_def serve_runtime_shape split: option.split)

lemma consistent_shape: "consistent ss r \<Longrightarrow> same_shape r r' \<Longrightarrow> consistent ss r'"
proof -
  assume c: "consistent ss r" and s: "same_shape r r'"
  have len: "length (ro_heap r') = length (ro_heap r)"
    using s by (auto simp: same_shape_def dest: map_eq_imp_length_eq)
  have heap: "heap_ok (ro_heap r', ro_runtimes r')"
    using c s len by (simp add: consistent_def heap_ok_def same_shape_def)
  have nth: "i < length (ro_heap r) \<Longrightarrow> shape (ro_heap r' ! i) = shape (ro_heap r ! i)" for i
    using s len by (metis same_shape_def nth_map)
  have "map_option shape (runtime_of r' d) = map_option shape (runtime_of r d)" for d
  proof (cases "gm_get (ro_runtimes r) d")
    case (Some i)
    with c have "i < length (ro_heap r)" by (auto simp: consistent_def heap_ok_def)
    with Some s nth show ?thesis by (simp add: runtime_of_def same_shape_def)
  qed (use s in \<open>simp add: runtime_of_def same_shape_def\<close>)
  with c s heap show ?thesis by (simp add: consistent_def same_shape_def)
qed

type_synonym visit = "transport \<times> tick \<times> writer \<times> request"

definition serve_step :: "visit \<Rightarrow> router \<Rightarrow> outcome \<times> router" where
  "serve_step v r = (case v of (tr, tk, w, req) \<Rightarrow> serve_http tr tk w req r)"

interpretation serving: stable_machine serve_step "consistent ss" for ss
proof
  fix r i assume "consistent ss r"
  then show "consistent ss (snd (serve_step i r))"
    using consistent_shape serve_http_shape by (auto simp: serve_step_def split: prod.split)
qed

subsection \<open>A site's traffic goes to its own upstreams\<close>

lemma director_target:
  assumes "p_urls p \<noteq> []" "length (p_urls p) < 2 ^ 64"
  obtains u where "u \<in> set (p_urls p)" "fst (director trust p req) = direct_to trust u req"
proof
  let ?u = "p_urls p ! (unat (p_next p) mod length (p_urls p))"
  show "?u \<in> set (p_urls p)" using assms(1) by simp
  show "fst (director trust p req) = direct_to trust ?u req"
    using pool_next_item [OF assms] by (simp add: director_def case_prod_beta)
qed

lemma direct_to_url:
  "ru_scheme (rq_url (direct_to trust u req)) = u_scheme u"
  "ru_host (rq_url (direct_to trust u req)) = u_host u"
  by (simp_all add: direct_to_def Let_def)

lemma prepare_out_url: "prepare_out req out = Some out1 \<Longrightarrow> rq_url out1 = rq_url out"
  by (auto simp: prepare_out_def split: if_splits)

lemma proxy_serve_cong:
  assumes "\<And>out1. prepare_out req out = Some out1 \<Longrightarrow> tr1 out1 = tr2 out1"
  shows "proxy_serve m tr1 req out c = proxy_serve m tr2 req out c"
proof (cases "prepare_out req out")
  case (Some out1)
  from assms [OF this] show ?thesis unfolding proxy_serve_def Some option.case by (rule arg_cong)
qed (simp add: proxy_serve_def)

definition meant_for :: "url list \<Rightarrow> request \<Rightarrow> bool" where
  "meant_for us rq \<longleftrightarrow> (\<exists>u \<in> set us. ru_scheme (rq_url rq) = u_scheme u \<and> ru_host (rq_url rq) = u_host u)"

lemma proxy_request_cong:
  assumes "p_urls (rn_pool (ro_heap r ! i)) = us" "us \<noteq> []" "length us < 2 ^ 64"
    and "\<And>rq. meant_for us rq \<Longrightarrow> tr1 rq = tr2 rq"
  shows "proxy_request tr1 tk w req d i r = proxy_request tr2 tk w req d i r"
proof -
  let ?p = "rn_pool (ro_heap r ! i)"
  have "p_urls ?p \<noteq> []" "length (p_urls ?p) < 2 ^ 64" using assms(1-3) by simp_all
  then obtain u where u: "u \<in> set us" "fst (director (ro_trust r) ?p req) = direct_to (ro_trust r) u req"
    using director_target assms(1) by metis
  have "tr1 out1 = tr2 out1" if "prepare_out req (fst (director (ro_trust r) ?p req)) = Some out1" for out1
  proof -
    have "meant_for us out1"
      using prepare_out_url [OF that] u by (auto simp: meant_for_def direct_to_url)
    then show ?thesis by (rule assms(4))
  qed
  from proxy_serve_cong [OF this] show ?thesis
    by (simp add: proxy_request_def Let_def case_prod_beta)
qed

lemma serve_runtime_cong:
  assumes "i < length (ro_heap r)" "p_urls (rn_pool (ro_heap r ! i)) = us" "us \<noteq> []" "length us < 2 ^ 64"
    and "\<And>rq. meant_for us rq \<Longrightarrow> tr1 rq = tr2 rq"
  shows "serve_runtime tr1 tk w req d i r = serve_runtime tr2 tk w req d i r"
proof -
  have "proxy_request tr1 tk w req d i (set_runtime i ((ro_heap r ! i)\<lparr>rn_limiter := l\<rparr>) r) =
      proxy_request tr2 tk w req d i (set_runtime i ((ro_heap r ! i)\<lparr>rn_limiter := l\<rparr>) r)" for l
    by (rule proxy_request_cong [OF _ assms(3,4,5)]) (simp_all add: set_runtime_def assms(1,2))
  then show ?thesis by (simp add: serve_runtime_def case_prod_beta Let_def)
qed

text \<open>Without a clash of names, the runtime found under a site's domain is its own.\<close>

definition no_clash :: "site list \<Rightarrow> site \<Rightarrow> bool" where
  "no_clash ss s \<longleftrightarrow> (\<forall>t \<in> set ss. s_enabled t \<and> s_domain s \<in> set (all_domains t) \<longrightarrow> t = s)"

lemma own_runtime:
  assumes "s \<in> set ss" "s_enabled s" "new_pool (s_upstreams s) = Some p" "no_clash ss s"
  shows "runtime_spec ss (s_domain s) = Some (make_runtime s p)"
proof -
  have "builds s (s_domain s)" using assms(2,3) by (simp add: builds_def all_domains_def)
  moreover have "t \<in> set ss \<Longrightarrow> builds t (s_domain s) \<Longrightarrow> t = s" for t
    using assms(4) by (auto simp: no_clash_def builds_def)
  ultimately have "find (\<lambda>t. builds t (s_domain s)) (rev ss) = Some s"
    using find_rev_unique [where P = "\<lambda>t. builds t (s_domain s)", OF assms(1)] by blast
  then show ?thesis by (simp add: runtime_spec_def site_runtime_def assms(3))
qed

lemma consistent_own:
  assumes "consistent ss r" "s \<in> set ss" "s_enabled s" "new_pool (s_upstreams s) = Some p" "no_clash ss s"
  obtains i where "gm_get (ro_runtimes r) (s_domain s) = Some i" "i < length (ro_heap r)"
    "rn_site (ro_heap r ! i) = s" "p_urls (rn_pool (ro_heap r ! i)) = p_urls p"
proof -
  have "map_option shape (runtime_of r (s_domain s)) = Some (s, p_urls p)"
    using assms(1) by (simp add: consistent_def own_runtime [OF assms(2-5)] shape_def make_runtime_def)
  then obtain i where "gm_get (ro_runtimes r) (s_domain s) = Some i" "shape (ro_heap r ! i) = (s, p_urls p)"
    by (auto simp: runtime_of_def)
  moreover from this(1) assms(1) have "i < length (ro_heap r)" by (simp add: consistent_def heap_ok_def)
  ultimately show ?thesis using that by (simp add: shape_def)
qed

text \<open>
  C1: a site's requests go to its own upstreams only. After a reload and any requests since,
  let the host of a request belong to a site whose domain no other enabled site lists. Then
  two upstream worlds that agree on requests to that site's upstream addresses give the
  same response and the same state: no other machine is ever contacted.\<close>
theorem routed_to_own_upstreams:
  assumes "r = snd (run_outputs serve_step visits (install ss r0))"
    and "route_spec ss (rq_host req) = Some s" "no_clash ss s"
    and "parse_upstreams (s_upstreams s) = Some us" "us \<noteq> []" "length us < 2 ^ 64"
    and "\<And>rq. meant_for us rq \<Longrightarrow> tr1 rq = tr2 rq"
  shows "serve_http tr1 tk w req r = serve_http tr2 tk w req r"
proof -
  have c: "consistent ss r"
    unfolding assms(1) by (rule serving.run_inv) (rule install_consistent)
  have s: "s \<in> set ss" "s_enabled s"
    using assms(2) by (auto simp: route_spec_def serves_def dest: find_SomeD)
  have p: "new_pool (s_upstreams s) = Some \<lparr>p_urls = us, p_next = 0\<rparr>"
    by (simp add: new_pool_def assms(4))
  obtain i where i: "gm_get (ro_runtimes r) (s_domain s) = Some i" "i < length (ro_heap r)"
      "p_urls (rn_pool (ro_heap r ! i)) = us"
    using consistent_own [OF c s p assms(3)] by auto
  have "lookup_site (ro_store r) (rq_host req) = Some s"
    using c assms(2) by (simp add: consistent_def)
  moreover have "serve_runtime tr1 tk w req (s_domain s) i r = serve_runtime tr2 tk w req (s_domain s) i r"
    by (rule serve_runtime_cong [OF i(2,3) assms(5,6)]) (rule assms(7))
  ultimately show ?thesis by (auto simp: serve_http_def i(1))
qed

definition plain_site :: "string \<Rightarrow> string list \<Rightarrow> string \<Rightarrow> site" where
  "plain_site d al up = zero_site\<lparr>s_domain := d, s_aliases := al, s_upstreams := [up], s_enabled := True\<rparr>"

definition start_router :: router where
  "start_router = new_router new_store new_registry False"

definition host_request :: "string \<Rightarrow> request" where
  "host_request h = sample_request\<lparr>rq_host := h\<rparr>"

definition noon :: tick where
  "noon = \<lparr>tk_now = 0, tk_sec = 43200, tk_latency = 5000000\<rparr>"

text \<open>An upstream world that answers every request with the address it was sent to.\<close>

definition echo_host :: transport where
  "echo_host rq =
     \<lparr>rp_info = [],
      rp_result = Inr \<lparr>rs_status = 200, rs_header = [], rs_chunks = [ru_host (rq_url rq)], rs_broken = False,
                       rs_stream = False\<rparr>\<rparr>"

theorem routed_to_own_upstreams_witness:
  "serve_http echo_host noon fresh_writer (host_request ''x'')
     (install [plain_site ''x'' [] ''a:1'', plain_site ''y'' [] ''b:2''] start_router) =
   serve_http (\<lambda>rq. if ru_host (rq_url rq) = ''a:1'' then echo_host rq else early_reply) noon fresh_writer
     (host_request ''x'') (install [plain_site ''x'' [] ''a:1'', plain_site ''y'' [] ''b:2''] start_router)"
proof -
  let ?ss = "[plain_site ''x'' [] ''a:1'', plain_site ''y'' [] ''b:2'']"
  have r: "route_spec ?ss (rq_host (host_request ''x'')) = Some (plain_site ''x'' [] ''a:1'')" by code_simp
  have n: "no_clash ?ss (plain_site ''x'' [] ''a:1'')" by code_simp
  have p: "parse_upstreams (s_upstreams (plain_site ''x'' [] ''a:1'')) = Some [sample_url ''a:1'']" by code_simp
  have i: "install ?ss start_router = snd (run_outputs serve_step [] (install ?ss start_router))" by simp
  show ?thesis
    by (rule routed_to_own_upstreams [OF i r n p]) (auto simp: meant_for_def sample_url_def)
qed


end
