(* ===== verification/Acme_Certs.thy ===== *)
theory Acme_Certs
  imports Config_Site
begin

section \<open>Certificates: what is asked for and what is shown\<close>

text \<open>
  \<open>internal/acme/acme.go\<close>. certmagic is outside the repository: its background management
  is the sequence of domain lists it was handed, its certificate lookup a parameter.
\<close>

record acme_manager =
  ac_certs_dir :: string
  ac_email :: string
  ac_directory :: string
  ac_managed :: "string list list"

definition new_acme :: "string \<Rightarrow> string \<Rightarrow> string \<Rightarrow> acme_manager option" where
  "new_acme certs_dir email directory =
     (if email = [] then None
      else Some \<lparr>ac_certs_dir = certs_dir, ac_email = email, ac_directory = directory, ac_managed = []\<rparr>)"

definition sync_domains :: "string list \<Rightarrow> acme_manager \<Rightarrow> acme_manager" where
  "sync_domains domains m =
     (if domains = [] then m else m\<lparr>ac_managed := ac_managed m @ [domains]\<rparr>)"

definition domains_from_sites :: "site list \<Rightarrow> string list" where
  "domains_from_sites sites =
     concat (map (\<lambda>s. if \<not> s_enabled s \<or> \<not> t_auto (s_tls s) then [] else all_domains s) sites)"

text \<open>A certificate as the TLS hook returns it: the expiry as text, the issuer's names.\<close>

record leaf =
  lf_not_after :: string
  lf_orgs :: "string list"
  lf_common_name :: string

datatype cert_lookup = Cert_Error string | No_Leaf | Leaf leaf

record cert_info =
  ci_domain :: string
  ci_not_after :: string
  ci_issuer :: string
  ci_managed :: bool
  ci_last_error :: string

definition cert_info_of :: "(string \<Rightarrow> cert_lookup) \<Rightarrow> string \<Rightarrow> cert_info" where
  "cert_info_of get_certificate d =
     (let pending = (\<lambda>e. \<lparr>ci_domain = d, ci_not_after = [], ci_issuer = [], ci_managed = True, ci_last_error = e\<rparr>)
      in case get_certificate d of
           Cert_Error e \<Rightarrow> pending (''pending: '' @ e)
         | No_Leaf \<Rightarrow> pending ''pending issuance''
         | Leaf l \<Rightarrow>
             \<lparr>ci_domain = d, ci_not_after = lf_not_after l,
              ci_issuer = (case lf_orgs l of o1 # _ \<Rightarrow> o1 | [] \<Rightarrow> lf_common_name l),
              ci_managed = True, ci_last_error = []\<rparr>)"

definition list_certs :: "(string \<Rightarrow> cert_lookup) \<Rightarrow> string list \<Rightarrow> cert_info list" where
  "list_certs get_certificate domains = map (cert_info_of get_certificate) domains"

lemma domains_from_sites_set:
  "d \<in> set (domains_from_sites sites) \<longleftrightarrow>
     (\<exists>s \<in> set sites. s_enabled s \<and> t_auto (s_tls s) \<and> d \<in> set (all_domains s))"
  by (auto simp: domains_from_sites_def)

lemma domains_from_sites_append: "domains_from_sites (a @ b) = domains_from_sites a @ domains_from_sites b"
  by (simp add: domains_from_sites_def)

end
