(* ===== verification/System.thy ===== *)
theory System
  imports Routing Acme_Certs
begin

section \<open>The wiring of main: what a reload does to the whole system\<close>

text \<open>
  \<open>cmd/jobcloud/main.go\<close>: \<open>OnReload\<close> and the UI's \<open>ReloadCallback\<close>, and \<open>Watcher.reload\<close> of
  \<open>internal/config/watcher.go\<close>. The router carries the store and the metrics registry it
  shares with the other components.
\<close>

record system =
  sy_router :: router
  sy_acme :: acme_manager

definition keeps :: "site list \<Rightarrow> string \<Rightarrow> bool" where
  "keeps sites d \<longleftrightarrow> list_ex (\<lambda>s. s_enabled s \<and> (d \<in> set (all_domains s) \<or> d = s_domain s)) sites"

definition on_reload :: "site list \<Rightarrow> system \<Rightarrow> system" where
  "on_reload sites sys =
     (let r = reload sites (sy_router sys);
          acme = sync_domains (domains_from_sites sites) (sy_acme sys)
      in \<lparr>sy_router = r\<lparr>ro_registry := prune (keeps sites) (ro_registry r)\<rparr>, sy_acme = acme\<rparr>)"

definition store_replace :: "site list \<Rightarrow> system \<Rightarrow> system" where
  "store_replace sites sys =
     sys\<lparr>sy_router := (sy_router sys)\<lparr>ro_store := replace_sites sites (ro_store (sy_router sys))\<rparr>\<rparr>"

definition apply_sites :: "site list \<Rightarrow> system \<Rightarrow> system" where
  "apply_sites sites sys = on_reload sites (store_replace sites sys)"

definition watcher_reload :: "yaml_lib \<Rightarrow> fsys \<Rightarrow> string \<Rightarrow> system \<Rightarrow> load_error list \<times> system" where
  "watcher_reload Y fs dir sys =
     (let (sites, errs) = load_sites Y fs dir in (errs, apply_sites sites sys))"

definition reload_callback :: "yaml_lib \<Rightarrow> fsys \<Rightarrow> string \<Rightarrow> system \<Rightarrow> system" where
  "reload_callback Y fs dir sys = (let (sites, _) = load_sites Y fs dir in apply_sites sites sys)"

text \<open>Serving a request and a reload touch the system through its router.\<close>

definition serve_request :: "visit \<Rightarrow> system \<Rightarrow> outcome \<times> system" where
  "serve_request v sys = (let (out, r) = serve_step v (sy_router sys) in (out, sys\<lparr>sy_router := r\<rparr>))"

subsection \<open>What a reload establishes\<close>

definition registry_of :: "system \<Rightarrow> registry" where
  "registry_of sys = ro_registry (sy_router sys)"

definition in_line :: "site list \<Rightarrow> system \<Rightarrow> bool" where
  "in_line ss sys \<longleftrightarrow> consistent ss (sy_router sys)"

lemma apply_sites_router:
  "sy_router (apply_sites ss sys) =
     (install ss (sy_router sys))\<lparr>ro_registry := prune (keeps ss) (ro_registry (sy_router sys))\<rparr>"
  by (simp add: apply_sites_def on_reload_def store_replace_def install_def Let_def reload_fields)

lemma consistent_registry [simp]: "consistent ss (r\<lparr>ro_registry := reg\<rparr>) = consistent ss r"
  by (simp add: consistent_def runtime_of_def)

lemma apply_sites_in_line: "in_line ss (apply_sites ss sys)"
  by (simp add: in_line_def apply_sites_router install_consistent)

lemma keeps_iff: "keeps ss d \<longleftrightarrow> (\<exists>s \<in> set ss. s_enabled s \<and> d \<in> set (all_domains s))"
  by (auto simp: keeps_def list_ex_iff all_domains_def)

lemma serve_request_in_line: "in_line ss sys \<Longrightarrow> in_line ss (snd (serve_request v sys))"
  using serving.step_inv [of ss "sy_router sys" v] by (simp add: in_line_def serve_request_def case_prod_beta)

interpretation live: stable_machine serve_request "in_line ss" for ss
  by unfold_locales (rule serve_request_in_line)

definition sample_system :: system where
  "sample_system =
     \<lparr>sy_router = start_router,
      sy_acme = \<lparr>ac_certs_dir = ''/certs'', ac_email = ''a@b'', ac_directory = [], ac_managed = []\<rparr>\<rparr>"



text \<open>
  An unreadable sites directory takes everything down. If the directory cannot be read
  at a reload, the reload is carried out with the empty list: every host is then answered
  with no site, and all collected metrics are dropped.\<close>
lemma unreadable_directory_outage:
  assumes "read_dir fs dir = None" "gm_ok (registry_of sys)"
  shows "let (errs, sys') = watcher_reload Y fs dir sys
    in errs = [Read_Dir_Failed] \<and> (\<forall>h. lookup_site (ro_store (sy_router sys')) h = None) \<and>
       (\<forall>d. gm_get (registry_of sys') d = None)"
proof -
  have l: "load_sites Y fs dir = ([], [Read_Dir_Failed])" using assms(1) by (simp add: load_sites_def)
  have "ro_store (sy_router (apply_sites [] sys)) = replace_sites [] (ro_store (sy_router sys))"
    by (simp add: apply_sites_router install_def reload_fields)
  moreover have "gm_get (registry_of (apply_sites [] sys)) d = None" for d
    using prune_get(1) [OF assms(2)] by (simp add: registry_of_def apply_sites_router keeps_def)
  ultimately show ?thesis
    by (simp add: watcher_reload_def l store.lookup_replace route_spec_def)
qed

lemma unreadable_directory_outage_witness:
  "fst (watcher_reload sample_yaml sample_fs ''/nowhere'' sample_system) = [Read_Dir_Failed]"
proof -
  have "read_dir sample_fs ''/nowhere'' = None" by code_simp
  moreover have "gm_ok (registry_of sample_system)"
    by (simp add: registry_of_def sample_system_def start_router_def new_router_def new_registry_def)
  ultimately show ?thesis
    using unreadable_directory_outage [of sample_fs "''/nowhere''" sample_system sample_yaml]
    by (simp add: case_prod_beta)
qed

end
