(* ===== verification/Go_Web.thy ===== *)
theory Go_Web
  imports Go_Http Go_Files
begin

section \<open>Cookies and relative redirects of net/http\<close>

text \<open>
  What the admin side uses of net/http beyond the proxy: a cookie as set by a handler, the
  lookup of a cookie in a request, and the location \<open>http.Redirect\<close> sends for a target that
  may be relative. The date in a cookie's text is given by a function of the Unix time.
\<close>

record cookie =
  ck_name :: string
  ck_value :: string
  ck_path :: string
  ck_http_only :: bool
  ck_lax :: bool
  ck_secure :: bool
  ck_expires :: int
  ck_max_age :: int

definition cookie_byte :: "char \<Rightarrow> bool" where
  "cookie_byte c \<longleftrightarrow> 32 \<le> byte c \<and> byte c < 127 \<and> c \<noteq> CHR 0x22 \<and> c \<noteq> CHR '';'' \<and> c \<noteq> CHR 0x5C"

text \<open>\<open>http.SetCookie\<close>: the cookie's text is added to the response header.\<close>

definition cookie_value_text :: "string \<Rightarrow> string" where
  "cookie_value_text v =
     (let u = filter cookie_byte v
      in if CHR '' '' \<in> set u \<or> CHR '','' \<in> set u then [CHR 0x22] @ u @ [CHR 0x22] else u)"

definition cookie_text :: "(int \<Rightarrow> string) \<Rightarrow> cookie \<Rightarrow> string" where
  "cookie_text http_date c =
     ck_name c @ ''='' @ cookie_value_text (ck_value c)
     @ (if ck_path c \<noteq> [] then ''; Path='' @ filter (\<lambda>b. 32 \<le> byte b \<and> byte b < 127 \<and> b \<noteq> CHR '';'') (ck_path c) else [])
     @ ''; Expires='' @ http_date (ck_expires c)
     @ (if 0 < ck_max_age c then ''; Max-Age='' @ show_int (ck_max_age c)
        else if ck_max_age c < 0 then ''; Max-Age=0'' else [])
     @ (if ck_http_only c then ''; HttpOnly'' else []) @ (if ck_secure c then ''; Secure'' else [])
     @ (if ck_lax c then ''; SameSite=Lax'' else [])"

definition set_cookie :: "(int \<Rightarrow> string) \<Rightarrow> cookie \<Rightarrow> writer \<Rightarrow> writer" where
  "set_cookie http_date c w = w\<lparr>w_header := header_add ''Set-Cookie'' (cookie_text http_date c) (w_header w)\<rparr>"

definition unquote_cookie :: "string \<Rightarrow> string" where
  "unquote_cookie v =
     (if 1 < length v \<and> hd v = CHR 0x22 \<and> last v = CHR 0x22 then butlast (tl v) else v)"

definition cookie_part :: "string \<Rightarrow> string \<Rightarrow> string option" where
  "cookie_part name part =
     (let (n, v) = cut_byte (CHR ''='') (trim_where is_mime_space part);
          val = unquote_cookie v
      in if trim_where is_mime_space n = name \<and> list_all cookie_byte val then Some val else None)"

text \<open>\<open>Request.Cookie\<close> for a valid name: the first part that carries it.\<close>

definition request_cookie :: "string \<Rightarrow> request \<Rightarrow> string option" where
  "request_cookie name req =
     (case filter (\<lambda>v. v \<noteq> None) (map (cookie_part name)
             (concat (map (split_all (CHR '';'')) (header_values ''Cookie'' (rq_header req))))) of
        [] \<Rightarrow> None
      | v # _ \<Rightarrow> v)"

text \<open>The directory part of a path, with its slash.\<close>

definition path_dir :: "string \<Rightarrow> string" where
  "path_dir p = rev (dropWhile (\<lambda>c. c \<noteq> CHR ''/'') (rev p))"

definition clean_target :: "string \<Rightarrow> string" where
  "clean_target loc =
     (let (p, q) = (case index_byte (CHR ''?'') loc of None \<Rightarrow> (loc, []) | Some i \<Rightarrow> (take i loc, drop i loc));
          c = clean_path p
      in (if has_suffix ''/'' p \<and> \<not> has_suffix ''/'' c then c @ ''/'' else c) @ q)"

definition redirect_location :: "string \<Rightarrow> string \<Rightarrow> string" where
  "redirect_location oldpath loc =
     (case url_parse loc of
        None \<Rightarrow> loc
      | Some u \<Rightarrow>
          if u_scheme u = [] \<and> u_host u = [] then
            clean_target (if has_prefix ''/'' loc then loc
                          else path_dir (if oldpath = [] then ''/'' else oldpath) @ loc)
          else loc)"

lemma split_all_no_sep: "c \<notin> set s \<Longrightarrow> split_all c s = [s]"
  by (induction s) auto

lemma dropWhile_hd: "s = [] \<or> \<not> p (hd s) \<Longrightarrow> dropWhile p s = s"
  by (cases s) auto

lemma trim_where_id:
  "s = [] \<or> (\<not> p (hd s) \<and> \<not> p (last s)) \<Longrightarrow> trim_where p s = s"
  by (cases "s = []") (auto simp: trim_where_def dropWhile_hd hd_rev)

text \<open>A cookie sent alone with a plain name and value is read back.\<close>

lemma request_cookie_single:
  assumes "header_values ''Cookie'' (rq_header req) = [name @ ''='' @ val]"
    and "name \<noteq> []" "CHR ''='' \<notin> set name" "list_all cookie_byte name" "\<forall>c \<in> set name. \<not> is_mime_space c"
    and "list_all cookie_byte val" "val \<noteq> []" "\<forall>c \<in> set val. \<not> is_mime_space c"
  shows "request_cookie name req = Some val"
proof -
  let ?p = "name @ ''='' @ val"
  have "CHR '';'' \<notin> set ?p"
    using assms(4,6) by (auto simp: list_all_iff cookie_byte_def)
  then have split: "split_all (CHR '';'') ?p = [?p]" by (rule split_all_no_sep)
  have "hd ?p \<in> set name" using assms(2) by simp
  moreover have "last ?p \<in> set val" using assms(7) by simp
  ultimately have trim: "trim_where is_mime_space ?p = ?p"
    using assms(5,8) by (intro trim_where_id) blast
  have "cut_byte (CHR ''='') ?p = (name, val)"
    using assms(3) by (simp add: cut_byte_def index_byte_append)
  moreover have "trim_where is_mime_space name = name"
    using assms(2,5) by (intro trim_where_id) auto
  moreover have "hd val \<noteq> CHR 0x22"
    using assms(6,7) by (cases val) (auto simp: cookie_byte_def)
  then have "unquote_cookie val = val" by (simp add: unquote_cookie_def)
  ultimately have "cookie_part name ?p = Some val"
    using assms(6) trim by (simp add: cookie_part_def)
  with split assms(1) show ?thesis by (simp add: request_cookie_def)
qed

text \<open>What a redirect on a fresh response sends.\<close>

lemma http_redirect_sent:
  assumes "w_status w = None" "body_allowed code"
  shows "w_status (http_redirect m loc code st w) = Some code"
    "header_get ''Location'' (w_sent (http_redirect m loc code st w)) = hex_escape_non_ascii loc"
    "k \<noteq> ''Location'' \<Longrightarrow> k \<noteq> ''Content-Type'' \<Longrightarrow>
       header_values k (w_sent (http_redirect m loc code st w)) = header_values k (w_header w)"
proof -
  have c: "canonical_key ''Location'' = ''Location''" "canonical_key ''Content-Type'' = ''Content-Type''" by code_simp+
  have k: "canonical_key ''Location'' \<noteq> canonical_key ''Content-Type''" by code_simp
  have w: "w_status (snd (snd (write_body bs x))) = Some c \<and> w_sent (snd (snd (write_body bs x))) = w_sent x"
    if "w_status x = Some c" for bs x c
    using write_body_props(4,5) [of bs x, OF _ that] by (cases "write_body bs x") auto
  show "w_status (http_redirect m loc code st w) = Some code"
    "header_get ''Location'' (w_sent (http_redirect m loc code st w)) = hex_escape_non_ascii loc"
    using assms k w by (simp_all add: http_redirect_def Let_def commit_header_simps header_get_set)
  show "k \<noteq> ''Location'' \<Longrightarrow> k \<noteq> ''Content-Type'' \<Longrightarrow>
      header_values k (w_sent (http_redirect m loc code st w)) = header_values k (w_header w)"
    using assms w by (simp add: http_redirect_def Let_def commit_header_simps header_values_set c)
qed

end
