(* ===== verification/Auth.thy ===== *)
theory Auth
  imports Go_Web Config_Files
begin

section \<open>Admin sessions\<close>

text \<open>
  \<open>internal/auth/auth.go\<close>. The MAC (HMAC-SHA-256 as bytes) and bcrypt's comparison are
  parameters: the code uses them as functions of their inputs. Time is in seconds.
\<close>

definition cookie_name :: string where
  "cookie_name = ''jobcloud_session''"

definition session_max_age :: int where
  "session_max_age = 24 * 3600"

record manager =
  mg_admins :: "(string, string) gomap"
  mg_secret :: string

datatype auth_error = No_Admins | Empty_Admin string | Short_Secret | No_Randomness | Secret_Not_Written

fun collect_admins :: "admin list \<Rightarrow> (string, string) gomap \<Rightarrow> auth_error + (string, string) gomap" where
  "collect_admins [] m = Inr m"
| "collect_admins (a # as) m =
     (if a_username a = [] \<or> a_password_hash a = [] then Inl (Empty_Admin (a_username a))
      else collect_admins as (gm_put (to_lower (a_username a)) (a_password_hash a) m))"

text \<open>\<open>rand\<close> is the result of reading 48 random bytes.\<close>

definition resolve_secret ::
  "string \<Rightarrow> string \<Rightarrow> string option \<Rightarrow> fsys \<Rightarrow> (auth_error + string) \<times> fsys" where
  "resolve_secret configured dir rand fs =
     (if configured \<noteq> [] then
        (if length configured < 32 then (Inl Short_Secret, fs) else (Inr configured, fs))
      else
        (let path = join_path dir ''secret.key''
         in case read_file fs path of
              Some b \<Rightarrow>
                if 32 \<le> length b then (Inr b, fs)
                else (case rand of
                        None \<Rightarrow> (Inl No_Randomness, fs)
                      | Some r \<Rightarrow>
                          (let (ok, fs1) = write_file path r fs
                           in (if ok then Inr r else Inl Secret_Not_Written, fs1)))
            | None \<Rightarrow>
                (case rand of
                   None \<Rightarrow> (Inl No_Randomness, fs)
                 | Some r \<Rightarrow>
                     (let (ok, fs1) = write_file path r fs
                      in (if ok then Inr r else Inl Secret_Not_Written, fs1)))))"

definition new_manager ::
  "global_config \<Rightarrow> string \<Rightarrow> string option \<Rightarrow> fsys \<Rightarrow> (auth_error + manager) \<times> fsys" where
  "new_manager g dir rand fs =
     (if g_admins g = [] then (Inl No_Admins, fs)
      else (case collect_admins (g_admins g) gm_empty of
              Inl e \<Rightarrow> (Inl e, fs)
            | Inr admins \<Rightarrow>
                (case resolve_secret (g_session_secret g) dir rand fs of
                   (Inl e, fs1) \<Rightarrow> (Inl e, fs1)
                 | (Inr sec, fs1) \<Rightarrow> (Inr \<lparr>mg_admins = admins, mg_secret = sec\<rparr>, fs1))))"

text \<open>\<open>compare_hash hash password\<close> is bcrypt's answer; an unknown user costs one comparison too.\<close>

definition verify_password :: "(string \<Rightarrow> string \<Rightarrow> bool) \<Rightarrow> string \<Rightarrow> string \<Rightarrow> manager \<Rightarrow> bool" where
  "verify_password compare_hash username password m =
     (case gm_get (mg_admins m) (to_lower username) of
        None \<Rightarrow> False
      | Some hash \<Rightarrow> compare_hash hash password)"

type_synonym mac = "string \<Rightarrow> string \<Rightarrow> string"

definition sign :: "mac \<Rightarrow> manager \<Rightarrow> string \<Rightarrow> string" where
  "sign mac m payload = b64_encode (mac (mg_secret m) payload)"

definition session_payload :: "string \<Rightarrow> int \<Rightarrow> string" where
  "session_payload username expiry = to_lower username @ ''.'' @ show_int expiry"

definition issue_cookie :: "mac \<Rightarrow> int \<Rightarrow> bool \<Rightarrow> string \<Rightarrow> manager \<Rightarrow> cookie" where
  "issue_cookie mac now tls username m =
     (let payload = session_payload username (now + session_max_age)
      in \<lparr>ck_name = cookie_name, ck_value = b64_encode (payload @ ''.'' @ sign mac m payload),
          ck_path = ''/'', ck_http_only = True, ck_lax = True, ck_secure = tls,
          ck_expires = now + session_max_age, ck_max_age = 0\<rparr>)"

definition clear_cookie :: "bool \<Rightarrow> cookie" where
  "clear_cookie tls =
     \<lparr>ck_name = cookie_name, ck_value = [], ck_path = ''/'', ck_http_only = True, ck_lax = True,
      ck_secure = tls, ck_expires = 0, ck_max_age = -1\<rparr>"

definition check_session :: "mac \<Rightarrow> int \<Rightarrow> manager \<Rightarrow> string \<Rightarrow> string" where
  "check_session mac now m raw =
     (case split_n 3 (CHR ''.'') raw of
        [username, exp_str, sig] \<Rightarrow>
          (case parse_int exp_str of
             None \<Rightarrow> []
           | Some expiry \<Rightarrow>
               if expiry \<le> now then []
               else if sig \<noteq> sign mac m (username @ ''.'' @ exp_str) then []
               else if gm_get (mg_admins m) username = None then []
               else username)
      | _ \<Rightarrow> [])"

text \<open>The empty string is no user.\<close>

definition authenticated :: "mac \<Rightarrow> int \<Rightarrow> request \<Rightarrow> manager \<Rightarrow> string" where
  "authenticated mac now req m =
     (case request_cookie cookie_name req of
        None \<Rightarrow> []
      | Some v \<Rightarrow>
          (case b64_decode v of None \<Rightarrow> [] | Some raw \<Rightarrow> check_session mac now m raw))"

definition hash_password :: "(string \<Rightarrow> string option) \<Rightarrow> string \<Rightarrow> string option" where
  "hash_password generate plaintext = generate plaintext"

definition require_auth ::
  "mac \<Rightarrow> int \<Rightarrow> manager \<Rightarrow> (request \<Rightarrow> writer \<Rightarrow> 's \<Rightarrow> writer \<times> 's) \<Rightarrow> request \<Rightarrow> writer \<Rightarrow> 's \<Rightarrow> writer \<times> 's" where
  "require_auth mac now m next req w s =
     (if authenticated mac now req m = [] then
        (http_redirect (rq_method req)
           (redirect_location (ru_path (rq_url req)) (''/login?next='' @ ru_path (rq_url req)))
           303 ''See Other'' w, s)
      else next req w s)"

subsection \<open>The bytes of a session cookie\<close>

lemma b64_encode_alphabet: "set (b64_encode s) \<subseteq> set b64_alphabet"
proof -
  have "b64_sym n \<in> set b64_alphabet" if "n \<in> set (b64_sextets s)" for n
    using b64_sextets_less [of s] that by (simp add: list_all_iff b64_sym_in)
  then show ?thesis by (auto simp: b64_encode_def)
qed

lemma b64_encode_cookie: "list_all cookie_byte (b64_encode s)" "\<forall>c \<in> set (b64_encode s). \<not> is_mime_space c"
proof -
  have "list_all (\<lambda>c. cookie_byte c \<and> \<not> is_mime_space c) b64_alphabet" by code_simp
  then show "list_all cookie_byte (b64_encode s)" "\<forall>c \<in> set (b64_encode s). \<not> is_mime_space c"
    using b64_encode_alphabet [of s] by (auto simp: list_all_iff)
qed

lemma b64_encode_Nil: "b64_encode s = [] \<Longrightarrow> s = []"
proof -
  assume "b64_encode s = []"
  then have "b64_decode [] = Some s" by (metis b64_decode_encode)
  moreover have "b64_decode [] = Some []" by code_simp
  ultimately show "s = []" by simp
qed

lemma cookie_name_plain:
  "cookie_name \<noteq> []" "CHR ''='' \<notin> set cookie_name" "list_all cookie_byte cookie_name"
  "\<forall>c \<in> set cookie_name. \<not> is_mime_space c"
proof -
  have "list_all (\<lambda>c. cookie_byte c \<and> \<not> is_mime_space c \<and> c \<noteq> CHR ''='') cookie_name" by code_simp
  then show "CHR ''='' \<notin> set cookie_name" "list_all cookie_byte cookie_name"
    "\<forall>c \<in> set cookie_name. \<not> is_mime_space c" by (auto simp: list_all_iff)
  show "cookie_name \<noteq> []" by (simp add: cookie_name_def)
qed

text \<open>A request that carries a cookie as its only one.\<close>

definition carries :: "cookie \<Rightarrow> request \<Rightarrow> bool" where
  "carries c req \<longleftrightarrow> header_values ''Cookie'' (rq_header req) = [ck_name c @ ''='' @ ck_value c]"

lemma issued_cookie_read:
  assumes "carries (issue_cookie mac now tls username m) req"
  shows "authenticated mac later req m' =
    check_session mac later m' (session_payload username (now + session_max_age) @ ''.'' @
      sign mac m (session_payload username (now + session_max_age)))"
proof -
  let ?raw = "session_payload username (now + session_max_age) @ ''.'' @
      sign mac m (session_payload username (now + session_max_age))"
  have "header_values ''Cookie'' (rq_header req) = [cookie_name @ ''='' @ b64_encode ?raw]"
    using assms by (simp add: carries_def issue_cookie_def Let_def)
  moreover have "b64_encode ?raw \<noteq> []" using b64_encode_Nil [of ?raw] by auto
  ultimately have "request_cookie cookie_name req = Some (b64_encode ?raw)"
    using request_cookie_single cookie_name_plain b64_encode_cookie by blast
  then show ?thesis by (simp add: authenticated_def b64_decode_encode)
qed

lemma to_lower_dot: "CHR ''.'' \<in> set (to_lower s) \<longleftrightarrow> CHR ''.'' \<in> set s"
  by (rule in_to_lower_iff) (simp_all add: less_eq_char_def)

subsection \<open>Properties\<close>

definition reverse_mac :: mac where
  "reverse_mac key payload = rev payload @ take 2 key"

definition sample_manager :: manager where
  "sample_manager = \<lparr>mg_admins = [(''root'', ''h'')], mg_secret = ''0123456789abcdef0123456789abcdef''\<rparr>"

definition cookie_request :: "cookie \<Rightarrow> request" where
  "cookie_request c =
     \<lparr>rq_method = ''GET'',
      rq_url = \<lparr>ru_scheme = [], ru_opaque = [], ru_host = [], ru_path = ''/sites/'', ru_raw_path = [],
                ru_force_query = False, ru_raw_query = []\<rparr>,
      rq_host = ''admin'', rq_header = [(''Cookie'', [ck_name c @ ''='' @ ck_value c])],
      rq_remote = ''10.0.0.9:4711'', rq_tls = False, rq_body = []\<rparr>"

lemma carries_cookie_request: "carries c (cookie_request c)"
  by (simp add: carries_def cookie_request_def header_values_def gm_get_def)

lemma session_accepted:
  assumes "CHR ''.'' \<notin> set username" "gm_get (mg_admins m) (to_lower username) \<noteq> None"
    and "int64_range (now + session_max_age)" "later < now + session_max_age"
    and "carries (issue_cookie mac now tls username m) req"
  shows "authenticated mac later req m = to_lower username"
proof -
  let ?e = "show_int (now + session_max_age)"
  let ?sig = "sign mac m (to_lower username @ ''.'' @ ?e)"
  have "split_n 3 (CHR ''.'') (to_lower username @ CHR ''.'' # ?e @ CHR ''.'' # ?sig) = [to_lower username, ?e, ?sig]"
    by (rule split_n_3) (simp_all add: to_lower_dot assms(1) show_int_no_dot)
  then show ?thesis
    using assms(2-4) parse_int_show_int [OF assms(3)]
    by (auto simp: issued_cookie_read [OF assms(5)] session_payload_def check_session_def)
qed

text \<open>
  C27: protected pages need a live session. For every request, either its session cookie
  decodes to the name of a configured admin, an expiry in the future and the MAC of the two
  under the current secret, or the middleware answers with a redirect to the login page
  (303) and the protected handler is not run, whatever it is.\<close>
theorem protected_needs_session:
  "(\<exists>v user exp_str expiry. request_cookie cookie_name req = Some v \<and>
      b64_decode v = Some (user @ ''.'' @ exp_str @ ''.'' @ sign mac m (user @ ''.'' @ exp_str)) \<and>
      parse_int exp_str = Some expiry \<and> now < expiry \<and> gm_get (mg_admins m) user \<noteq> None) \<or>
   (\<exists>w'. w_status w' = Some 303 \<and> (\<forall>next s. require_auth mac now m next req fresh_writer s = (w', s)))"
proof (cases "authenticated mac now req m = []")
  case True
  let ?w = "http_redirect (rq_method req)
      (redirect_location (ru_path (rq_url req)) (''/login?next='' @ ru_path (rq_url req))) 303 ''See Other'' fresh_writer"
  have "w_status ?w = Some 303"
    by (simp add: http_redirect_def Let_def write_body_keeps_status commit_header_def fresh_writer_def)
  moreover have "require_auth mac now m next req fresh_writer s = (?w, s)" for "next" s
    by (simp add: require_auth_def True)
  ultimately show ?thesis by blast
next
  case False
  then obtain v raw where v: "request_cookie cookie_name req = Some v" "b64_decode v = Some raw"
      "check_session mac now m raw \<noteq> []"
    by (auto simp: authenticated_def split: option.splits)
  then obtain user exp_str sig where s: "split_n 3 (CHR ''.'') raw = [user, exp_str, sig]"
    by (auto simp: check_session_def split: list.splits)
  with v(3) obtain expiry where e: "parse_int exp_str = Some expiry" "now < expiry"
      "sig = sign mac m (user @ ''.'' @ exp_str)" "gm_get (mg_admins m) user \<noteq> None"
    by (auto simp: check_session_def split: option.splits if_splits)
  from split_n_3_cases [OF s] e v(1,2) show ?thesis by auto
qed

text \<open>
  An admin whose name has a dot can never log in. The cookie issued to such a name is
  rejected at every time and under every secret and admin list, since the signature part of
  the split then holds a dot and no signature does.\<close>
lemma dotted_username_locked_out:
  assumes "CHR ''.'' \<in> set username" "carries (issue_cookie mac now tls username m) req"
  shows "authenticated mac later req m' = []"
proof -
  let ?raw = "session_payload username (now + session_max_age) @ ''.'' @
      sign mac m (session_payload username (now + session_max_age))"
  have dots: "3 \<le> count_list ?raw (CHR ''.'')"
  proof -
    have "1 \<le> count_list (to_lower username) (CHR ''.'')"
      using assms(1) count_list_0_iff [of "to_lower username" "CHR ''.''"] by (simp add: to_lower_dot)
    then show ?thesis by (simp add: session_payload_def)
  qed
  have "sig \<noteq> sign mac m' p" if s: "split_n 3 (CHR ''.'') ?raw = [a, b, sig]" for a b sig p
  proof
    assume "sig = sign mac m' p"
    then have "count_list sig (CHR ''.'') = 0" by (simp add: sign_def b64_encode_no_dot count_list_0_iff)
    moreover have "?raw = a @ CHR ''.'' # b @ CHR ''.'' # sig" "count_list a (CHR ''.'') = 0" "count_list b (CHR ''.'') = 0"
      using split_n_3_cases [OF s] by (simp_all add: count_list_0_iff)
    then have "count_list ?raw (CHR ''.'') = 2 + count_list sig (CHR ''.'')" by simp
    ultimately show False using dots by simp
  qed
  then have "check_session mac later m' ?raw = []"
    by (auto simp: check_session_def split: list.split option.split)
  then show ?thesis by (simp add: issued_cookie_read [OF assms(2)])
qed

lemma dotted_username_locked_out_witness:
  "authenticated reverse_mac 1001 (cookie_request (issue_cookie reverse_mac 1000 False ''a.b'' sample_manager))
     sample_manager = []"
  by (rule dotted_username_locked_out [OF _ carries_cookie_request]) simp

text \<open>
  Sessions survive a restart. When no secret is configured and the secret file can be
  read, a manager built from the data directory leaves it so that the next one, whatever
  randomness it would draw, gets the same secret.\<close>
lemma secret_survives_restart:
  assumes "resolve_secret [] dir rand fs = (Inr sec, fs')" "\<forall>r. rand = Some r \<longrightarrow> length r = 48"
    and "\<not> fs_unreadable fs (join_path dir ''secret.key'')"
  shows "resolve_secret [] dir rand' fs' = (Inr sec, fs')"
proof -
  let ?p = "join_path dir ''secret.key''"
  have "(fs' = fs \<and> read_file fs ?p = Some sec \<and> 32 \<le> length sec) \<or>
      (rand = Some sec \<and> write_file ?p sec fs = (True, fs'))"
    using assms(1) by (auto simp: resolve_secret_def Let_def split: option.splits if_splits prod.splits)
  then have "read_file fs' ?p = Some sec \<and> 32 \<le> length sec"
  proof
    assume w: "rand = Some sec \<and> write_file ?p sec fs = (True, fs')"
    then have "fs' = fs\<lparr>fs_nodes := gm_put ?p (FFile sec) (fs_nodes fs)\<rparr>"
      by (auto simp: write_file_def split: if_splits write_fault.splits)
    with w assms(2,3) show ?thesis by (simp add: read_file_def fs_file_def)
  qed simp
  then show ?thesis by (simp add: resolve_secret_def Let_def)
qed

lemma secret_survives_restart_witness:
  "\<exists>fs'. resolve_secret [] ''/data'' (Some (replicate 48 (CHR ''x''))) sample_fs = (Inr (replicate 48 (CHR ''x'')), fs') \<and>
     resolve_secret [] ''/data'' None fs' = (Inr (replicate 48 (CHR ''x'')), fs')"
proof -
  let ?x = "replicate 48 (CHR ''x'')"
  have ev: "fst (resolve_secret [] ''/data'' (Some ?x) sample_fs) = Inr ?x"
    "\<not> fs_unreadable sample_fs (join_path ''/data'' ''secret.key'')" by code_simp+
  then obtain fs' where fs: "resolve_secret [] ''/data'' (Some ?x) sample_fs = (Inr ?x, fs')"
    by (cases "resolve_secret [] ''/data'' (Some ?x) sample_fs") auto
  with secret_survives_restart [OF fs _ ev(2), of None] show ?thesis by auto
qed

end
