(* ===== verification/Ui_Pages.thy ===== *)
theory Ui_Pages
  imports Ui_Format System Auth
begin

section \<open>What the admin pages show\<close>

text \<open>
  The data the handlers of \<open>internal/ui/ui.go\<close> hand to the templates: the common part of a
  page, the rows of the site table with their totals, the dashboard, the site form and the
  certificate list. The templates themselves are not Go code; a page is a value of \<open>view\<close>.
  The clock is the Unix time in nanoseconds, past the first minute of 1970; the error rate
  is the exact quotient instead of a float64.
\<close>

record base_data =
  bd_title :: string
  bd_active :: string
  bd_version :: string
  bd_site_count :: nat
  bd_uptime :: string
  bd_content :: string

definition base_page :: "string \<Rightarrow> int \<Rightarrow> int \<Rightarrow> system \<Rightarrow> string \<Rightarrow> string \<Rightarrow> string \<Rightarrow> base_data" where
  "base_page version start now sys title active content =
     \<lparr>bd_title = title, bd_active = active, bd_version = version,
      bd_site_count = length (snapshot_sites (ro_store (sy_router sys))),
      bd_uptime = human_duration (now - start), bd_content = content\<rparr>"

definition unix_seconds :: "int \<Rightarrow> int" where
  "unix_seconds now = now div 1000000000"

subsection \<open>The site table\<close>

record site_row =
  rw_domain :: string
  rw_aliases :: "string list"
  rw_filename :: string
  rw_enabled :: bool
  rw_upstreams :: "string list"
  rw_tls :: tls_config
  rw_reqs :: "64 word"
  rw_bytes :: "64 word"
  rw_errs :: "64 word"
  rw_p95 :: "32 word"

text \<open>The numbers of a site without metrics are those of the zero value of the snapshot.\<close>

definition last_minute :: "int \<Rightarrow> registry \<Rightarrow> string \<Rightarrow> metrics_snapshot option" where
  "last_minute now reg d =
     (case gm_get (snapshot_all (unix_seconds now) reg) d of None \<Rightarrow> None | Some sn \<Rightarrow> sn)"

definition row_of :: "int \<Rightarrow> registry \<Rightarrow> site \<Rightarrow> site_row" where
  "row_of now reg s =
     (let sn = last_minute now reg (s_domain s); num = (\<lambda>f. case sn of None \<Rightarrow> 0 | Some x \<Rightarrow> f x)
      in \<lparr>rw_domain = s_domain s, rw_aliases = s_aliases s, rw_filename = s_filename s,
          rw_enabled = s_enabled s, rw_upstreams = s_upstreams s, rw_tls = s_tls s,
          rw_reqs = num sn_reqs_1m, rw_bytes = num sn_bytes_1m, rw_errs = num sn_errs_1m,
          rw_p95 = (case sn of None \<Rightarrow> 0 | Some x \<Rightarrow> sn_p95 x)\<rparr>)"

record row_totals =
  tt_rows :: "site_row list"
  tt_reqs :: "64 word"
  tt_errs :: "64 word"
  tt_bytes :: "64 word"
  tt_active :: nat

definition add_row :: "int \<Rightarrow> registry \<Rightarrow> site \<Rightarrow> row_totals \<Rightarrow> row_totals" where
  "add_row now reg s t =
     (let r = row_of now reg s
      in \<lparr>tt_rows = tt_rows t @ [r], tt_reqs = tt_reqs t + rw_reqs r, tt_errs = tt_errs t + rw_errs r,
          tt_bytes = tt_bytes t + rw_bytes r, tt_active = tt_active t + (if s_enabled s then 1 else 0)\<rparr>)"

definition build_site_rows :: "int \<Rightarrow> system \<Rightarrow> row_totals" where
  "build_site_rows now sys =
     (let t = fold (add_row now (ro_registry (sy_router sys))) (snapshot_sites (ro_store (sy_router sys)))
                \<lparr>tt_rows = [], tt_reqs = 0, tt_errs = 0, tt_bytes = 0, tt_active = 0\<rparr>
      in t\<lparr>tt_rows := sort_key rw_domain (tt_rows t)\<rparr>)"

record dashboard =
  db_base :: base_data
  db_active :: nat
  db_reqs :: "64 word"
  db_bytes :: string
  db_error_rate :: rat
  db_sites :: "site_row list"

definition dashboard_page :: "base_data \<Rightarrow> row_totals \<Rightarrow> dashboard" where
  "dashboard_page b t =
     \<lparr>db_base = b, db_active = tt_active t, db_reqs = tt_reqs t, db_bytes = human_bytes (tt_bytes t),
      db_error_rate =
        (if 0 < tt_reqs t then rat_of_nat (unat (tt_errs t)) / rat_of_nat (unat (tt_reqs t)) * 100 else 0),
      db_sites = tt_rows t\<rparr>"

record site_form =
  sf_base :: base_data
  sf_new :: bool
  sf_site :: site
  sf_error :: string
  sf_saved :: bool

datatype view =
    Login_View string string
  | Dashboard_View dashboard
  | Rows_View "site_row list"
  | Form_View site_form
  | Certs_View base_data "cert_info list"

subsection \<open>Facts about the table\<close>

lemma add_rows:
  "fold (add_row now reg) ss t =
     \<lparr>tt_rows = tt_rows t @ map (row_of now reg) ss,
      tt_reqs = tt_reqs t + sum_list (map (rw_reqs \<circ> row_of now reg) ss),
      tt_errs = tt_errs t + sum_list (map (rw_errs \<circ> row_of now reg) ss),
      tt_bytes = tt_bytes t + sum_list (map (rw_bytes \<circ> row_of now reg) ss),
      tt_active = tt_active t + length (filter s_enabled ss)\<rparr>"
  by (induction ss arbitrary: t) (simp_all add: add_row_def Let_def add.assoc)

lemma row_of_fields [simp]:
  "rw_domain (row_of now reg s) = s_domain s" "rw_filename (row_of now reg s) = s_filename s"
  "rw_enabled (row_of now reg s) = s_enabled s"
  by (simp_all add: row_of_def Let_def)

lemma length_filter_enabled: "length (filter rw_enabled (map (row_of now reg) ss)) = length (filter s_enabled ss)"
  by (induction ss) simp_all

lemma sum_list_sort_key: "sum_list (map f (sort_key k xs)) = sum_list (map f xs)" for f :: "'a \<Rightarrow> 'b :: comm_monoid_add"
  by (metis mset_map mset_sort sum_mset_sum_list)

text \<open>
  The dashboard adds up. The table has one row per site of the store, sorted by domain;
  the totals shown above it are the sums of its columns, and the number of active sites is
  the number of enabled rows.\<close>
lemma dashboard_adds_up:
  fixes now sys
  defines "t \<equiv> build_site_rows now sys"
  shows "sorted (map rw_domain (tt_rows t)) \<and>
    mset (tt_rows t) =
      image_mset (row_of now (ro_registry (sy_router sys))) (mset (snapshot_sites (ro_store (sy_router sys)))) \<and>
    tt_reqs t = sum_list (map rw_reqs (tt_rows t)) \<and> tt_errs t = sum_list (map rw_errs (tt_rows t)) \<and>
    tt_bytes t = sum_list (map rw_bytes (tt_rows t)) \<and> tt_active t = length (filter rw_enabled (tt_rows t))"
proof -
  let ?rows = "map (row_of now (ro_registry (sy_router sys))) (snapshot_sites (ro_store (sy_router sys)))"
  have rows: "tt_rows t = sort_key rw_domain ?rows"
    by (simp add: t_def build_site_rows_def Let_def add_rows)
  have "length (filter rw_enabled (tt_rows t)) = length (filter rw_enabled ?rows)"
    unfolding rows by (metis mset_filter mset_sort size_mset)
  then show ?thesis
    by (simp add: rows sum_list_sort_key length_filter_enabled)
      (simp add: t_def build_site_rows_def Let_def add_rows comp_def)
qed

end
