(* ===== verification/Go_Form.thy ===== *)
theory Go_Form
  imports Go_Web
begin

section \<open>Query strings and posted forms\<close>

text \<open>
  \<open>url.ParseQuery\<close>, \<open>Request.ParseForm\<close> and \<open>Request.FormValue\<close> as the admin handlers use
  them, after Go 1.22: the pairs that cannot be decoded are left out and reported as one
  error, a posted form is read when the media type is that of an HTML form and the body is
  at most ten megabytes, and its values come before those of the URL. Error messages are
  not modelled.
\<close>

type_synonym form = "(string, string list) gomap"

fun query_unescape :: "string \<Rightarrow> string option" where
  "query_unescape [] = Some []"
| "query_unescape (c # s) =
     (if c = CHR ''%'' then
        (if 2 \<le> length s \<and> is_hex (s ! 0) \<and> is_hex (s ! 1)
         then map_option (Cons (char_of (16 * unhex (s ! 0) + unhex (s ! 1)))) (query_unescape (drop 2 s))
         else None)
      else map_option (Cons (if c = CHR ''+'' then CHR '' '' else c)) (query_unescape s))"

definition form_values :: "string \<Rightarrow> form \<Rightarrow> string list" where
  "form_values k f = (case gm_get f k of None \<Rightarrow> [] | Some vs \<Rightarrow> vs)"

definition form_add :: "string \<Rightarrow> string \<Rightarrow> form \<Rightarrow> form" where
  "form_add k v f = gm_put k (form_values k f @ [v]) f"

text \<open>One pair of a query: the form with it, and whether it was well formed.\<close>

definition query_pair :: "string \<Rightarrow> form \<times> bool \<Rightarrow> form \<times> bool" where
  "query_pair p fb =
     (if CHR '';'' \<in> set p then (fst fb, False)
      else if p = [] then fb
      else (let (k, v) = cut_byte (CHR ''='') p
            in case query_unescape k of
                 None \<Rightarrow> (fst fb, False)
               | Some k' \<Rightarrow>
                   (case query_unescape v of
                      None \<Rightarrow> (fst fb, False)
                    | Some v' \<Rightarrow> (form_add k' v' (fst fb), snd fb))))"

definition parse_query :: "string \<Rightarrow> form \<times> bool" where
  "parse_query q = fold query_pair (split_all (CHR ''&'') q) (gm_empty, True)"

definition url_query_get :: "string \<Rightarrow> request_url \<Rightarrow> string" where
  "url_query_get k u = (case form_values k (fst (parse_query (ru_raw_query u))) of [] \<Rightarrow> [] | v # _ \<Rightarrow> v)"

subsection \<open>Media types\<close>

text \<open>
  \<open>mime.ParseMediaType\<close>: the type before the first semicolon, and whether the parameter list
  after it is well formed. The fuel is the length of the text: every parameter takes at
  least its semicolon. A parameter given twice with different values is an error.
\<close>

definition media_special :: "char \<Rightarrow> bool" where
  "media_special c \<longleftrightarrow> c \<in> set ''()<>@,;:/[]?='' \<or> c = CHR 0x22 \<or> c = CHR 0x5C"

definition media_token_byte :: "char \<Rightarrow> bool" where
  "media_token_byte c \<longleftrightarrow> 33 \<le> byte c \<and> byte c \<le> 126 \<and> \<not> media_special c"

definition take_token :: "string \<Rightarrow> string \<times> string" where
  "take_token s = (takeWhile media_token_byte s, dropWhile media_token_byte s)"

fun quoted_value :: "string \<Rightarrow> (string \<times> string) option" where
  "quoted_value [] = None"
| "quoted_value (c # s) =
     (if c = CHR 0x22 then Some ([], s)
      else if c = CHR 0x5C \<and> s \<noteq> [] \<and> media_special (hd s)
      then map_option (apfst (Cons (hd s))) (quoted_value (tl s))
      else if c = CHR 0x0D \<or> c = CHR 0x0A then None
      else map_option (apfst (Cons c)) (quoted_value s))"

definition take_value :: "string \<Rightarrow> string \<times> string" where
  "take_value s =
     (case s of
        [] \<Rightarrow> ([], [])
      | c # r \<Rightarrow>
          if c \<noteq> CHR 0x22 then take_token s
          else (case quoted_value r of None \<Rightarrow> ([], s) | Some vr \<Rightarrow> vr))"

definition media_param :: "string \<Rightarrow> (string \<times> string \<times> string) option" where
  "media_param s =
     (case dropWhile is_space s of
        [] \<Rightarrow> None
      | c # r \<Rightarrow>
          if c \<noteq> CHR '';'' then None
          else (let (k, r1) = take_token (dropWhile is_space r)
                in case dropWhile is_space r1 of
                     [] \<Rightarrow> None
                   | e # r2 \<Rightarrow>
                       if k = [] \<or> e \<noteq> CHR ''='' then None
                       else (let r3 = dropWhile is_space r2; (v, r4) = take_value r3
                             in if v = [] \<and> r4 = r3 then None else Some (to_lower k, v, r4))))"

fun media_params_ok :: "nat \<Rightarrow> (string, string) gomap \<Rightarrow> string \<Rightarrow> bool" where
  "media_params_ok 0 m s = (dropWhile is_space s = [])"
| "media_params_ok (Suc n) m s =
     (if dropWhile is_space s = [] then True
      else (case media_param (dropWhile is_space s) of
              None \<Rightarrow> trim_space s = '';''
            | Some (k, v, r) \<Rightarrow>
                (case gm_get m k of
                   Some v' \<Rightarrow> v' = v \<and> media_params_ok n m r
                 | None \<Rightarrow> media_params_ok n (gm_put k v m) r)))"

definition media_type_ok :: "string \<Rightarrow> bool" where
  "media_type_ok t =
     (let (a, r) = take_token t
      in a \<noteq> [] \<and> (case r of
           [] \<Rightarrow> True
         | c # r1 \<Rightarrow> c = CHR ''/'' \<and> fst (take_token r1) \<noteq> [] \<and> snd (take_token r1) = []))"

definition parse_media_type :: "string \<Rightarrow> string \<times> bool" where
  "parse_media_type v =
     (let base = takeWhile (\<lambda>c. c \<noteq> CHR '';'') v; t = trim_space (to_lower base)
      in if \<not> media_type_ok t then ([], False)
         else (t, media_params_ok (length v) gm_empty (drop (length base) v)))"

subsection \<open>Forms\<close>

definition max_form_size :: int where
  "max_form_size = 10 * 1024 * 1024"

definition form_media_type :: string where
  "form_media_type = ''application/x-www-form-urlencoded''"

definition parse_post_form :: "request \<Rightarrow> form \<times> bool" where
  "parse_post_form req =
     (let ct = header_get ''Content-Type'' (rq_header req);
          (t, ok) = parse_media_type (if ct = [] then ''application/octet-stream'' else ct)
      in if t = form_media_type then
           (if max_form_size < int (length (rq_body req)) then (gm_empty, False)
            else (let (f, ok1) = parse_query (rq_body req) in (f, ok \<and> ok1)))
         else (gm_empty, ok))"

definition copy_values :: "form \<Rightarrow> form \<Rightarrow> form" where
  "copy_values src dst = fold (\<lambda>(k, vs) f. gm_put k (form_values k f @ vs) f) src dst"

text \<open>The form of a request, \<open>None\<close> where \<open>ParseForm\<close> reports an error.\<close>

definition parse_form :: "request \<Rightarrow> form option" where
  "parse_form req =
     (let (post, ok1) = (if rq_method req \<in> {''POST'', ''PUT'', ''PATCH''} then parse_post_form req else (gm_empty, True));
          (query, ok2) = parse_query (ru_raw_query (rq_url req))
      in if ok1 \<and> ok2 then Some (if post = [] then query else copy_values query post) else None)"

definition form_value :: "string \<Rightarrow> form \<Rightarrow> string" where
  "form_value k f = (case form_values k f of [] \<Rightarrow> [] | v # _ \<Rightarrow> v)"

subsection \<open>Encoding a form\<close>

text \<open>
  What a browser posts: every byte but letters, digits and \<open>-_.~\<close> is written as a percent
  pair, a space as a plus sign.
\<close>

definition query_byte :: "char \<Rightarrow> string" where
  "query_byte c =
     (if is_alpha c \<or> is_digit c \<or> c \<in> set ''-_.~'' then [c]
      else if c = CHR '' '' then ''+'' else percent_byte c)"

definition query_escape :: "string \<Rightarrow> string" where
  "query_escape s = concat (map query_byte s)"

fun encode_pairs :: "(string \<times> string) list \<Rightarrow> string" where
  "encode_pairs [] = []"
| "encode_pairs [(k, v)] = query_escape k @ ''='' @ query_escape v"
| "encode_pairs ((k, v) # kv # kvs) = query_escape k @ ''='' @ query_escape v @ ''&'' @ encode_pairs (kv # kvs)"

subsection \<open>Round trips\<close>

text \<open>The bytes that stand for themselves, and the percent pair of any other byte.\<close>

lemma hex_digit_val: "is_hex (hex_digit n)" "unhex (hex_digit n) = n mod 16"
proof -
  have "\<forall>k \<in> set [0..<16]. is_hex (''0123456789ABCDEF'' ! k) \<and> unhex (''0123456789ABCDEF'' ! k) = k"
    by code_simp
  then show "is_hex (hex_digit n)" "unhex (hex_digit n) = n mod 16" by (simp_all add: hex_digit_def)
qed

lemma hex_pair: "16 * unhex (hex_digit (byte c div 16)) + unhex (hex_digit (byte c)) = byte c"
proof -
  have "byte c < 256" by simp
  then show ?thesis by (simp add: hex_digit_val)
qed

lemma query_unescape_byte: "query_unescape (query_byte c @ s) = map_option (Cons c) (query_unescape s)"
proof -
  have plain: "c \<noteq> CHR ''%'' \<and> c \<noteq> CHR ''+''" if "is_alpha c \<or> is_digit c \<or> c \<in> set ''-_.~''"
    using that by (auto simp: is_alpha_def is_digit_def between_def less_eq_char_def)
  show ?thesis
    using plain hex_pair [of c] by (auto simp: query_byte_def percent_byte_def hex_digit_val(1))
qed

lemma query_unescape_escape: "query_unescape (query_escape s) = Some s"
proof (induction s)
  case Nil
  then show ?case by (simp add: query_escape_def)
next
  case (Cons c s)
  then show ?case by (simp add: query_escape_def query_unescape_byte)
qed

interpretation query: codec query_escape query_unescape "\<lambda>_. True"
  by unfold_locales (rule query_unescape_escape)

lemma query_byte_plain: "CHR ''&'' \<notin> set (query_byte c)" "CHR '';'' \<notin> set (query_byte c)" "CHR ''='' \<notin> set (query_byte c)"
proof -
  have "\<not> is_hex CHR ''&''" "\<not> is_hex CHR '';''" "\<not> is_hex CHR ''=''" by code_simp+
  then have no: "CHR ''&'' \<noteq> hex_digit n" "CHR '';'' \<noteq> hex_digit n" "CHR ''='' \<noteq> hex_digit n" for n
    using hex_digit_val(1) [of n] by auto
  show "CHR ''&'' \<notin> set (query_byte c)" "CHR '';'' \<notin> set (query_byte c)" "CHR ''='' \<notin> set (query_byte c)"
    by (auto simp: query_byte_def percent_byte_def is_alpha_def is_digit_def between_def less_eq_char_def no)
qed

lemma query_escape_plain:
  "CHR ''&'' \<notin> set (query_escape s)" "CHR '';'' \<notin> set (query_escape s)" "CHR ''='' \<notin> set (query_escape s)"
  using query_byte_plain by (auto simp: query_escape_def)

lemma query_pair_encoded:
  "query_pair (query_escape k @ ''='' @ query_escape v) (f, ok) = (form_add k v f, ok)"
  using query_escape_plain [of k] query_escape_plain [of v]
  by (simp add: query_pair_def cut_byte_def index_byte_append query_unescape_escape)

lemma parse_query_pairs:
  "fold query_pair (split_all (CHR ''&'') (encode_pairs kvs)) (f, ok) = (fold (\<lambda>(k, v). form_add k v) kvs f, ok)"
proof (induction kvs arbitrary: f rule: encode_pairs.induct)
  case 1
  then show ?case by (simp add: query_pair_def)
next
  case (2 k v)
  have "CHR ''&'' \<notin> set (query_escape k @ ''='' @ query_escape v)" using query_escape_plain by simp
  then have "split_all (CHR ''&'') (query_escape k @ ''='' @ query_escape v) = [query_escape k @ ''='' @ query_escape v]"
    by (rule split_all_notin)
  then show ?case using query_pair_encoded by simp
next
  case (3 k v kv kvs)
  have "CHR ''&'' \<notin> set (query_escape k @ ''='' @ query_escape v)" using query_escape_plain by simp
  from split_all_notin [OF this] 3 show ?case
    using split_all_append [of "CHR ''&''" "query_escape k @ ''='' @ query_escape v" "encode_pairs (kv # kvs)"]
      query_pair_encoded
    by simp
qed

lemma parse_query_encoded: "parse_query (encode_pairs kvs) = (fold (\<lambda>(k, v). form_add k v) kvs gm_empty, True)"
  by (simp add: parse_query_def parse_query_pairs)

lemma form_values_add: "form_values k (form_add k' v f) = (if k = k' then form_values k f @ [v] else form_values k f)"
  by (simp add: form_values_def form_add_def)

lemma form_values_fold:
  "form_values k (fold (\<lambda>(k, v). form_add k v) kvs f) = form_values k f @ map snd (filter (\<lambda>(k', v). k' = k) kvs)"
  by (induction kvs arbitrary: f) (auto simp: form_values_add)

text \<open>A form posted as a browser does is read back, the pairs of one key in their order.\<close>

definition posts :: "(string \<times> string) list \<Rightarrow> request \<Rightarrow> bool" where
  "posts kvs req \<longleftrightarrow>
     rq_method req = ''POST'' \<and> header_get ''Content-Type'' (rq_header req) = form_media_type \<and>
     rq_body req = encode_pairs kvs \<and> int (length (rq_body req)) \<le> max_form_size \<and> ru_raw_query (rq_url req) = []"

lemma parse_query_Nil: "parse_query [] = (gm_empty, True)"
  by (simp add: parse_query_def query_pair_def)

lemma posted_form:
  assumes "posts kvs req"
  shows "\<exists>f. parse_form req = Some f \<and> (\<forall>k. form_values k f = map snd (filter (\<lambda>(k', v). k' = k) kvs))"
proof -
  let ?f = "fold (\<lambda>(k, v). form_add k v) kvs gm_empty"
  have t: "parse_media_type form_media_type = (form_media_type, True)" "form_media_type \<noteq> []" by code_simp+
  have "parse_post_form req = (?f, True)"
    using assms t by (auto simp: parse_post_form_def posts_def Let_def parse_query_encoded)
  then have "parse_form req = Some (if ?f = [] then gm_empty else ?f)"
    using assms by (simp add: parse_form_def posts_def parse_query_Nil copy_values_def gm_empty_def)
  moreover have "(if ?f = [] then gm_empty else ?f) = ?f" by (simp add: gm_empty_def)
  moreover have "form_values k ?f = map snd (filter (\<lambda>(k', v). k' = k) kvs)" for k
    by (simp add: form_values_fold) (simp add: form_values_def)
  ultimately show ?thesis by simp
qed

end
