(* ===== verification/Go_Mux.thy ===== *)
theory Go_Mux
  imports Go_Web
begin

section \<open>Request routing of net/http's ServeMux\<close>

text \<open>
  The mux of Go 1.22 for patterns without methods, hosts and wildcards: a pattern is a list
  of path segments and matches that path exactly or, when it ends in a slash, every path
  below it. A path that is not clean is redirected to its clean form, a path that only
  lacks its final slash to the pattern with it. CONNECT requests are matched as they are.
\<close>

record 'h route =
  rt_segments :: "string list"
  rt_subtree :: bool
  rt_handler :: 'h

definition exact_route :: "string list \<Rightarrow> 'h \<Rightarrow> 'h route" where
  "exact_route segs h = \<lparr>rt_segments = segs, rt_subtree = False, rt_handler = h\<rparr>"

definition subtree_route :: "string list \<Rightarrow> 'h \<Rightarrow> 'h route" where
  "subtree_route segs h = \<lparr>rt_segments = segs, rt_subtree = True, rt_handler = h\<rparr>"

definition path_unescape :: "string \<Rightarrow> string" where
  "path_unescape s = (case unescape Esc_Path s of None \<Rightarrow> s | Some t \<Rightarrow> t)"

text \<open>The segments of a path after its leading slash; none for the empty path.\<close>

definition path_segments :: "string \<Rightarrow> string list" where
  "path_segments p = (if p = [] then [] else map path_unescape (split_all (CHR ''/'') (tl p)))"

definition route_matches :: "string list \<Rightarrow> 'h route \<Rightarrow> bool" where
  "route_matches segs r \<longleftrightarrow>
     (if rt_subtree r then length (rt_segments r) < length segs \<and> take (length (rt_segments r)) segs = rt_segments r
      else segs = rt_segments r)"

text \<open>The more specific of two matching patterns: an exact one, else the longer one.\<close>

definition better :: "'h route \<Rightarrow> 'h route option \<Rightarrow> 'h route option" where
  "better r best =
     (case best of
        None \<Rightarrow> Some r
      | Some b \<Rightarrow>
          if \<not> rt_subtree b then best
          else if \<not> rt_subtree r \<or> length (rt_segments b) < length (rt_segments r) then Some r else best)"

definition mux_match :: "'h route list \<Rightarrow> string \<Rightarrow> 'h route option" where
  "mux_match routes p = fold better (filter (route_matches (path_segments p)) routes) None"

definition exact_match :: "'h route option \<Rightarrow> string \<Rightarrow> bool" where
  "exact_match m p =
     (case m of
        None \<Rightarrow> False
      | Some r \<Rightarrow> \<not> rt_subtree r \<or> (has_suffix ''/'' p \<and> Suc (length (rt_segments r)) = count_list p (CHR ''/'')))"

definition mux_clean :: "string \<Rightarrow> string" where
  "mux_clean p =
     (if p = [] then ''/''
      else (let q = (if hd p = CHR ''/'' then p else CHR ''/'' # p); c = clean_path q
            in if last q = CHR ''/'' \<and> c \<noteq> ''/'' then c @ ''/'' else c))"

text \<open>\<open>URL.String\<close> of a path, given unescaped, and a query.\<close>

definition path_query :: "string \<Rightarrow> string \<Rightarrow> string" where
  "path_query p q = escape_path p @ (if q \<noteq> [] then ''?'' @ q else [])"

datatype 'h mux_answer = Mux_Handler 'h | Mux_Redirect string | Mux_Not_Found

definition slash_redirect :: "'h route list \<Rightarrow> string \<Rightarrow> bool" where
  "slash_redirect routes p \<longleftrightarrow>
     \<not> exact_match (mux_match routes p) p \<and> \<not> has_suffix ''/'' p \<and>
     exact_match (mux_match routes (p @ ''/'')) (p @ ''/'')"

definition mux_find :: "'h route list \<Rightarrow> request \<Rightarrow> 'h mux_answer" where
  "mux_find routes req =
     (let u = rq_url req; escaped = escaped_path u;
          p = (if rq_method req = ''CONNECT'' then escaped else mux_clean escaped)
      in if slash_redirect routes p then Mux_Redirect (path_query (mux_clean (ru_path u) @ ''/'') (ru_raw_query u))
         else if p \<noteq> escaped then Mux_Redirect (path_query p (ru_raw_query u))
         else (case mux_match routes p of None \<Rightarrow> Mux_Not_Found | Some r \<Rightarrow> Mux_Handler (rt_handler r)))"

subsection \<open>The mux as a handler\<close>

definition redirect_to :: "string \<Rightarrow> int \<Rightarrow> string \<Rightarrow> request \<Rightarrow> writer \<Rightarrow> writer" where
  "redirect_to loc code status_text req w =
     http_redirect (rq_method req) (redirect_location (ru_path (rq_url req)) loc) code status_text w"

definition not_found :: "writer \<Rightarrow> writer" where
  "not_found w = http_error ''404 page not found'' 404 w"

text \<open>The request for the server as a whole, \<open>*\<close>, is answered 400 and closes the connection.\<close>

definition star_answer :: "writer \<Rightarrow> writer" where
  "star_answer w = commit_header 400 (w\<lparr>w_header := header_set ''Connection'' ''close'' (w_header w)\<rparr>)"

definition mux_serve ::
  "('h \<Rightarrow> request \<Rightarrow> writer \<Rightarrow> 's \<Rightarrow> writer \<times> 's) \<Rightarrow> 'h route list \<Rightarrow> request \<Rightarrow> writer \<Rightarrow> 's \<Rightarrow> writer \<times> 's" where
  "mux_serve run routes req w s =
     (if ru_path (rq_url req) = ''*'' then (star_answer w, s)
      else (case mux_find routes req of
              Mux_Handler h \<Rightarrow> run h req w s
            | Mux_Redirect loc \<Rightarrow> (redirect_to loc 301 ''Moved Permanently'' req w, s)
            | Mux_Not_Found \<Rightarrow> (not_found w, s)))"

text \<open>Whatever the mux does by itself leaves the state alone.\<close>

lemma mux_serve_state:
  "snd (mux_serve run routes req w s) = s \<or>
   (\<exists>h. mux_find routes req = Mux_Handler h \<and> mux_serve run routes req w s = run h req w s)"
  by (cases "mux_find routes req") (simp_all add: mux_serve_def)

lemma fold_better: "fold better rs b \<in> insert b (Some ` set rs)"
proof (induction rs arbitrary: b)
  case (Cons r rs)
  from Cons [of "better r b"] show ?case
    by (auto simp: better_def split: option.splits if_splits)
qed simp

lemma mux_match_in: "mux_match routes p = Some r \<Longrightarrow> r \<in> set routes \<and> route_matches (path_segments p) r"
  using fold_better [of "filter (route_matches (path_segments p)) routes" None] by (auto simp: mux_match_def)

lemma mux_find_in: "mux_find routes req = Mux_Handler h \<Longrightarrow> h \<in> rt_handler ` set routes"
  by (auto simp: mux_find_def Let_def dest: mux_match_in split: if_splits option.splits)

text \<open>A clean path without bytes to escape is matched as it is.\<close>

definition plain_path :: "string \<Rightarrow> bool" where
  "plain_path p \<longleftrightarrow> escape_path p = p \<and> mux_clean p = p \<and> p \<noteq> ''*''"

lemma mux_find_plain:
  assumes "plain_path p" "ru_path (rq_url req) = p" "ru_raw_path (rq_url req) = []"
    and "\<not> slash_redirect routes p" "map_option rt_handler (mux_match routes p) = Some h"
  shows "mux_find routes req = Mux_Handler h"
proof -
  have "escaped_path (rq_url req) = p" using assms(1-3) by (simp add: escaped_path_def plain_path_def)
  then show ?thesis
    using assms(1,4,5) by (auto simp: mux_find_def plain_path_def Let_def split: option.split)
qed

lemma mux_serve_handler:
  "mux_find routes req = Mux_Handler h \<Longrightarrow> ru_path (rq_url req) \<noteq> ''*'' \<Longrightarrow>
     mux_serve run routes req w s = run h req w s"
  by (simp add: mux_serve_def)

end
