(* ===== verification/Ui.thy ===== *)
theory Ui
  imports Ui_Pages Go_Form Go_Mux
begin

section \<open>The admin interface: handlers and routing\<close>

text \<open>
  \<open>internal/ui/ui.go\<close>. The server's fields that do not change are one record, with what lies
  outside the repository as functions: the MAC and bcrypt's comparison, the YAML library,
  certmagic's certificate lookup, the execution of the HTML templates, the file server over
  the embedded assets, the text of an error and of a date. The state is the file system and
  the running system. A pointer to a site is its position in the store's list; a runtime has
  its own copy of the site, of which the serving path never reads whether it is enabled, the
  one field a handler changes in place. A handler is one step.
\<close>

record app =
  ap_fs :: fsys
  ap_sys :: system

record ui_server =
  ui_yaml :: yaml_lib
  ui_mac :: mac
  ui_compare :: "string \<Rightarrow> string \<Rightarrow> bool"
  ui_auth :: manager
  ui_acme :: "(string \<Rightarrow> cert_lookup) option"
  ui_sites_dir :: string
  ui_version :: string
  ui_start :: int
  ui_reload :: bool
  ui_execute :: "string \<Rightarrow> view \<Rightarrow> string"
  ui_static :: "request \<Rightarrow> writer \<Rightarrow> writer"
  ui_save_text :: "save_error \<Rightarrow> string"
  ui_delete_text :: "delete_error \<Rightarrow> string"
  ui_http_date :: "int \<Rightarrow> string"

type_synonym 's handler = "request \<Rightarrow> writer \<Rightarrow> 's \<Rightarrow> writer \<times> 's"

subsection \<open>Helpers\<close>

definition render :: "ui_server \<Rightarrow> string \<Rightarrow> view \<Rightarrow> writer \<Rightarrow> writer" where
  "render srv body v w =
     (let h = header_set ''X-Content-Type-Options'' ''nosniff''
                (header_set ''Content-Type'' ''text/html; charset=utf-8'' (w_header w))
      in snd (snd (write_body (ui_execute srv body v) (w\<lparr>w_header := h\<rparr>))))"

definition see_other :: "string \<Rightarrow> request \<Rightarrow> writer \<Rightarrow> writer" where
  "see_other loc req w = redirect_to loc 303 ''See Other'' req w"

definition base_of :: "ui_server \<Rightarrow> int \<Rightarrow> app \<Rightarrow> string \<Rightarrow> string \<Rightarrow> string \<Rightarrow> base_data" where
  "base_of srv now s title active content =
     base_page (ui_version srv) (ui_start srv) now (ap_sys s) title active content"

definition trigger_reload :: "ui_server \<Rightarrow> app \<Rightarrow> app" where
  "trigger_reload srv s =
     (if ui_reload srv then s\<lparr>ap_sys := reload_callback (ui_yaml srv) (ap_fs s) (ui_sites_dir srv) (ap_sys s)\<rparr> else s)"

definition split_words :: "string \<Rightarrow> string list" where
  "split_words s = filter (\<lambda>f. f \<noteq> []) (Go_Strings.fields s)"

definition split_lines :: "string \<Rightarrow> string list" where
  "split_lines s = filter (\<lambda>l. l \<noteq> []) (map trim_space (split_all (CHR 0x0A) s))"

subsection \<open>Login and logout\<close>

definition local_target :: "string \<Rightarrow> bool" where
  "local_target t \<longleftrightarrow> t \<noteq> [] \<and> has_prefix ''/'' t"

definition handle_login :: "ui_server \<Rightarrow> int \<Rightarrow> 's handler" where
  "handle_login srv now req w s =
     (let q = url_query_get ''next'' (rq_url req); target = (if local_target q then q else ''/'')
      in if rq_method req = ''POST'' then
           (case parse_form req of
              None \<Rightarrow> (http_error ''bad form'' 400 w, s)
            | Some f \<Rightarrow>
                (let username = form_value ''username'' f; password = form_value ''password'' f;
                     posted = form_value ''next'' f; target = (if local_target posted then posted else target)
                 in if \<not> verify_password (ui_compare srv) username password (ui_auth srv) then
                      (render srv ''login'' (Login_View ''Invalid username or password.'' target) w, s)
                    else
                      (let c = issue_cookie (ui_mac srv) (unix_seconds now) (rq_tls req) username (ui_auth srv)
                       in (see_other target req (set_cookie (ui_http_date srv) c w), s))))
         else (render srv ''login'' (Login_View [] target) w, s))"

definition handle_logout :: "ui_server \<Rightarrow> 's handler" where
  "handle_logout srv req w s =
     (see_other ''/login'' req (set_cookie (ui_http_date srv) (clear_cookie (rq_tls req)) w), s)"

subsection \<open>Pages\<close>

definition handle_dashboard :: "ui_server \<Rightarrow> int \<Rightarrow> app handler" where
  "handle_dashboard srv now req w s =
     (if ru_path (rq_url req) \<noteq> ''/'' then (not_found w, s)
      else (let t = build_site_rows now (ap_sys s);
                d = dashboard_page (base_of srv now s ''Dashboard'' ''dashboard'' ''dashboard'') t
            in (render srv ''layout'' (Dashboard_View d) w, s)))"

definition handle_site_rows :: "ui_server \<Rightarrow> int \<Rightarrow> app handler" where
  "handle_site_rows srv now req w s =
     (render srv ''site-rows'' (Rows_View (tt_rows (build_site_rows now (ap_sys s)))) w, s)"

definition handle_certs :: "ui_server \<Rightarrow> int \<Rightarrow> app handler" where
  "handle_certs srv now req w s =
     (let domains = store_domains (ro_store (sy_router (ap_sys s)));
          infos = (case ui_acme srv of None \<Rightarrow> [] | Some get \<Rightarrow> list_certs get domains)
      in (render srv ''layout'' (Certs_View (base_of srv now s ''Certificates'' ''certs'' ''certs'') infos) w, s))"

text \<open>The form of a new site starts with its usual settings.\<close>

definition blank_site :: site where
  "blank_site =
     zero_site\<lparr>s_enabled := True, s_http_to_https := True, s_websocket := True, s_block_exploits := True,
       s_tls := \<lparr>t_auto = True, t_cert_file = [], t_key_file = []\<rparr>\<rparr>"

definition form_page :: "ui_server \<Rightarrow> int \<Rightarrow> app \<Rightarrow> string \<Rightarrow> bool \<Rightarrow> site \<Rightarrow> string \<Rightarrow> view" where
  "form_page srv now s title is_new st err =
     Form_View \<lparr>sf_base = base_of srv now s title ''sites'' ''site-form'', sf_new = is_new, sf_site = st,
       sf_error = err, sf_saved = False\<rparr>"

definition handle_site_new :: "ui_server \<Rightarrow> int \<Rightarrow> app handler" where
  "handle_site_new srv now req w s =
     (render srv ''layout'' (form_page srv now s ''Add site'' True blank_site []) w, s)"

subsection \<open>Editing sites\<close>

definition checked :: "string \<Rightarrow> form \<Rightarrow> bool" where
  "checked k f \<longleftrightarrow> form_value k f = ''on''"

definition form_int :: "string \<Rightarrow> form \<Rightarrow> int \<Rightarrow> int" where
  "form_int k f old = (case parse_int (form_value k f) of None \<Rightarrow> old | Some v \<Rightarrow> v)"

text \<open>The site of a posted form: the fields the form does not have are those of the old site.\<close>

definition site_from_form :: "form \<Rightarrow> site option \<Rightarrow> site" where
  "site_from_form f existing =
     (let s0 = (case existing of None \<Rightarrow> zero_site | Some s \<Rightarrow> s)
      in s0\<lparr>s_domain := trim_space (form_value ''domain'' f),
            s_aliases := split_words (form_value ''aliases'' f),
            s_upstreams := split_lines (form_value ''upstreams'' f),
            s_enabled := checked ''enabled'' f,
            s_http_to_https := checked ''http_to_https'' f,
            s_websocket := checked ''websocket'' f,
            s_block_exploits := checked ''block_common_exploits'' f,
            s_tls := (s_tls s0)\<lparr>t_auto := checked ''tls_auto'' f\<rparr>,
            s_rate_limit := \<lparr>rl_enabled = checked ''rl_enabled'' f,
              rl_rps = form_int ''rl_rps'' f (rl_rps (s_rate_limit s0)),
              rl_burst = form_int ''rl_burst'' f (rl_burst (s_rate_limit s0))\<rparr>\<rparr>)"

definition create_or_update_site :: "ui_server \<Rightarrow> int \<Rightarrow> site option \<Rightarrow> app handler" where
  "create_or_update_site srv now existing req w s =
     (case parse_form req of
        None \<Rightarrow> (http_error ''bad form'' 400 w, s)
      | Some f \<Rightarrow>
          (let st = site_from_form f existing;
               (res, fs1) = save_site (ui_yaml srv) (ui_sites_dir srv) st (ap_fs s);
               s1 = s\<lparr>ap_fs := fs1\<rparr>
           in case res of
                Inl e \<Rightarrow>
                  (render srv ''layout'' (form_page srv now s1 ''Add site'' (existing = None) st (ui_save_text srv e)) w, s1)
              | Inr path \<Rightarrow>
                  (see_other (''/sites/'' @ s_filename st @ ''?saved=1'') req w, trigger_reload srv s1)))"

definition find_site :: "string \<Rightarrow> store \<Rightarrow> nat option" where
  "find_site filename st =
     (case filter (\<lambda>i. s_filename (st_sites st ! i) = filename) [0..<length (st_sites st)] of
        [] \<Rightarrow> None
      | i # _ \<Rightarrow> Some i)"

definition current_store :: "app \<Rightarrow> store" where
  "current_store s = ro_store (sy_router (ap_sys s))"

definition update_site :: "nat \<Rightarrow> site \<Rightarrow> app \<Rightarrow> app" where
  "update_site i st s =
     s\<lparr>ap_sys := (ap_sys s)\<lparr>sy_router := (sy_router (ap_sys s))\<lparr>ro_store :=
         (current_store s)\<lparr>st_sites := (st_sites (current_store s))[i := st]\<rparr>\<rparr>\<rparr>\<rparr>"

definition toggle_site :: "ui_server \<Rightarrow> nat option \<Rightarrow> app handler" where
  "toggle_site srv pos req w s =
     (case pos of
        None \<Rightarrow> (http_error ''not found'' 404 w, s)
      | Some i \<Rightarrow>
          (let st0 = st_sites (current_store s) ! i; st = st0\<lparr>s_enabled := \<not> s_enabled st0\<rparr>;
               s1 = update_site i st s;
               (res, fs1) = save_site (ui_yaml srv) (ui_sites_dir srv) st (ap_fs s1);
               s2 = s1\<lparr>ap_fs := fs1\<rparr>
           in case res of
                Inl e \<Rightarrow> (http_error (ui_save_text srv e) 400 w, s2)
              | Inr path \<Rightarrow> (see_other ''/'' req w, trigger_reload srv s2)))"

definition remove_site :: "ui_server \<Rightarrow> string \<Rightarrow> app handler" where
  "remove_site srv filename req w s =
     (if rq_method req \<noteq> ''POST'' then (http_error ''method not allowed'' 405 w, s)
      else (let (res, fs1) = delete_site (ui_sites_dir srv) filename (ap_fs s); s1 = s\<lparr>ap_fs := fs1\<rparr>
            in case res of
                 Some e \<Rightarrow> (http_error (ui_delete_text srv e) 500 w, s1)
               | None \<Rightarrow> (see_other ''/'' req w, trigger_reload srv s1)))"

definition show_or_save :: "ui_server \<Rightarrow> int \<Rightarrow> nat option \<Rightarrow> app handler" where
  "show_or_save srv now pos req w s =
     (let site = map_option (\<lambda>i. st_sites (current_store s) ! i) pos
      in if rq_method req = ''POST'' then
           (case site of
              None \<Rightarrow> (http_error ''not found'' 404 w, s)
            | Some st \<Rightarrow> create_or_update_site srv now (Some st) req w s)
         else (case site of
                 None \<Rightarrow> (not_found w, s)
               | Some st \<Rightarrow> (render srv ''layout'' (form_page srv now s (s_domain st) False st []) w, s)))"

definition trim_prefix :: "string \<Rightarrow> string \<Rightarrow> string" where
  "trim_prefix p s = (if has_prefix p s then drop (length p) s else s)"

definition handle_sites_item :: "ui_server \<Rightarrow> int \<Rightarrow> app handler" where
  "handle_sites_item srv now req w s =
     (let p = trim_prefix ''/sites/'' (ru_path (rq_url req))
      in if p = [] then (see_other ''/'' req w, s)
         else (let parts = split_n 2 (CHR ''/'') p; filename = hd parts
               in if contains_any [CHR ''/'', CHR 0x5C] filename \<or> contains ''..'' filename
                  then (http_error ''bad filename'' 400 w, s)
                  else (let pos = find_site filename (current_store s)
                        in if tl parts = [''toggle''] then toggle_site srv pos req w s
                           else if tl parts = [''delete''] then remove_site srv filename req w s
                           else show_or_save srv now pos req w s)))"

definition handle_sites_list :: "ui_server \<Rightarrow> int \<Rightarrow> app handler" where
  "handle_sites_list srv now req w s =
     (if rq_method req = ''POST'' then create_or_update_site srv now None req w s
      else (see_other ''/'' req w, s))"

subsection \<open>Routing\<close>

datatype authed_page = Page_Dashboard | Page_Sites | Page_Site_New | Page_Sites_Item | Page_Certs | Page_Rows

definition authed_routes :: "authed_page route list" where
  "authed_routes =
     [subtree_route [] Page_Dashboard, exact_route [''sites''] Page_Sites,
      exact_route [''sites'', ''new''] Page_Site_New, subtree_route [''sites''] Page_Sites_Item,
      exact_route [''certs''] Page_Certs, exact_route [''partials'', ''site-rows''] Page_Rows]"

definition run_page :: "ui_server \<Rightarrow> int \<Rightarrow> authed_page \<Rightarrow> app handler" where
  "run_page srv now h =
     (case h of
        Page_Dashboard \<Rightarrow> handle_dashboard srv now
      | Page_Sites \<Rightarrow> handle_sites_list srv now
      | Page_Site_New \<Rightarrow> handle_site_new srv now
      | Page_Sites_Item \<Rightarrow> handle_sites_item srv now
      | Page_Certs \<Rightarrow> handle_certs srv now
      | Page_Rows \<Rightarrow> handle_site_rows srv now)"

definition authed_handler :: "ui_server \<Rightarrow> int \<Rightarrow> app handler" where
  "authed_handler srv now = mux_serve (run_page srv now) authed_routes"

datatype public_page = Page_Static | Page_Login | Page_Logout | Page_Authed

definition public_routes :: "public_page route list" where
  "public_routes =
     [subtree_route [''static''] Page_Static, exact_route [''login''] Page_Login,
      exact_route [''logout''] Page_Logout, subtree_route [] Page_Authed]"

definition run_public :: "ui_server \<Rightarrow> int \<Rightarrow> public_page \<Rightarrow> app handler" where
  "run_public srv now h =
     (case h of
        Page_Static \<Rightarrow> (\<lambda>req w s. (ui_static srv req w, s))
      | Page_Login \<Rightarrow> handle_login srv now
      | Page_Logout \<Rightarrow> handle_logout srv
      | Page_Authed \<Rightarrow> require_auth (ui_mac srv) (unix_seconds now) (ui_auth srv) (authed_handler srv now))"

definition ui_handler :: "ui_server \<Rightarrow> int \<Rightarrow> app handler" where
  "ui_handler srv now = mux_serve (run_public srv now) public_routes"

end
