(* ===== verification/Config_Frame.thy ===== *)
theory Config_Frame
  imports Config_Store
begin

section \<open>What a load does not depend on\<close>

text \<open>
  Two file systems that agree on the sites directory and on the site files in it load the
  same: a failed save, which can leave a temporary file, and a refused delete are not seen
  by the next load.
\<close>

definition candidate :: "string \<times> bool \<Rightarrow> bool" where
  "candidate e \<longleftrightarrow> \<not> snd e \<and> site_file_name (fst e)"

lemma load_entries_candidates: "load_entries Y fs dir es = load_entries Y fs dir (filter candidate es)"
  by (induction Y fs dir es rule: load_entries.induct)
    (auto simp: candidate_def Let_def split: prod.split sum.split)

lemma load_entries_cong:
  "(\<And>n. (n, False) \<in> set es \<Longrightarrow> site_file_name n \<Longrightarrow>
      load_site_file Y fs (join_path dir n) = load_site_file Y fs' (join_path dir n)) \<Longrightarrow>
     load_entries Y fs dir es = load_entries Y fs' dir es"
  by (induction Y fs dir es rule: load_entries.induct) (auto simp: Let_def split: prod.split)

lemma candidate_names: "filter candidate es = map (\<lambda>n. (n, False)) (map fst (filter candidate es))"
  by (induction es) (auto simp: candidate_def)

lemma sorted_candidates:
  assumes "fs_ok fs"
  shows "sorted (map fst (filter candidate (dir_entries fs dir)))"
    "distinct (map fst (filter candidate (dir_entries fs dir)))"
proof -
  have "sorted (map fst (dir_entries fs dir))" by (simp add: dir_entries_def)
  then show "sorted (map fst (filter candidate (dir_entries fs dir)))"
    by (rule sorted_filter)
  show "distinct (map fst (filter candidate (dir_entries fs dir)))"
    using distinct_dir_entries [OF assms] by (simp add: distinct_map_filter)
qed

lemma load_sites_cong:
  assumes ok: "fs_ok fs" "fs_ok fs'" and dir: "dir \<noteq> []"
    and more: "fs_unreadable fs' = fs_unreadable fs"
    and same_dir: "gm_get (fs_nodes fs') (clean_path dir) = gm_get (fs_nodes fs) (clean_path dir)"
    and same: "\<And>n. regular_name n \<Longrightarrow> site_file_name n \<Longrightarrow>
      gm_get (fs_nodes fs') (join_path dir n) = gm_get (fs_nodes fs) (join_path dir n)"
  shows "load_sites Y fs' dir = load_sites Y fs dir"
proof -
  let ?es = "dir_entries fs dir" and ?es' = "dir_entries fs' dir"
  have "x \<in> set (filter candidate ?es') \<longleftrightarrow> x \<in> set (filter candidate ?es)" for x
  proof (cases x)
    case (Pair n d)
    then show ?thesis
      using set_dir_entries [OF ok(1) dir, of n d] set_dir_entries [OF ok(2) dir, of n d] same [of n]
      by (auto simp: candidate_def)
  qed
  then have "set (filter candidate ?es') = set (filter candidate ?es)" by blast
  then have "set (map fst (filter candidate ?es')) = set (map fst (filter candidate ?es))"
    by (simp only: set_map)
  then have "map fst (filter candidate ?es') = map fst (filter candidate ?es)"
    using sorted_candidates [OF ok(1)] sorted_candidates [OF ok(2)]
    by (intro sorted_distinct_set_unique) blast+
  then have names: "filter candidate ?es' = filter candidate ?es"
    by (subst (1 2) candidate_names) (simp only:)
  have "load_site_file Y fs' (join_path dir n) = load_site_file Y fs (join_path dir n)"
    if "(n, False) \<in> set ?es" "site_file_name n" for n
    using that same [of n] set_dir_entries [OF ok(1) dir] more
    by (simp add: load_site_file_def read_file_def fs_file_def)
  then have "load_entries Y fs' dir (filter candidate ?es) = load_entries Y fs dir (filter candidate ?es)"
    by (intro load_entries_cong) auto
  then have "load_entries Y fs' dir ?es' = load_entries Y fs dir ?es"
    by (subst (1 2) load_entries_candidates) (simp only: names)
  moreover have "read_dir fs' dir = (if read_dir fs dir = None then None else Some ?es')"
    using more same_dir by (simp add: read_dir_def)
  moreover have "read_dir fs dir \<noteq> None \<Longrightarrow> read_dir fs dir = Some ?es"
    by (auto simp: read_dir_def split: if_splits)
  ultimately show ?thesis by (simp add: load_sites_def) (auto split: option.split)
qed

text \<open>The sites of a load carry the plain name of their file.\<close>

definition plain_file :: "site \<Rightarrow> bool" where
  "plain_file s \<longleftrightarrow> s_filename s = [] \<or> regular_name (s_filename s) \<and> site_file_name (s_filename s)"

lemma loaded_plain:
  assumes "fs_ok fs" "dir \<noteq> []" "s \<in> set (fst (load_sites Y fs dir))"
  shows "regular_name (s_filename s)" "site_file_name (s_filename s)" "site_ok s"
proof -
  have "read_dir fs dir \<noteq> None"
  proof
    assume "read_dir fs dir = None"
    with assms(3) show False by (simp add: load_sites_def)
  qed
  from set_load_sites [OF assms(1,2) this] assms(3)
  show "regular_name (s_filename s)" "site_file_name (s_filename s)" "site_ok s"
    by (auto simp: site_ok_def)
qed

text \<open>The temporary file is no site file, and it is in the directory.\<close>

lemma temporary_path:
  assumes "regular_name m" "dir \<noteq> []"
  shows "join_path dir m @ ''.tmp'' = join_path dir (m @ ''.tmp'')" "regular_name (m @ ''.tmp'')"
proof -
  show "regular_name (m @ ''.tmp'')" using assms(1) by (auto simp: regular_name_def)
  then show "join_path dir m @ ''.tmp'' = join_path dir (m @ ''.tmp'')"
    using assms by (simp add: join_path_regular)
qed

lemma temporary_no_site: "\<not> site_file_name (m @ ''.tmp'')"
  by (auto simp: site_file_name_def has_suffix_iff)

lemma failed_save_unseen:
  assumes "fs_ok fs" "dir \<noteq> []" "plain_file s" "save_site Y dir s fs = (Inl e, fs')"
  shows "load_sites Y' fs' dir = load_sites Y' fs dir"
proof (rule load_sites_cong [OF assms(1) _ assms(2)])
  note more = save_site_more [OF assms(1,4)]
  show "fs_ok fs'" "fs_unreadable fs' = fs_unreadable fs" using more by simp_all
  let ?m = "site_file s"
  have m: "regular_name ?m" using site_file_regular assms(3) by (auto simp: plain_file_def)
  note tmp = temporary_path [OF m assms(2)]
  note nodes = save_site_nodes [OF assms(1,4)]
  show "gm_get (fs_nodes fs') (clean_path dir) = gm_get (fs_nodes fs) (clean_path dir)"
    using nodes [of "clean_path dir"] tmp join_path_neq_dir [OF tmp(2) assms(2)] by simp
  fix n assume n: "regular_name n" "site_file_name n"
  then have "n \<noteq> ?m @ ''.tmp''" using temporary_no_site by blast
  then have "join_path dir n \<noteq> join_path dir ?m @ ''.tmp''"
    using tmp n(1) assms(2) by (simp add: join_path_regular)
  with nodes [of "join_path dir n"]
  show "gm_get (fs_nodes fs') (join_path dir n) = gm_get (fs_nodes fs) (join_path dir n)" by simp
qed

lemma failed_delete_unseen: "fs_ok fs \<Longrightarrow> delete_site dir n fs = (Some e, fs') \<Longrightarrow> fs' = fs"
  by (auto simp: delete_site_def remove_file_def Let_def split: if_splits option.splits prod.splits)

end
