(* ===== verification/Ui_Edit.thy ===== *)
theory Ui_Edit
  imports Ui Config_Frame
begin

section \<open>What requests to the admin interface do to the system\<close>

text \<open>
  Who may change anything, and that every request leaves the sites shown, the sites served
  and the files on disk in line.
\<close>

subsection \<open>Handlers that leave the state alone\<close>

lemma read_only_pages:
  "snd (handle_login srv now req w s) = s" "snd (handle_logout srv req w s) = s"
  "snd (handle_dashboard srv now req w s') = s'" "snd (handle_site_rows srv now req w s') = s'"
  "snd (handle_certs srv now req w s') = s'" "snd (handle_site_new srv now req w s') = s'"
  by (simp_all add: handle_login_def handle_logout_def handle_dashboard_def handle_site_rows_def
      handle_certs_def handle_site_new_def Let_def split: option.split)

text \<open>Requests that may change the state: posts, and the toggle path by any method.\<close>

definition editing :: "request \<Rightarrow> bool" where
  "editing req \<longleftrightarrow> rq_method req = ''POST'' \<or> has_suffix ''/toggle'' (ru_path (rq_url req))"

lemma split_n_2: "split_n 2 c p = [f, t] \<Longrightarrow> p = f @ c # t"
  by (auto simp: numeral_2_eq_2 split: option.splits dest!: index_byte_SomeD) (metis id_take_nth_drop)

lemma trim_prefix_suffix: "trim_prefix q p = x @ t \<Longrightarrow> has_suffix t p"
  by (auto simp: trim_prefix_def has_suffix_iff split: if_splits)
    (metis append.assoc append_take_drop_id)

lemma toggle_path:
  assumes "tl (split_n 2 (CHR ''/'') (trim_prefix q p)) = [''toggle'']"
  shows "has_suffix ''/toggle'' p"
proof -
  obtain f where "split_n 2 (CHR ''/'') (trim_prefix q p) = [f, ''toggle'']"
    using assms by (cases "split_n 2 (CHR ''/'') (trim_prefix q p)") auto
  from split_n_2 [OF this] show ?thesis by (intro trim_prefix_suffix) simp
qed

lemma sites_item_read_only: "\<not> editing req \<Longrightarrow> snd (handle_sites_item srv now req w s) = s"
  by (auto simp: handle_sites_item_def editing_def remove_site_def show_or_save_def Let_def
      dest: toggle_path split: option.split)

lemma run_page_read_only: "\<not> editing req \<Longrightarrow> snd (run_page srv now h req w s) = s"
  by (cases h) (simp_all add: run_page_def read_only_pages sites_item_read_only handle_sites_list_def editing_def)

lemma authed_state:
  "snd (authed_handler srv now req w s) = s \<or> (\<exists>h. snd (authed_handler srv now req w s) = snd (run_page srv now h req w s))"
  using mux_serve_state [of "run_page srv now" authed_routes req w s] by (auto simp: authed_handler_def)

lemma ui_state:
  "snd (ui_handler srv now req w s) = s \<or>
   (authenticated (ui_mac srv) (unix_seconds now) req (ui_auth srv) \<noteq> [] \<and>
    (\<exists>h. snd (ui_handler srv now req w s) = snd (run_page srv now h req w s)))"
proof -
  have "snd (run_public srv now h req w s) = s \<or>
      (authenticated (ui_mac srv) (unix_seconds now) req (ui_auth srv) \<noteq> [] \<and>
       (\<exists>h'. snd (run_public srv now h req w s) = snd (run_page srv now h' req w s)))" for h
    using authed_state [of srv now req w s]
    by (cases h) (auto simp: run_public_def read_only_pages require_auth_def)
  then show ?thesis
    using mux_serve_state [of "run_public srv now" public_routes req w s] by (metis ui_handler_def)
qed

subsection \<open>Files, store and serving in line\<close>

text \<open>
  The store shows, and the proxy serves, exactly the sites that the files now say.
\<close>

definition disk_sites :: "ui_server \<Rightarrow> app \<Rightarrow> site list" where
  "disk_sites srv s = fst (load_sites (ui_yaml srv) (ap_fs s) (ui_sites_dir srv))"

definition current_app :: "ui_server \<Rightarrow> app \<Rightarrow> bool" where
  "current_app srv s \<longleftrightarrow>
     fs_ok (ap_fs s) \<and> snapshot_sites (current_store s) = disk_sites srv s \<and> in_line (disk_sites srv s) (ap_sys s)"

text \<open>A server that is wired as main wires it: with a directory and the reload callback.\<close>

definition wired :: "ui_server \<Rightarrow> bool" where
  "wired srv \<longleftrightarrow> ui_reload srv \<and> ui_sites_dir srv \<noteq> []"

lemma apply_sites_snapshot: "snapshot_sites (ro_store (sy_router (apply_sites ss sys))) = ss"
  by (simp add: apply_sites_router install_def reload_fields store.sites_replace)

lemma reloaded_current: "wired srv \<Longrightarrow> fs_ok (ap_fs s) \<Longrightarrow> current_app srv (trigger_reload srv s)"
  by (simp add: current_app_def trigger_reload_def wired_def disk_sites_def current_store_def reload_callback_def
      case_prod_beta apply_sites_in_line apply_sites_snapshot)

lemma unseen_current:
  assumes "current_app srv s" "fs_ok fs'"
    "load_sites (ui_yaml srv) fs' (ui_sites_dir srv) = load_sites (ui_yaml srv) (ap_fs s) (ui_sites_dir srv)"
  shows "current_app srv (s\<lparr>ap_fs := fs'\<rparr>)"
  using assms by (simp add: current_app_def disk_sites_def current_store_def)

lemma current_plain:
  assumes "wired srv" "current_app srv s" "st \<in> set (snapshot_sites (current_store s))"
  shows "plain_file st" "site_ok st"
  using assms loaded_plain [of "ap_fs s" "ui_sites_dir srv" st "ui_yaml srv"]
  by (auto simp: current_app_def wired_def disk_sites_def plain_file_def)

lemma form_filename:
  "s_filename (site_from_form f existing) = (case existing of None \<Rightarrow> [] | Some s \<Rightarrow> s_filename s)"
  by (simp add: site_from_form_def Let_def zero_site_def split: option.split)

text \<open>
  A toggle whose save fails: the files are as before to the next load, but the flag of the
  site in the shared list has changed.
\<close>

definition toggled_in_memory :: "ui_server \<Rightarrow> app \<Rightarrow> app \<Rightarrow> bool" where
  "toggled_in_memory srv s s' \<longleftrightarrow>
     disk_sites srv s' = disk_sites srv s \<and>
     (\<exists>i st. i < length (snapshot_sites (current_store s)) \<and> st = snapshot_sites (current_store s) ! i \<and>
        s' = (update_site i (st\<lparr>s_enabled := \<not> s_enabled st\<rparr>) s)\<lparr>ap_fs := ap_fs s'\<rparr>)"

lemma update_site_fs [simp]: "ap_fs (update_site i st s) = ap_fs s"
  by (simp add: update_site_def)

lemma find_site_SomeD:
  "find_site n st = Some i \<Longrightarrow> i < length (st_sites st) \<and> s_filename (st_sites st ! i) = n"
proof -
  assume a: "find_site n st = Some i"
  let ?is = "filter (\<lambda>i. s_filename (st_sites st ! i) = n) [0..<length (st_sites st)]"
  have "i \<in> set ?is" using a by (cases ?is) (simp_all add: find_site_def)
  then show ?thesis by simp
qed

text \<open>
  The effects a request can have: files that the next load does not see, a reload, or a
  toggle in memory.
\<close>

definition edits :: "ui_server \<Rightarrow> app \<Rightarrow> app \<Rightarrow> bool" where
  "edits srv s s' \<longleftrightarrow>
     fs_ok (ap_fs s') \<and>
     (s' = s\<lparr>ap_fs := ap_fs s'\<rparr> \<and>
        load_sites (ui_yaml srv) (ap_fs s') (ui_sites_dir srv) = load_sites (ui_yaml srv) (ap_fs s) (ui_sites_dir srv) \<or>
      (\<exists>s1. s' = trigger_reload srv s1) \<or> toggled_in_memory srv s s')"

definition editable :: "ui_server \<Rightarrow> app \<Rightarrow> bool" where
  "editable srv s \<longleftrightarrow>
     wired srv \<and> fs_ok (ap_fs s) \<and> (\<forall>st \<in> set (snapshot_sites (current_store s)). plain_file st)"

lemma edits_refl: "editable srv s \<Longrightarrow> edits srv s s"
  by (simp add: edits_def editable_def)

lemma trigger_reload_fs [simp]: "ap_fs (trigger_reload srv s) = ap_fs s"
  by (simp add: trigger_reload_def)

lemma edits_reload: "fs_ok (ap_fs s1) \<Longrightarrow> edits srv s (trigger_reload srv s1)"
  by (auto simp: edits_def)

lemma create_or_update_edits:
  assumes "editable srv s" "existing = None \<or> (\<exists>st. existing = Some st \<and> plain_file st)"
  shows "edits srv s (snd (create_or_update_site srv now existing req w s))"
proof (cases "parse_form req")
  case (Some f)
  let ?st = "site_from_form f existing"
  have plain: "plain_file ?st" using assms(2) by (auto simp: plain_file_def form_filename)
  obtain res fs1 where save: "save_site (ui_yaml srv) (ui_sites_dir srv) ?st (ap_fs s) = (res, fs1)" by fastforce
  have ok: "fs_ok (ap_fs s)" "ui_sites_dir srv \<noteq> []" using assms(1) by (simp_all add: editable_def wired_def)
  from save_site_more(1) [OF ok(1) save] have ok1: "fs_ok fs1" .
  show ?thesis
  proof (cases res)
    case (Inl e)
    from failed_save_unseen [OF ok plain save [unfolded Inl]] ok1 show ?thesis
      by (simp add: create_or_update_site_def Some save Inl Let_def edits_def)
  next
    case (Inr p)
    then show ?thesis
      using edits_reload [of "s\<lparr>ap_fs := fs1\<rparr>"] ok1 by (simp add: create_or_update_site_def Some save Let_def)
  qed
qed (simp add: create_or_update_site_def edits_refl [OF assms(1)])

lemma remove_site_edits:
  assumes "editable srv s"
  shows "edits srv s (snd (remove_site srv n req w s))"
proof -
  obtain res fs1 where del: "delete_site (ui_sites_dir srv) n (ap_fs s) = (res, fs1)" by fastforce
  have ok: "fs_ok (ap_fs s)" using assms by (simp add: editable_def)
  have ok1: "fs_ok fs1"
    using del ok by (cases rule: delete_site_cases) (auto dest: remove_file_result(3))
  show ?thesis
  proof (cases res)
    case None
    then show ?thesis
      using edits_refl [OF assms] edits_reload [of "s\<lparr>ap_fs := fs1\<rparr>"] ok1 by (simp add: remove_site_def del Let_def)
  next
    case (Some e)
    with failed_delete_unseen [OF ok] del have "fs1 = ap_fs s" by simp
    then show ?thesis using edits_refl [OF assms] by (simp add: remove_site_def del Some Let_def)
  qed
qed

lemma toggle_site_edits:
  assumes "editable srv s" "pos = None \<or> (\<exists>i. pos = Some i \<and> i < length (st_sites (current_store s)))"
  shows "edits srv s (snd (toggle_site srv pos req w s))"
proof (cases pos)
  case (Some i)
  let ?old = "st_sites (current_store s) ! i"
  let ?st = "?old\<lparr>s_enabled := \<not> s_enabled ?old\<rparr>"
  have i: "i < length (st_sites (current_store s))" using assms(2) Some by simp
  then have "plain_file ?old" using assms(1) by (simp add: editable_def snapshot_sites_def)
  then have plain: "plain_file ?st" by (simp add: plain_file_def)
  obtain res fs1 where save: "save_site (ui_yaml srv) (ui_sites_dir srv) ?st (ap_fs s) = (res, fs1)" by fastforce
  have ok: "fs_ok (ap_fs s)" "ui_sites_dir srv \<noteq> []" using assms(1) by (simp_all add: editable_def wired_def)
  from save_site_more(1) [OF ok(1) save] have ok1: "fs_ok fs1" .
  let ?s1 = "(update_site i ?st s)\<lparr>ap_fs := fs1\<rparr>"
  show ?thesis
  proof (cases res)
    case (Inl e)
    have s': "snd (toggle_site srv pos req w s) = ?s1" by (simp add: toggle_site_def Some save Inl Let_def)
    have "disk_sites srv ?s1 = disk_sites srv s"
      using failed_save_unseen [OF ok plain save [unfolded Inl]] by (simp add: disk_sites_def)
    then have "toggled_in_memory srv s ?s1"
      using i unfolding toggled_in_memory_def by (intro conjI exI [of _ i]) (auto simp: snapshot_sites_def)
    then show ?thesis using ok1 by (simp add: s' edits_def)
  next
    case (Inr p)
    then show ?thesis using edits_reload [of ?s1] ok1 by (simp add: toggle_site_def Some save Let_def)
  qed
qed (simp add: toggle_site_def edits_refl [OF assms(1)])

lemma sites_item_edits:
  assumes "editable srv s"
  shows "edits srv s (snd (handle_sites_item srv now req w s))"
proof -
  have pos: "find_site n (current_store s) = None \<or>
      (\<exists>i. find_site n (current_store s) = Some i \<and> i < length (st_sites (current_store s)))" for n
    by (cases "find_site n (current_store s)") (auto dest: find_site_SomeD)
  note toggle = toggle_site_edits [OF assms pos]
  have "edits srv s (snd (show_or_save srv now (find_site n (current_store s)) req w s))" for n
  proof (cases "find_site n (current_store s)")
    case (Some i)
    then have "plain_file (st_sites (current_store s) ! i)"
      using assms by (auto simp: editable_def snapshot_sites_def dest: find_site_SomeD)
    then show ?thesis
      using create_or_update_edits [OF assms] edits_refl [OF assms] by (simp add: show_or_save_def Some Let_def)
  qed (simp add: show_or_save_def Let_def edits_refl [OF assms])
  then show ?thesis
    using toggle remove_site_edits [OF assms] edits_refl [OF assms] by (simp add: handle_sites_item_def Let_def)
qed

lemma run_page_edits: "editable srv s \<Longrightarrow> edits srv s (snd (run_page srv now h req w s))"
  using create_or_update_edits sites_item_edits edits_refl
  by (cases h) (simp_all add: run_page_def read_only_pages handle_sites_list_def)

lemma ui_edits: "editable srv s \<Longrightarrow> edits srv s (snd (ui_handler srv now req w s))"
  using ui_state [of srv now req w s] run_page_edits edits_refl by metis

lemma current_editable: "wired srv \<Longrightarrow> current_app srv s \<Longrightarrow> editable srv s"
  using current_plain(1) by (simp add: editable_def current_app_def)

lemma edits_current:
  assumes "wired srv" "current_app srv s" "edits srv s s'"
  shows "current_app srv s' \<or> toggled_in_memory srv s s'"
proof -
  have ok: "fs_ok (ap_fs s')" using assms(3) by (simp add: edits_def)
  consider "s' = s\<lparr>ap_fs := ap_fs s'\<rparr>"
      "load_sites (ui_yaml srv) (ap_fs s') (ui_sites_dir srv) = load_sites (ui_yaml srv) (ap_fs s) (ui_sites_dir srv)"
    | s1 where "s' = trigger_reload srv s1" | "toggled_in_memory srv s s'"
    using assms(3) by (auto simp: edits_def)
  then show ?thesis
  proof cases
    case 1
    from unseen_current [OF assms(2) ok 1(2)] 1(1) show ?thesis by simp
  next
    case 2
    with ok reloaded_current [OF assms(1), of s1] show ?thesis by simp
  qed simp
qed

subsection \<open>Sample values for the witnesses\<close>

definition sample_srv :: ui_server where
  "sample_srv =
     \<lparr>ui_yaml = sample_yaml, ui_mac = reverse_mac, ui_compare = (\<lambda>h p. p = ''pw''), ui_auth = sample_manager,
      ui_acme = None, ui_sites_dir = ''/d'', ui_version = ''dev'', ui_start = 0, ui_reload = True,
      ui_execute = (\<lambda>body v. body), ui_static = (\<lambda>req w. w), ui_save_text = (\<lambda>e. ''save failed''),
      ui_delete_text = (\<lambda>e. ''delete failed''), ui_http_date = (\<lambda>t. ''date'')\<rparr>"

definition sample_app :: app where
  "sample_app = trigger_reload sample_srv \<lparr>ap_fs = sample_fs, ap_sys = sample_system\<rparr>"

text \<open>A request of the sample admin with a session, at 2000 seconds.\<close>

definition session_cookie :: cookie where
  "session_cookie = issue_cookie reverse_mac 1000 False ''root'' sample_manager"

definition sample_now :: int where
  "sample_now = 2000000000000"

definition admin_request :: "string \<Rightarrow> string \<Rightarrow> string \<Rightarrow> request" where
  "admin_request m p body =
     (cookie_request session_cookie)\<lparr>rq_method := m,
       rq_url := (rq_url (cookie_request session_cookie))\<lparr>ru_path := p\<rparr>,
       rq_header := header_set ''Content-Type'' form_media_type (rq_header (cookie_request session_cookie)),
       rq_body := body\<rparr>"

lemma sample_wired: "wired sample_srv"
  by (simp add: wired_def sample_srv_def)

lemma sample_current: "current_app sample_srv sample_app"
  unfolding sample_app_def by (rule reloaded_current [OF sample_wired]) (simp add: sample_fs_ok)

lemma admin_session: "authenticated reverse_mac 2000 (admin_request m p body) sample_manager = ''root''"
proof -
  have l: "to_lower ''root'' = ''root''" by code_simp
  have "canonical_key ''Content-Type'' \<noteq> ''Cookie''" by code_simp
  then have "carries session_cookie (admin_request m p body)"
    using carries_cookie_request [of session_cookie]
    by (simp add: carries_def admin_request_def header_values_set)
  then have "authenticated reverse_mac 2000 (admin_request m p body) sample_manager = to_lower ''root''"
    unfolding session_cookie_def
    by (intro session_accepted) (auto simp: l sample_manager_def gm_get_def session_max_age_def int64_range_def)
  then show ?thesis by (simp add: l)
qed

text \<open>A request for a page reaches the page's handler when there is a session.\<close>

lemma ui_page:
  assumes "mux_find public_routes req = Mux_Handler Page_Authed" "mux_find authed_routes req = Mux_Handler h"
    and "authenticated (ui_mac srv) (unix_seconds now) req (ui_auth srv) \<noteq> []" "ru_path (rq_url req) \<noteq> ''*''"
  shows "ui_handler srv now req w s = run_page srv now h req w s"
  using assms by (simp add: ui_handler_def mux_serve_handler run_public_def require_auth_def authed_handler_def)

lemma ui_page_plain:
  assumes "plain_path p" "ru_path (rq_url req) = p" "ru_raw_path (rq_url req) = []"
    and "\<not> slash_redirect public_routes p" "map_option rt_handler (mux_match public_routes p) = Some Page_Authed"
    and "\<not> slash_redirect authed_routes p" "map_option rt_handler (mux_match authed_routes p) = Some h"
    and "authenticated (ui_mac srv) (unix_seconds now) req (ui_auth srv) \<noteq> []"
  shows "ui_handler srv now req w s = run_page srv now h req w s"
proof (rule ui_page [OF _ _ assms(8)])
  show "mux_find public_routes req = Mux_Handler Page_Authed" "mux_find authed_routes req = Mux_Handler h"
    using assms(4-7) by (simp_all add: mux_find_plain [OF assms(1-3)])
  show "ru_path (rq_url req) \<noteq> ''*''" using assms(1,2) by (simp add: plain_path_def)
qed

lemma admin_request_fields [simp]:
  "ru_path (rq_url (admin_request m p body)) = p" "ru_raw_path (rq_url (admin_request m p body)) = []"
  "rq_method (admin_request m p body) = m"
  by (simp_all add: admin_request_def cookie_request_def)

lemma sample_page:
  assumes "plain_path p"
    and "\<not> slash_redirect public_routes p" "map_option rt_handler (mux_match public_routes p) = Some Page_Authed"
    and "\<not> slash_redirect authed_routes p" "map_option rt_handler (mux_match authed_routes p) = Some h"
  shows "ui_handler sample_srv sample_now (admin_request m p body) w s =
    run_page sample_srv sample_now h (admin_request m p body) w s"
proof -
  have "authenticated (ui_mac sample_srv) (unix_seconds sample_now) (admin_request m p body) (ui_auth sample_srv) \<noteq> []"
    using admin_session by (simp add: sample_srv_def unix_seconds_def sample_now_def)
  then show ?thesis by (intro ui_page_plain [OF assms(1) _ _ assms(2-5)]) simp_all
qed

definition delete_request :: request where
  "delete_request = admin_request ''POST'' ''/sites/a.yml/delete'' []"

definition deleted_fs :: fsys where
  "deleted_fs = snd (delete_site ''/d'' ''a.yml'' sample_fs)"

lemma delete_effect:
  "snd (ui_handler sample_srv sample_now delete_request fresh_writer sample_app) =
     trigger_reload sample_srv (sample_app\<lparr>ap_fs := deleted_fs\<rparr>)"
  "map fst (fs_nodes deleted_fs) = [''/d'', ''/d/b.yml'']"
proof -
  let ?p = "''/sites/a.yml/delete''"
  have page: "plain_path ?p" "\<not> slash_redirect public_routes ?p"
    "map_option rt_handler (mux_match public_routes ?p) = Some Page_Authed"
    "\<not> slash_redirect authed_routes ?p" "map_option rt_handler (mux_match authed_routes ?p) = Some Page_Sites_Item"
    by code_simp+
  have path: "trim_prefix ''/sites/'' ?p = ''a.yml/delete''" "split_n 2 (CHR ''/'') ''a.yml/delete'' = [''a.yml'', ''delete'']"
    "\<not> contains_any [CHR ''/'', CHR 0x5C] ''a.yml''" "\<not> contains ''..'' ''a.yml''"
    "fst (delete_site ''/d'' ''a.yml'' sample_fs) = None" by code_simp+
  have "ap_fs sample_app = sample_fs" by (simp add: sample_app_def trigger_reload_def)
  then show "snd (ui_handler sample_srv sample_now delete_request fresh_writer sample_app) =
      trigger_reload sample_srv (sample_app\<lparr>ap_fs := deleted_fs\<rparr>)"
    using path(5)
    by (simp add: delete_request_def sample_page [OF page] run_page_def handle_sites_item_def path(1-4) remove_site_def
        case_prod_beta deleted_fs_def) (simp add: sample_srv_def)
  show "map fst (fs_nodes deleted_fs) = [''/d'', ''/d/b.yml'']" by code_simp
qed

subsection \<open>Properties\<close>

text \<open>
  C18: only an admin changes anything through the admin interface. A request that changes
  the files or the running system carries a valid session of a configured admin, and is a
  post or the toggle of a site.\<close>
theorem edits_need_session:
  assumes "snd (ui_handler srv now req w s) \<noteq> s"
  shows "authenticated (ui_mac srv) (unix_seconds now) req (ui_auth srv) \<noteq> [] \<and> editing req"
  using ui_state [of srv now req w s] run_page_read_only [of req srv now _ w s] assms by metis

theorem edits_need_session_witness:
  "authenticated reverse_mac 2000 delete_request sample_manager \<noteq> [] \<and> editing delete_request"
proof -
  have "snd (ui_handler sample_srv sample_now delete_request fresh_writer sample_app) \<noteq> sample_app"
  proof
    assume "snd (ui_handler sample_srv sample_now delete_request fresh_writer sample_app) = sample_app"
    then have "ap_fs (trigger_reload sample_srv (sample_app\<lparr>ap_fs := deleted_fs\<rparr>)) = ap_fs sample_app"
      by (simp only: delete_effect(1))
    then have "map fst (fs_nodes deleted_fs) = map fst (fs_nodes sample_fs)" by (simp add: sample_app_def)
    then show False by (simp add: delete_effect(2) sample_fs_def)
  qed
  from edits_need_session [OF this] show ?thesis
    by (simp add: sample_srv_def unix_seconds_def sample_now_def)
qed

text \<open>
  C6: the admin interface keeps files, display and serving in line. If the store shows and
  the proxy serves exactly what the site files say, then this holds after every request to
  the admin interface, whether it succeeds or fails and whatever write faults occur -- with
  one exception: a toggle that cannot be saved, which leaves the site's flag changed in
  memory although the files say what they said before.\<close>
theorem admin_keeps_current:
  assumes "wired srv" "current_app srv s"
  shows "current_app srv (snd (ui_handler srv now req w s)) \<or> toggled_in_memory srv s (snd (ui_handler srv now req w s))"
  by (rule edits_current [OF assms ui_edits [OF current_editable [OF assms]]])

theorem admin_keeps_current_witness:
  "current_app sample_srv (snd (ui_handler sample_srv sample_now delete_request fresh_writer sample_app))"
proof -
  have d: "length (disk_sites sample_srv (sample_app\<lparr>ap_fs := deleted_fs\<rparr>)) = 0"
    "length (disk_sites sample_srv sample_app) = 1" by code_simp+
  have "disk_sites sample_srv (trigger_reload sample_srv s) = disk_sites sample_srv s" for s
    by (simp add: disk_sites_def)
  with d have "\<not> toggled_in_memory sample_srv sample_app (trigger_reload sample_srv (sample_app\<lparr>ap_fs := deleted_fs\<rparr>))"
    by (metis toggled_in_memory_def zero_neq_one)
  then show ?thesis
    using admin_keeps_current [OF sample_wired sample_current, of sample_now delete_request fresh_writer]
    by (simp add: delete_effect(1))
qed

end
