(* ===== verification/Ui_Forms.thy ===== *)
theory Ui_Forms
  imports Ui_Edit
begin

section \<open>From a posted form to the served site\<close>

text \<open>
  Theorems on the site form of \<open>internal/ui/ui.go\<close>: splitting words and lines inverts the
  joining that a form or a browser does, a form shown and posted unchanged gives the site
  back, and a new site that is posted is stored, routed and shown.
\<close>

subsection \<open>Words and lines\<close>

lemma fields_acc_word: "list_all (\<lambda>c. \<not> is_space c) a \<Longrightarrow> fields_acc w (a @ s) = fields_acc (w @ a) s"
  by (induction a arbitrary: w) simp_all

definition word :: "string \<Rightarrow> bool" where
  "word w \<longleftrightarrow> w \<noteq> [] \<and> list_all (\<lambda>c. \<not> is_space c) w"

lemma fields_join: "list_all word ws \<Longrightarrow> Go_Strings.fields (join_with '' '' ws) = ws"
proof (induction "'' ''" ws rule: join_with.induct)
  case (2 w)
  then show ?case using fields_acc_word [of w "[]" "[]"] by (simp add: Go_Strings.fields_def word_def)
next
  case (3 w v vs)
  then show ?case
    using fields_acc_word [of w "[]" "CHR '' '' # join_with '' '' (v # vs)"]
    by (simp add: Go_Strings.fields_def word_def is_space_def)
qed (simp add: Go_Strings.fields_def)

lemma split_words_join: "list_all word ws \<Longrightarrow> split_words (join_with '' '' ws) = ws"
  by (simp add: split_words_def fields_join) (simp add: list_all_iff word_def filter_id_conv)

text \<open>A browser sends the lines of a text area with carriage return and newline between them.\<close>

definition crlf :: string where
  "crlf = [CHR 0x0D, CHR 0x0A]"

definition text_line :: "string \<Rightarrow> bool" where
  "text_line l \<longleftrightarrow> l \<noteq> [] \<and> trim_space l = l \<and> CHR 0x0A \<notin> set l"

lemma trim_space_cr:
  assumes "trim_space l = l" "l \<noteq> []"
  shows "trim_space (l @ [CHR 0x0D]) = l"
proof -
  obtain c r where l: "l = c # r" using assms(2) by (cases l) auto
  have "\<not> is_space c"
  proof
    assume "is_space c"
    then have "length (dropWhile is_space l) \<le> length r" using l length_dropWhile_le [of is_space r] by simp
    moreover have "length (trim_space l) \<le> length (dropWhile is_space l)"
      unfolding trim_space_def using length_dropWhile_le [of is_space "rev (dropWhile is_space l)"] by simp
    ultimately show False using assms(1) l by simp
  qed
  then have "dropWhile is_space l = l" "dropWhile is_space (l @ [CHR 0x0D]) = l @ [CHR 0x0D]" by (simp_all add: l)
  moreover have "is_space (CHR 0x0D)" by (simp add: is_space_def)
  ultimately show ?thesis using assms(1) by (simp add: trim_space_def)
qed

lemma split_lines_join: "list_all text_line us \<Longrightarrow> split_lines (join_with crlf us) = us"
proof (induction crlf us rule: join_with.induct)
  case (2 u)
  then show ?case by (simp add: split_lines_def text_line_def split_all_notin)
next
  case (3 u v vs)
  have j: "join_with crlf (u # v # vs) = (u @ [CHR 0x0D]) @ CHR 0x0A # join_with crlf (v # vs)" by (simp add: crlf_def)
  have "CHR 0x0A \<notin> set (u @ [CHR 0x0D])" using 3 by (simp add: text_line_def)
  from split_all_notin [OF this] have "split_all (CHR 0x0A) (join_with crlf (u # v # vs)) =
      (u @ [CHR 0x0D]) # split_all (CHR 0x0A) (join_with crlf (v # vs))"
    using split_all_append [of "CHR 0x0A" "u @ [CHR 0x0D]"] by (simp only: j append_Cons append_Nil)
  moreover have "trim_space (u @ [CHR 0x0D]) = u" using 3 by (simp add: trim_space_cr text_line_def)
  ultimately show ?case using 3 by (simp add: split_lines_def text_line_def)
qed (simp add: split_lines_def trim_space_def)

subsection \<open>The fields of the edit page\<close>

text \<open>
  The pairs a browser posts when the edit page of a site is sent back as it was shown
  (\<open>site_form.html\<close>): a box that is not ticked is not sent.
\<close>

definition box :: "string \<Rightarrow> bool \<Rightarrow> (string \<times> string) list" where
  "box name ticked = (if ticked then [(name, ''on'')] else [])"

definition form_fields :: "site \<Rightarrow> (string \<times> string) list" where
  "form_fields s =
     [(''domain'', s_domain s), (''aliases'', join_with '' '' (s_aliases s)),
      (''upstreams'', join_with crlf (s_upstreams s))]
     @ box ''enabled'' (s_enabled s) @ box ''http_to_https'' (s_http_to_https s)
     @ box ''websocket'' (s_websocket s) @ box ''block_common_exploits'' (s_block_exploits s)
     @ box ''tls_auto'' (t_auto (s_tls s)) @ box ''rl_enabled'' (rl_enabled (s_rate_limit s))
     @ [(''rl_rps'', show_int (rl_rps (s_rate_limit s))), (''rl_burst'', show_int (rl_burst (s_rate_limit s)))]"

text \<open>Sites whose text fields survive the trip: no stray white space in them.\<close>

definition tidy :: "site \<Rightarrow> bool" where
  "tidy s \<longleftrightarrow>
     trim_space (s_domain s) = s_domain s \<and> list_all word (s_aliases s) \<and> list_all text_line (s_upstreams s) \<and>
     int64_range (rl_rps (s_rate_limit s)) \<and> int64_range (rl_burst (s_rate_limit s))"

lemma box_values: "map snd (filter (\<lambda>(k', v). k' = k) (box name b)) = (if b \<and> k = name then [''on''] else [])"
  by (simp add: box_def)

lemma form_fields_value:
  assumes "\<And>k. form_values k f = map snd (filter (\<lambda>(k', v). k' = k) (form_fields s))"
  shows "form_value ''domain'' f = s_domain s" "form_value ''aliases'' f = join_with '' '' (s_aliases s)"
    "form_value ''upstreams'' f = join_with crlf (s_upstreams s)"
    "checked ''enabled'' f = s_enabled s" "checked ''http_to_https'' f = s_http_to_https s"
    "checked ''websocket'' f = s_websocket s" "checked ''block_common_exploits'' f = s_block_exploits s"
    "checked ''tls_auto'' f = t_auto (s_tls s)" "checked ''rl_enabled'' f = rl_enabled (s_rate_limit s)"
    "form_value ''rl_rps'' f = show_int (rl_rps (s_rate_limit s))"
    "form_value ''rl_burst'' f = show_int (rl_burst (s_rate_limit s))"
  by (simp_all add: form_value_def checked_def assms form_fields_def box_values)

text \<open>
  C28: sending the edit page back unchanged changes nothing. For a site without stray white
  space in its names and upstreams, the form a browser posts from its edit page reads back
  as exactly that site, its certificate files, its custom headers and its file name, which
  the form does not show, included.\<close>
theorem unchanged_form_keeps_site:
  assumes "tidy s" "posts (form_fields s) req"
  shows "\<exists>f. parse_form req = Some f \<and> site_from_form f (Some s) = s"
proof -
  from posted_form [OF assms(2)] obtain f where f: "parse_form req = Some f"
    "\<And>k. form_values k f = map snd (filter (\<lambda>(k', v). k' = k) (form_fields s))" by blast
  have "site_from_form f (Some s) = s"
    using assms(1) form_fields_value [OF f(2)]
    by (simp add: site_from_form_def tidy_def split_words_join split_lines_join form_int_def parse_int_show_int)
  with f(1) show ?thesis by blast
qed

definition form_request :: "string \<Rightarrow> (string \<times> string) list \<Rightarrow> request" where
  "form_request p kvs = admin_request ''POST'' p (encode_pairs kvs)"

definition tidy_site :: site where
  "tidy_site = sample_site\<lparr>s_aliases := [''b.com'', ''c.com''], s_upstreams := [''h:80'', ''h:81''],
     s_custom_headers := [(''X-A'', ''1'')], s_filename := ''a.yml''\<rparr>"

lemma form_request_posts: "int (length (encode_pairs kvs)) \<le> max_form_size \<Longrightarrow> posts kvs (form_request p kvs)"
  by (simp add: posts_def form_request_def admin_request_def cookie_request_def header_get_set)

theorem unchanged_form_keeps_site_witness:
  "\<exists>f. parse_form (form_request ''/sites/a.yml'' (form_fields tidy_site)) = Some f \<and>
     site_from_form f (Some tidy_site) = tidy_site"
proof (rule unchanged_form_keeps_site)
  show "tidy tidy_site" by code_simp
  show "posts (form_fields tidy_site) (form_request ''/sites/a.yml'' (form_fields tidy_site))"
    by (rule form_request_posts) code_simp
qed

subsection \<open>A new site is served\<close>

text \<open>A site as the page for a new site can describe it.\<close>

definition new_site :: "site \<Rightarrow> bool" where
  "new_site t \<longleftrightarrow>
     tidy t \<and> s_filename t = [] \<and> t_cert_file (s_tls t) = [] \<and> t_key_file (s_tls t) = [] \<and> s_custom_headers t = []"

lemma new_site_form:
  assumes "new_site t" "posts (form_fields t) req"
  shows "\<exists>f. parse_form req = Some f \<and> site_from_form f None = t"
proof -
  from posted_form [OF assms(2)] obtain f where f: "parse_form req = Some f"
    "\<And>k. form_values k f = map snd (filter (\<lambda>(k', v). k' = k) (form_fields t))" by blast
  have "site_from_form f None = t"
    using assms(1) form_fields_value [OF f(2)]
    by (simp add: site_from_form_def new_site_def tidy_def split_words_join split_lines_join form_int_def
        parse_int_show_int zero_site_def)
  with f(1) show ?thesis by blast
qed

lemma sites_page_path:
  "plain_path ''/sites''" "\<not> slash_redirect public_routes ''/sites''"
  "map_option rt_handler (mux_match public_routes ''/sites'') = Some Page_Authed"
  "\<not> slash_redirect authed_routes ''/sites''" "map_option rt_handler (mux_match authed_routes ''/sites'') = Some Page_Sites"
  by code_simp+

text \<open>A request of a logged-in admin that posts a form to \<open>/sites\<close>.\<close>

definition creates :: "ui_server \<Rightarrow> int \<Rightarrow> site \<Rightarrow> request \<Rightarrow> bool" where
  "creates srv now t req \<longleftrightarrow>
     authenticated (ui_mac srv) (unix_seconds now) req (ui_auth srv) \<noteq> [] \<and>
     ru_path (rq_url req) = ''/sites'' \<and> ru_raw_path (rq_url req) = [] \<and> posts (form_fields t) req"

lemma creates_page:
  assumes "creates srv now t req"
  shows "ui_handler srv now req w s = create_or_update_site srv now None req w s"
proof -
  have "ui_handler srv now req w s = run_page srv now Page_Sites req w s"
    using assms ui_page_plain [OF sites_page_path(1) _ _ sites_page_path(2-5)] by (simp add: creates_def)
  then show ?thesis using assms by (simp add: run_page_def handle_sites_list_def creates_def posts_def)
qed

lemma in_line_lookup: "in_line ss sys \<Longrightarrow> lookup_site (ro_store (sy_router sys)) h = route_spec ss h"
  by (simp add: in_line_def consistent_def)

text \<open>
  C11: what an admin enters for a new site is what is served. When the form of the page for
  a new site is posted with a session and the save succeeds, the answer is a redirect, the
  site is shown and on disk under the file name derived from its domain, everything else is
  still in line, and every host name of it, if it is enabled and no other site claims the
  name, is routed to exactly the site that was entered.\<close>
theorem posted_site_served:
  assumes "wired srv" "current_app srv s" "yaml_roundtrip (ui_yaml srv)"
    and "creates srv now t req" "new_site t"
    and "save_site (ui_yaml srv) (ui_sites_dir srv) t (ap_fs s) = (Inr q, fs')"
    and "\<not> fs_unreadable (ap_fs s) q" "read_dir (ap_fs s) (ui_sites_dir srv) \<noteq> None"
    and "ui_handler srv now req fresh_writer s = (w', s')" "t' = t\<lparr>s_filename := site_file t\<rparr>"
  shows "w_status w' = Some 303 \<and> current_app srv s' \<and> t' \<in> set (snapshot_sites (current_store s')) \<and>
    (\<forall>h. s_enabled t \<and> to_lower (strip_port h) \<in> to_lower ` set (all_domains t) \<and>
       (\<forall>u \<in> set (snapshot_sites (current_store s')). serves u (to_lower (strip_port h)) \<longrightarrow> u = t') \<longrightarrow>
       lookup_site (current_store s') h = Some t')"
proof -
  obtain f where f: "parse_form req = Some f" "site_from_form f None = t"
    using new_site_form assms(4,5) by (auto simp: creates_def)
  have run: "(w', s') = (see_other (''/sites/'' @ s_filename t @ ''?saved=1'') req fresh_writer,
      trigger_reload srv (s\<lparr>ap_fs := fs'\<rparr>))"
    using assms(6,9) creates_page [OF assms(4)] by (simp add: create_or_update_site_def f Let_def)
  then have w': "w_status w' = Some 303"
    by (simp add: see_other_def redirect_to_def http_redirect_sent fresh_writer_def body_allowed_def)
  have ok: "fs_ok (ap_fs s)" "ui_sites_dir srv \<noteq> []" using assms(1,2) by (simp_all add: current_app_def wired_def)
  have cur: "current_app srv s'"
    using reloaded_current [OF assms(1), of "s\<lparr>ap_fs := fs'\<rparr>"] run save_site_more(1) [OF ok(1) assms(6)] by simp
  have name: "s_filename t = [] \<or> regular_name (s_filename t) \<and> site_file_name (s_filename t)"
    using assms(5) by (simp add: new_site_def)
  note m = site_file_regular(1) [OF name]
  have "q @ ''.tmp'' \<noteq> clean_path (ui_sites_dir srv)"
    using temporary_path [OF m ok(2)] join_path_neq_dir [OF _ ok(2)] save_site_Inr(1) [OF ok(1) assms(6)] by simp
  from saved_is_loaded [OF assms(3) ok assms(8) name assms(6,7) this]
  have "t' \<in> set (disk_sites srv s')" using run assms(10) by (simp add: disk_sites_def)
  then have shown: "t' \<in> set (snapshot_sites (current_store s'))" using cur by (simp add: current_app_def)
  have "lookup_site (current_store s') h = route_spec (snapshot_sites (current_store s')) h" for h
    using cur by (simp add: current_app_def current_store_def in_line_lookup)
  moreover have "find (\<lambda>u. serves u (to_lower (strip_port h))) (rev (snapshot_sites (current_store s'))) = Some t'"
    if "s_enabled t" "to_lower (strip_port h) \<in> to_lower ` set (all_domains t)"
      "\<forall>u \<in> set (snapshot_sites (current_store s')). serves u (to_lower (strip_port h)) \<longrightarrow> u = t'" for h
  proof -
    have "serves t' (to_lower (strip_port h))" using that(1,2) assms(10) by (simp add: serves_def all_domains_def)
    with shown that(3) show ?thesis by (intro find_rev_unique) blast+
  qed
  ultimately show ?thesis using w' cur shown by (simp add: route_spec_def)
qed

definition create_request :: request where
  "create_request = form_request ''/sites'' (form_fields sample_site)"

theorem posted_site_served_witness:
  "sample_site\<lparr>s_filename := ''a.com.yml''\<rparr> \<in>
     set (snapshot_sites (current_store (snd (ui_handler sample_srv sample_now create_request fresh_writer sample_app))))"
proof -
  have "posts (form_fields sample_site) create_request"
    unfolding create_request_def by (rule form_request_posts) code_simp
  then have c: "creates sample_srv sample_now sample_site create_request"
    using admin_session
    by (simp add: creates_def create_request_def form_request_def) (simp add: sample_srv_def unix_seconds_def sample_now_def)
  have new: "new_site sample_site" by code_simp
  obtain r fs' where r: "save_site (ui_yaml sample_srv) (ui_sites_dir sample_srv) sample_site (ap_fs sample_app) = (r, fs')"
    by fastforce
  have "fst (save_site sample_yaml ''/d'' sample_site sample_fs) = Inr ''/d/a.com.yml''" by code_simp
  moreover have app: "ap_fs sample_app = sample_fs" "ui_yaml sample_srv = sample_yaml" "ui_sites_dir sample_srv = ''/d''"
    by (simp_all add: sample_app_def sample_srv_def)
  ultimately have inr: "r = Inr ''/d/a.com.yml''" using r by simp
  obtain w' s' where h: "ui_handler sample_srv sample_now create_request fresh_writer sample_app = (w', s')"
    by fastforce
  have pre: "yaml_roundtrip (ui_yaml sample_srv)" "\<not> fs_unreadable (ap_fs sample_app) ''/d/a.com.yml''"
    "read_dir (ap_fs sample_app) (ui_sites_dir sample_srv) \<noteq> None"
    using sample_yaml_roundtrip sample_read_dir by (simp_all add: app) (simp add: sample_fs_def)
  have "site_file sample_site = ''a.com.yml''" by code_simp
  with posted_site_served [OF sample_wired sample_current pre(1) c new r [unfolded inr] pre(2,3) h refl] h
  show ?thesis by simp
qed

end
