(* ===== verification/Ui_Login.thy ===== *)
theory Ui_Login
  imports Ui_Forms
begin

section \<open>Logging in, and where the interface can be misled\<close>

text \<open>
  Theorems on the login of \<open>internal/ui/ui.go\<close>: the answer to a post with right and with wrong
  credentials, the session it opens, and where the admin can be sent.
\<close>

lemma login_path:
  "plain_path ''/login''" "\<not> slash_redirect public_routes ''/login''"
  "map_option rt_handler (mux_match public_routes ''/login'') = Some Page_Login"
  by code_simp+

text \<open>A request that posts the login form, with right credentials.\<close>

definition logs_in :: "ui_server \<Rightarrow> string \<Rightarrow> string \<Rightarrow> string \<Rightarrow> request \<Rightarrow> bool" where
  "logs_in srv username password target req \<longleftrightarrow>
     ru_path (rq_url req) = ''/login'' \<and> ru_raw_path (rq_url req) = [] \<and>
     posts [(''username'', username), (''password'', password), (''next'', target)] req \<and>
     verify_password (ui_compare srv) username password (ui_auth srv)"

definition login_cookie :: "ui_server \<Rightarrow> int \<Rightarrow> string \<Rightarrow> request \<Rightarrow> cookie" where
  "login_cookie srv now username req = issue_cookie (ui_mac srv) (unix_seconds now) (rq_tls req) username (ui_auth srv)"

lemma login_answer:
  assumes "logs_in srv u p t req"
  shows "ui_handler srv now req w s =
    (see_other (if local_target t then t else ''/'') req (set_cookie (ui_http_date srv) (login_cookie srv now u req) w), s)"
proof -
  have "mux_find public_routes req = Mux_Handler Page_Login"
    using assms mux_find_plain [OF login_path(1) _ _ login_path(2,3)] by (simp add: logs_in_def)
  then have page: "ui_handler srv now req w s = handle_login srv now req w s"
    using assms by (simp add: ui_handler_def mux_serve_handler run_public_def logs_in_def)
  have posts: "posts [(''username'', u), (''password'', p), (''next'', t)] req" using assms by (simp add: logs_in_def)
  from posted_form [OF posts] obtain f where f: "parse_form req = Some f"
    "\<And>k. form_values k f = map snd (filter (\<lambda>(k', v). k' = k) [(''username'', u), (''password'', p), (''next'', t)])"
    by blast
  have vals: "form_value ''username'' f = u" "form_value ''password'' f = p" "form_value ''next'' f = t"
    by (simp_all add: form_value_def f(2))
  have "ru_raw_query (rq_url req) = []" "rq_method req = ''POST''" using posts by (simp_all add: posts_def)
  moreover have "\<not> local_target []" by (simp add: local_target_def)
  ultimately show ?thesis
    using assms unfolding page handle_login_def
    by (simp add: f(1) vals Let_def logs_in_def login_cookie_def url_query_get_def parse_query_Nil form_values_def)
qed

lemma set_cookie_fresh:
  "w_status (set_cookie date c w) = w_status w"
  "header_values ''Set-Cookie'' (w_header (set_cookie date c fresh_writer)) = [cookie_text date c]"
proof -
  have "canonical_key ''Set-Cookie'' = ''Set-Cookie''" by code_simp
  then show "header_values ''Set-Cookie'' (w_header (set_cookie date c fresh_writer)) = [cookie_text date c]"
    by (simp add: set_cookie_def header_add_def fresh_writer_def header_values_def)
qed (simp add: set_cookie_def)

text \<open>
  C26: logging in opens a session. A login with the right password of an admin whose name has
  no dot is answered with one Set-Cookie header and a redirect, changes nothing else, and
  any request that later carries that cookie counts as the admin's until a day has
  passed.\<close>
theorem login_opens_session:
  assumes "logs_in srv u p t req" "ui_handler srv now req fresh_writer s = (w', s')"
    and "CHR ''.'' \<notin> set u" "int64_range (unix_seconds now + session_max_age)"
    and "carries (login_cookie srv now u req) req2" "later < unix_seconds now + session_max_age"
  shows "s' = s \<and> w_status w' = Some 303 \<and>
    header_values ''Set-Cookie'' (w_sent w') = [cookie_text (ui_http_date srv) (login_cookie srv now u req)] \<and>
    authenticated (ui_mac srv) later req2 (ui_auth srv) = to_lower u"
proof -
  have "w_status fresh_writer = None" by (simp add: fresh_writer_def)
  then have fresh: "w_status (set_cookie date c fresh_writer) = None" for date c by (simp add: set_cookie_fresh)
  have "gm_get (mg_admins (ui_auth srv)) (to_lower u) \<noteq> None"
    using assms(1) by (auto simp: logs_in_def verify_password_def split: option.splits)
  then have "authenticated (ui_mac srv) later req2 (ui_auth srv) = to_lower u"
    using session_accepted assms(3-6) unfolding login_cookie_def by blast
  then show ?thesis
    using assms(2) login_answer [OF assms(1), of now fresh_writer s]
    by (auto simp: see_other_def redirect_to_def http_redirect_sent fresh body_allowed_def set_cookie_fresh(2))
qed

definition login_request :: "string \<Rightarrow> request" where
  "login_request t = form_request ''/login'' [(''username'', ''root''), (''password'', ''pw''), (''next'', t)]"

lemma sample_logs_in:
  assumes "int (length (encode_pairs [(''username'', ''root''), (''password'', ''pw''), (''next'', t)])) \<le> max_form_size"
  shows "logs_in sample_srv ''root'' ''pw'' t (login_request t)"
proof -
  have l: "to_lower ''root'' = ''root''" by code_simp
  have "verify_password (ui_compare sample_srv) ''root'' ''pw'' (ui_auth sample_srv)"
    by (simp add: verify_password_def sample_srv_def sample_manager_def gm_get_def l)
  with form_request_posts [OF assms] show ?thesis
    by (simp add: logs_in_def login_request_def) (simp add: form_request_def)
qed

theorem login_opens_session_witness:
  "authenticated reverse_mac 80000
     (cookie_request (login_cookie sample_srv sample_now ''root'' (login_request ''/''))) sample_manager = ''root''"
proof -
  have l: "to_lower ''root'' = ''root''" by code_simp
  have "logs_in sample_srv ''root'' ''pw'' ''/'' (login_request ''/'')" by (rule sample_logs_in) code_simp
  moreover obtain w' s' where "ui_handler sample_srv sample_now (login_request ''/'') fresh_writer sample_app = (w', s')"
    by fastforce
  moreover have "int64_range (unix_seconds sample_now + session_max_age)" "80000 < unix_seconds sample_now + session_max_age"
    by (simp_all add: int64_range_def unix_seconds_def sample_now_def session_max_age_def)
  ultimately show ?thesis
    using login_opens_session [OF _ _ _ _ carries_cookie_request, of sample_srv "''root''" "''pw''" "''/''"
      "login_request ''/''" sample_now sample_app _ _ 80000]
    by (simp add: l sample_srv_def)
qed

subsection \<open>Where the interface can be misled\<close>

text \<open>
  C38: the login page can send an admin to another site. The check that the target after a
  login starts with a slash lets a network-path reference pass: with \<open>next\<close> set to
  \<open>//evil.example\<close>, say by a link to the login page, the answer to the right password sends
  the browser to that host.\<close>
theorem login_redirects_off_site:
  assumes "logs_in srv u p ''//evil.example'' req"
  shows "w_status (fst (ui_handler srv now req fresh_writer s)) = Some 303 \<and>
    header_get ''Location'' (w_sent (fst (ui_handler srv now req fresh_writer s))) = ''//evil.example'' \<and>
    map_option u_host (url_parse ''//evil.example'') = Some ''evil.example''"
proof -
  have fresh: "w_status (set_cookie date c fresh_writer) = None" for date c
    by (simp add: set_cookie_fresh fresh_writer_def)
  have "local_target ''//evil.example''" "redirect_location ''/login'' ''//evil.example'' = ''//evil.example''"
    "hex_escape_non_ascii ''//evil.example'' = ''//evil.example''"
    "map_option u_host (url_parse ''//evil.example'') = Some ''evil.example''"
    by code_simp+
  moreover have "ru_path (rq_url req) = ''/login''" using assms by (simp add: logs_in_def)
  ultimately show ?thesis
    by (simp add: login_answer [OF assms] see_other_def redirect_to_def http_redirect_sent fresh body_allowed_def)
qed

theorem login_redirects_off_site_witness:
  "header_get ''Location'' (w_sent (fst (ui_handler sample_srv sample_now (login_request ''//evil.example'') fresh_writer sample_app))) =
     ''//evil.example''"
proof -
  have "logs_in sample_srv ''root'' ''pw'' ''//evil.example'' (login_request ''//evil.example'')"
    by (rule sample_logs_in) code_simp
  from login_redirects_off_site [OF this] show ?thesis by blast
qed

text \<open>The toggle of a site takes effect by any method, a plain link included.\<close>

lemma toggle_by_any_method:
  assumes "mux_find public_routes req = Mux_Handler Page_Authed" "mux_find authed_routes req = Mux_Handler Page_Sites_Item"
    and "authenticated (ui_mac srv) (unix_seconds now) req (ui_auth srv) \<noteq> []"
    and "ru_path (rq_url req) = ''/sites/'' @ n @ ''/toggle''" "regular_name n" "CHR 0x5C \<notin> set n" "\<not> contains ''..'' n"
    and "find_site n (current_store s) = Some i" "old = st_sites (current_store s) ! i"
    and "save_site (ui_yaml srv) (ui_sites_dir srv) (old\<lparr>s_enabled := \<not> s_enabled old\<rparr>) (ap_fs s) = (Inr q, fs')"
  shows "snd (ui_handler srv now req w s) =
    trigger_reload srv ((update_site i (old\<lparr>s_enabled := \<not> s_enabled old\<rparr>) s)\<lparr>ap_fs := fs'\<rparr>)"
proof -
  have n: "CHR ''/'' \<notin> set n" "n \<noteq> []" using assms(5) by (simp_all add: regular_name_def)
  have page: "ui_handler srv now req w s = handle_sites_item srv now req w s"
    using ui_page [OF assms(1-3)] assms(4) by (simp add: run_page_def)
  have p: "trim_prefix ''/sites/'' (ru_path (rq_url req)) = n @ ''/toggle''"
    using assms(4) by (simp add: trim_prefix_def has_prefix_def)
  have parts: "split_n 2 (CHR ''/'') (n @ ''/toggle'') = [n, ''toggle'']"
    using n(1) by (simp add: numeral_2_eq_2 index_byte_append)
  have "\<not> contains_any [CHR ''/'', CHR 0x5C] n"
    using n(1) assms(6) by (auto simp: contains_any_def list_ex_iff)
  then have "handle_sites_item srv now req w s = toggle_site srv (Some i) req w s"
    using n(2) assms(7,8) unfolding handle_sites_item_def p Let_def parts by simp
  then show ?thesis using assms(9,10) by (simp add: page toggle_site_def Let_def)
qed

text \<open>
  A domain that ends in a dot gets a file whose page, toggle and delete are refused: its
  name has two dots in a row.
\<close>

lemma trailing_dot_unreachable:
  assumes "s_filename t = []" "has_suffix ''.'' (sanitize_filename (s_domain t))"
    and "ru_path (rq_url req) = ''/sites/'' @ site_file t @ rest" "rest = [] \<or> hd rest = CHR ''/''"
  shows "handle_sites_item srv now req w s = (http_error ''bad filename'' 400 w, s)"
proof -
  obtain d where d: "sanitize_filename (s_domain t) = d @ ''.''" using assms(2) by (auto simp: has_suffix_iff)
  let ?n = "site_file t"
  have n: "?n = d @ ''..yml''" using assms(1) d by (simp add: site_file_def)
  have "CHR ''/'' \<notin> set ?n" using site_file_regular(1) [of t] assms(1) by (simp add: regular_name_def)
  then have "hd (split_n 2 (CHR ''/'') (?n @ rest)) = ?n"
    using assms(4) by (cases rest) (auto simp: numeral_2_eq_2 index_byte_notin index_byte_append)
  moreover have "contains ''..'' ?n" unfolding n contains_iff by (intro exI [of _ d] exI [of _ "''yml''"]) simp
  moreover have "trim_prefix ''/sites/'' (ru_path (rq_url req)) = ?n @ rest" "?n @ rest \<noteq> []"
    using assms(3) n by (simp_all add: trim_prefix_def has_prefix_def)
  moreover have "?n \<noteq> []" using n by simp
  ultimately show ?thesis by (simp add: handle_sites_item_def Let_def)
qed

end
