(* ===== verification/Watcher.thy ===== *)
theory Watcher
  imports System
begin

section \<open>The watcher: debounce, lost updates, convergence\<close>

text \<open>
  \<open>Watcher.Run\<close> of \<open>internal/config/watcher.go\<close> as a step relation. The world has the files,
  the clock (milliseconds), the notices that fsnotify has queued, and the watcher's local
  variables. A change of the files queues at least one write, create, rename or remove
  notice, or, when fsnotify loses notices, an error; either may come with other notices.
  The watcher handles any ready channel next. Reading the directory in a reload is one step.
\<close>

datatype fs_op = Op_Write | Op_Create | Op_Rename | Op_Remove | Op_Chmod

datatype notice = Event "fs_op list" | Watch_Error

definition relevant :: "fs_op list \<Rightarrow> bool" where
  "relevant ops \<longleftrightarrow> list_ex (\<lambda>op. op \<in> {Op_Write, Op_Create, Op_Rename, Op_Remove}) ops"

definition debounce :: int where
  "debounce = 200"

text \<open>\<open>timerCh\<close> is the time its channel delivers, \<open>armedTime\<close> starts as the zero time.\<close>

record watcher =
  wt_timer :: "int option"
  wt_armed :: int
  wt_loaded :: bool

definition new_watcher :: watcher where
  "new_watcher = \<lparr>wt_timer = None, wt_armed = 0, wt_loaded = False\<rparr>"

definition on_notice :: "int \<Rightarrow> notice \<Rightarrow> watcher \<Rightarrow> watcher" where
  "on_notice now n w =
     (case n of
        Watch_Error \<Rightarrow> w
      | Event ops \<Rightarrow>
          if \<not> relevant ops then w
          else w\<lparr>wt_armed := now + debounce, wt_timer := Some (now + debounce)\<rparr>)"

text \<open>The timer's channel has delivered: re-arm if armed for later, else reload.\<close>

definition on_timer :: "int \<Rightarrow> watcher \<Rightarrow> bool \<times> watcher" where
  "on_timer now w =
     (if now < wt_armed w then (False, w\<lparr>wt_timer := Some (now + (wt_armed w - now))\<rparr>)
      else (True, w\<lparr>wt_timer := None\<rparr>))"

record world =
  wd_fs :: fsys
  wd_now :: int
  wd_queue :: "notice list"
  wd_watcher :: watcher
  wd_system :: system

text \<open>\<open>files fs\<close> is what a load can depend on besides the readability flags.\<close>

definition set_files :: "(string, fnode) gomap \<Rightarrow> world \<Rightarrow> world" where
  "set_files nodes w = w\<lparr>wd_fs := (wd_fs w)\<lparr>fs_nodes := nodes\<rparr>\<rparr>"

definition do_reload :: "yaml_lib \<Rightarrow> string \<Rightarrow> world \<Rightarrow> world" where
  "do_reload Y dir w = w\<lparr>wd_system := snd (watcher_reload Y (wd_fs w) dir (wd_system w))\<rparr>"

datatype step_kind = Change | Lose | Pass | Visit | First_Load | Notice | Timer

inductive watch_step :: "yaml_lib \<Rightarrow> string \<Rightarrow> step_kind \<Rightarrow> world \<Rightarrow> world \<Rightarrow> bool"
  for Y :: yaml_lib and dir :: string
where
  change: "\<exists>n \<in> set ns. \<exists>ops. n = Event ops \<and> relevant ops \<Longrightarrow>
    watch_step Y dir Change w ((set_files nodes w)\<lparr>wd_queue := wd_queue w @ ns\<rparr>)"
| lose: "Watch_Error \<in> set ns \<Longrightarrow>
    watch_step Y dir Lose w ((set_files nodes w)\<lparr>wd_queue := wd_queue w @ ns\<rparr>)"
| pass: "wd_now w \<le> t \<Longrightarrow> watch_step Y dir Pass w (w\<lparr>wd_now := t\<rparr>)"
| visit: "watch_step Y dir Visit w (w\<lparr>wd_system := snd (serve_request v (wd_system w))\<rparr>)"
| first_load: "\<not> wt_loaded (wd_watcher w) \<Longrightarrow>
    watch_step Y dir First_Load w ((do_reload Y dir w)\<lparr>wd_watcher := (wd_watcher w)\<lparr>wt_loaded := True\<rparr>\<rparr>)"
| notice: "wt_loaded (wd_watcher w) \<Longrightarrow> wd_queue w = n # ns \<Longrightarrow>
    watch_step Y dir Notice w (w\<lparr>wd_queue := ns, wd_watcher := on_notice (wd_now w) n (wd_watcher w)\<rparr>)"
| timer: "wt_loaded (wd_watcher w) \<Longrightarrow> wt_timer (wd_watcher w) = Some d \<Longrightarrow> d \<le> wd_now w \<Longrightarrow>
    on_timer (wd_now w) (wd_watcher w) = (fire, w1) \<Longrightarrow>
    watch_step Y dir Timer w ((if fire then do_reload Y dir w else w)\<lparr>wd_watcher := w1\<rparr>)"

inductive_simps notice_simps: "watch_step Y dir Notice w w'"
inductive_simps timer_simps: "watch_step Y dir Timer w w'"
inductive_cases watch_stepE: "watch_step Y dir k w w'"

inductive watch_run :: "yaml_lib \<Rightarrow> string \<Rightarrow> step_kind list \<Rightarrow> world \<Rightarrow> world \<Rightarrow> bool"
  for Y :: yaml_lib and dir :: string
where
  start: "watch_run Y dir [] w w"
| more: "watch_run Y dir ks w w1 \<Longrightarrow> watch_step Y dir k w1 w2 \<Longrightarrow> watch_run Y dir (ks @ [k]) w w2"

subsection \<open>The invariant\<close>

definition pending :: "world \<Rightarrow> bool" where
  "pending w \<longleftrightarrow> (\<exists>n \<in> set (wd_queue w). \<exists>ops. n = Event ops \<and> relevant ops)"

definition current :: "yaml_lib \<Rightarrow> string \<Rightarrow> world \<Rightarrow> bool" where
  "current Y dir w \<longleftrightarrow> in_line (fst (load_sites Y (wd_fs w) dir)) (wd_system w)"

text \<open>
  The timer is armed for \<open>armedTime\<close>; and once loaded, unless a change is still queued or
  the timer is running, the system serves the present files.
\<close>

definition watch_ok :: "yaml_lib \<Rightarrow> string \<Rightarrow> world \<Rightarrow> bool" where
  "watch_ok Y dir w \<longleftrightarrow>
     (\<forall>d. wt_timer (wd_watcher w) = Some d \<longrightarrow> d = wt_armed (wd_watcher w)) \<and>
     (wt_loaded (wd_watcher w) \<longrightarrow> pending w \<or> wt_timer (wd_watcher w) \<noteq> None \<or> current Y dir w)"

lemma do_reload_current: "current Y dir ((do_reload Y dir w)\<lparr>wd_watcher := x\<rparr>)"
  by (simp add: current_def do_reload_def watcher_reload_def case_prod_beta apply_sites_in_line)

lemma watch_step_ok:
  assumes "watch_step Y dir k w w'" "watch_ok Y dir w" "k \<noteq> Lose"
  shows "watch_ok Y dir w'"
  using assms
proof (cases rule: watch_step.cases)
  case (change ns nodes)
  then show ?thesis using assms(2) by (auto simp: watch_ok_def pending_def set_files_def)
next
  case (lose ns nodes)
  with assms(3) show ?thesis by simp
next
  case (pass t)
  then show ?thesis using assms(2) by (simp add: watch_ok_def pending_def current_def)
next
  case (visit v)
  then show ?thesis
    using assms(2) serve_request_in_line [of "fst (load_sites Y (wd_fs w) dir)" "wd_system w" v]
    by (auto simp: watch_ok_def pending_def current_def)
next
  case first_load
  then show ?thesis
    using assms(2) do_reload_current by (auto simp: watch_ok_def)
next
  case (notice n ns)
  then show ?thesis
    using assms(2)
    by (cases n) (auto simp: watch_ok_def pending_def current_def on_notice_def split: if_splits)
next
  case (timer d fire w1)
  from assms(2) timer have "d = wt_armed (wd_watcher w)" by (simp add: watch_ok_def)
  with timer have "fire" "wt_timer w1 = None" by (auto simp: on_timer_def)
  then show ?thesis using timer do_reload_current by (auto simp: watch_ok_def)
qed

lemma watch_run_ok:
  "watch_run Y dir ks w w' \<Longrightarrow> watch_ok Y dir w \<Longrightarrow> Lose \<notin> set ks \<Longrightarrow> watch_ok Y dir w'"
  by (induction rule: watch_run.induct) (auto intro: watch_step_ok)

subsection \<open>The clock\<close>

definition armed_ok :: "world \<Rightarrow> bool" where
  "armed_ok w \<longleftrightarrow>
     wt_armed (wd_watcher w) \<le> wd_now w + debounce \<and>
     (\<forall>d. wt_timer (wd_watcher w) = Some d \<longrightarrow> d = wt_armed (wd_watcher w))"

lemma watch_step_armed:
  assumes "watch_step Y dir k w w'" "armed_ok w"
  shows "armed_ok w'" "wt_armed (wd_watcher w) \<le> wt_armed (wd_watcher w')" "wd_now w \<le> wd_now w'"
proof -
  have "armed_ok w' \<and> wt_armed (wd_watcher w) \<le> wt_armed (wd_watcher w') \<and> wd_now w \<le> wd_now w'"
    using assms(1)
  proof (cases rule: watch_step.cases)
    case (notice n ns)
    then show ?thesis
      using assms(2) by (cases n) (auto simp: armed_ok_def on_notice_def debounce_def)
  next
    case (timer d fire w1)
    then show ?thesis using assms(2) by (auto simp: armed_ok_def on_timer_def do_reload_def split: if_splits)
  qed (use assms(2) in \<open>auto simp: armed_ok_def set_files_def do_reload_def\<close>)
  then show "armed_ok w'" "wt_armed (wd_watcher w) \<le> wt_armed (wd_watcher w')" "wd_now w \<le> wd_now w'"
    by auto
qed

lemma watch_run_armed:
  "watch_run Y dir ks w w' \<Longrightarrow> armed_ok w \<Longrightarrow>
     armed_ok w' \<and> wt_armed (wd_watcher w) \<le> wt_armed (wd_watcher w') \<and> wd_now w \<le> wd_now w'"
proof (induction rule: watch_run.induct)
  case (more ks w w1 k w2)
  with watch_step_armed [OF more.hyps(2)] show ?case by force
qed simp

text \<open>A world in which the watcher has registered its directory and not loaded it yet.\<close>

definition starting :: "world \<Rightarrow> bool" where
  "starting w \<longleftrightarrow> wd_watcher w = new_watcher \<and> 0 \<le> wd_now w"

lemma starting_ok: "starting w \<Longrightarrow> watch_ok Y dir w \<and> armed_ok w"
  by (simp add: starting_def watch_ok_def armed_ok_def new_watcher_def debounce_def)

subsection \<open>Properties\<close>

definition empty_fs :: fsys where
  "empty_fs = sample_fs\<lparr>fs_nodes := [(''/d'', FDir)]\<rparr>"

definition sample_world :: world where
  "sample_world =
     \<lparr>wd_fs = empty_fs, wd_now = 0, wd_queue = [], wd_watcher = new_watcher, wd_system = sample_system\<rparr>"

lemma sample_starting: "starting sample_world"
  by (simp add: starting_def sample_world_def)

definition loaded_world :: world where
  "loaded_world = (do_reload sample_yaml ''/d'' sample_world)\<lparr>wd_watcher := new_watcher\<lparr>wt_loaded := True\<rparr>\<rparr>"

lemma loaded_run: "watch_run sample_yaml ''/d'' [First_Load] sample_world loaded_world"
proof -
  have "watch_step sample_yaml ''/d'' First_Load sample_world loaded_world"
    unfolding loaded_world_def
    using first_load [of sample_world sample_yaml "''/d''"] by (simp add: sample_world_def new_watcher_def)
  from watch_run.more [OF watch_run.start this] show ?thesis by simp
qed

text \<open>
  No change of the site files is lost. However file changes, notices, the timer and
  requests interleave from the moment the directory is watched, the first load included,
  whenever the watcher has loaded, has no change notice queued and no timer running, the
  whole system serves exactly what the files now say -- provided fsnotify lost no notice.\<close>
lemma no_lost_update:
  assumes "starting w0" "watch_run Y dir ks w0 w" "Lose \<notin> set ks"
    and "wt_loaded (wd_watcher w)" "\<not> pending w" "wt_timer (wd_watcher w) = None"
  shows "in_line (fst (load_sites Y (wd_fs w) dir)) (wd_system w)"
proof -
  have "watch_ok Y dir w" using watch_run_ok [OF assms(2) _ assms(3)] starting_ok [OF assms(1)] by blast
  with assms(4-6) show ?thesis by (simp add: watch_ok_def current_def)
qed

lemma no_lost_update_witness:
  "in_line (fst (load_sites sample_yaml (wd_fs loaded_world) ''/d'')) (wd_system loaded_world)"
  by (rule no_lost_update [OF sample_starting loaded_run])
    (simp_all add: loaded_world_def new_watcher_def do_reload_def sample_world_def pending_def)

lemma watch_run_snoc2:
  "watch_run Y dir ks w w1 \<Longrightarrow> watch_step Y dir k w1 w2 \<Longrightarrow> watch_step Y dir k' w2 w3 \<Longrightarrow>
     watch_run Y dir (ks @ [k, k']) w w3"
  using watch_run.more [OF watch_run.more] by fastforce

lemma set_replicate_subset: "set (replicate n x) \<subseteq> {x}"
  by auto

text \<open>The queue can be drained at once, without a change of files or clock.\<close>

lemma drain_queue:
  "wt_loaded (wd_watcher w) \<Longrightarrow>
     \<exists>w'. watch_run Y dir (replicate (length (wd_queue w)) Notice) w w' \<and> wd_queue w' = [] \<and>
       wd_fs w' = wd_fs w \<and> wd_now w' = wd_now w \<and> wt_loaded (wd_watcher w')"
proof (induction "wd_queue w" arbitrary: w rule: rev_induct)
  case Nil
  then show ?case by (auto intro: watch_run.start)
next
  case (snoc n ns)
  let ?w = "w\<lparr>wd_queue := ns\<rparr>"
  have lift: "watch_run Y dir ks x y \<Longrightarrow> set ks \<subseteq> {Notice} \<Longrightarrow>
      watch_run Y dir ks (x\<lparr>wd_queue := wd_queue x @ [n]\<rparr>) (y\<lparr>wd_queue := wd_queue y @ [n]\<rparr>)" for ks x y
  proof (induction rule: watch_run.induct)
    case (more ks x y1 k y2)
    then have "watch_step Y dir Notice y1 y2" by auto
    then obtain m ms where "wt_loaded (wd_watcher y1)" "wd_queue y1 = m # ms"
        "y2 = y1\<lparr>wd_queue := ms, wd_watcher := on_notice (wd_now y1) m (wd_watcher y1)\<rparr>"
      by (auto simp: notice_simps)
    then have "watch_step Y dir Notice (y1\<lparr>wd_queue := wd_queue y1 @ [n]\<rparr>) (y2\<lparr>wd_queue := wd_queue y2 @ [n]\<rparr>)"
      by (simp add: notice_simps)
    with more show ?case by (auto intro: watch_run.more)
  qed (rule watch_run.start)
  from snoc(1) [of ?w] snoc.prems obtain w1 where w1: "watch_run Y dir (replicate (length ns) Notice) ?w w1"
      "wd_queue w1 = []" "wd_fs w1 = wd_fs w" "wd_now w1 = wd_now w" "wt_loaded (wd_watcher w1)"
    by auto
  have whole: "?w\<lparr>wd_queue := wd_queue ?w @ [n]\<rparr> = w" using snoc(2) by simp
  let ?w1 = "w1\<lparr>wd_queue := [n]\<rparr>"
  have run: "watch_run Y dir (replicate (length ns) Notice) w ?w1"
    using lift [OF w1(1) set_replicate_subset] whole w1(2) by simp
  let ?w2 = "w1\<lparr>wd_queue := [], wd_watcher := on_notice (wd_now w1) n (wd_watcher w1)\<rparr>"
  have "watch_step Y dir Notice ?w1 ?w2" using w1(5) by (simp add: notice_simps)
  from watch_run.more [OF run this] have "watch_run Y dir (replicate (length (wd_queue w)) Notice) w ?w2"
    using snoc(2) [symmetric] by (simp add: replicate_append_same [symmetric])
  moreover have "wt_loaded (wd_watcher ?w2)" using w1(5) by (cases n) (simp_all add: on_notice_def)
  ultimately show ?case using w1 by (intro exI [of _ ?w2]) simp
qed

text \<open>
  The system settles within the debounce time. In every reachable world without lost
  notices, once loaded, the watcher can by its own steps alone, within 200 milliseconds on
  the clock and without the files changing, reach a state in which the whole system serves
  what the files say.\<close>
lemma watcher_settles:
  assumes "starting w0" "watch_run Y dir ks w0 w" "Lose \<notin> set ks" "wt_loaded (wd_watcher w)"
  shows "\<exists>ks' w'. watch_run Y dir ks' w w' \<and> set ks' \<subseteq> {Notice, Pass, Timer} \<and> wd_fs w' = wd_fs w \<and>
    wd_now w' \<le> wd_now w + debounce \<and> in_line (fst (load_sites Y (wd_fs w) dir)) (wd_system w')"
proof -
  have ok: "watch_ok Y dir w" "armed_ok w"
    using watch_run_ok [OF assms(2) _ assms(3)] watch_run_armed [OF assms(2)] starting_ok [OF assms(1)] by blast+
  obtain w1 where w1: "watch_run Y dir (replicate (length (wd_queue w)) Notice) w w1" "wd_queue w1 = []"
      "wd_fs w1 = wd_fs w" "wd_now w1 = wd_now w" "wt_loaded (wd_watcher w1)"
    using drain_queue [OF assms(4)] by blast
  let ?ks = "replicate (length (wd_queue w)) Notice"
  have "Lose \<notin> set ?ks" by simp
  then have ok1: "watch_ok Y dir w1" "armed_ok w1"
    using watch_run_ok [OF w1(1) ok(1)] watch_run_armed [OF w1(1) ok(2)] by blast+
  show ?thesis
  proof (cases "wt_timer (wd_watcher w1)")
    case None
    with ok1(1) w1 have "in_line (fst (load_sites Y (wd_fs w) dir)) (wd_system w1)"
      by (simp add: watch_ok_def pending_def current_def)
    with w1 show ?thesis by (intro exI [of _ ?ks] exI [of _ w1]) (auto simp: debounce_def)
  next
    case (Some d)
    with ok1(2) have d: "d = wt_armed (wd_watcher w1)" "d \<le> wd_now w1 + debounce" by (simp_all add: armed_ok_def)
    let ?t = "max (wd_now w1) d"
    let ?w2 = "w1\<lparr>wd_now := ?t\<rparr>"
    have pass: "watch_step Y dir Pass w1 ?w2" by (rule watch_step.pass) simp
    have fire: "on_timer (wd_now ?w2) (wd_watcher ?w2) = (True, (wd_watcher w1)\<lparr>wt_timer := None\<rparr>)"
      using d(1) by (simp add: on_timer_def)
    let ?w3 = "(do_reload Y dir ?w2)\<lparr>wd_watcher := (wd_watcher w1)\<lparr>wt_timer := None\<rparr>\<rparr>"
    have "watch_step Y dir Timer ?w2
        ((if True then do_reload Y dir ?w2 else ?w2)\<lparr>wd_watcher := (wd_watcher w1)\<lparr>wt_timer := None\<rparr>\<rparr>)"
    proof (rule watch_step.timer)
      show "wt_timer (wd_watcher ?w2) = Some d" using Some by simp
    qed (use w1(5) fire in simp_all)
    then have "watch_step Y dir Timer ?w2 ?w3" by simp
    from watch_run_snoc2 [OF w1(1) pass this] have "watch_run Y dir (?ks @ [Pass, Timer]) w ?w3" .
    moreover have "in_line (fst (load_sites Y (wd_fs w) dir)) (wd_system ?w3)"
      using do_reload_current [of Y dir _ ?w2] w1(3) by (simp add: current_def do_reload_def)
    moreover have "wd_fs ?w3 = wd_fs w" "wd_now ?w3 \<le> wd_now w + debounce"
      using w1(3,4) d(2) by (simp_all add: do_reload_def debounce_def)
    ultimately show ?thesis by (intro exI [of _ "?ks @ [Pass, Timer]"] exI [of _ ?w3]) auto
  qed
qed

lemma watcher_settles_witness:
  "\<exists>ks' w'. watch_run sample_yaml ''/d'' ks' loaded_world w' \<and> wd_now w' \<le> wd_now loaded_world + debounce \<and>
     in_line (fst (load_sites sample_yaml (wd_fs loaded_world) ''/d'')) (wd_system w')"
proof -
  have "Lose \<notin> set [First_Load]" by simp
  moreover have "wt_loaded (wd_watcher loaded_world)" by (simp add: loaded_world_def)
  ultimately show ?thesis using watcher_settles [OF sample_starting loaded_run] by blast
qed

text \<open>
  Reloads are debounced. After a change notice is handled, no timer reload happens until
  200 milliseconds have passed on the clock, whatever notices, requests and further changes
  come in between, and when the timer is handled the reload does take place: the code's
  branch that arms it again is never needed.\<close>
lemma reload_debounced:
  assumes "starting w0" "watch_run Y dir ks w0 w"
    and "watch_step Y dir Notice w w1" "wd_queue w = Event ops # ns" "relevant ops"
    and "watch_run Y dir ks' w1 w2" "watch_step Y dir Timer w2 w3"
  shows "wd_now w + debounce \<le> wd_now w2 \<and> wt_timer (wd_watcher w3) = None \<and>
    wd_system w3 = snd (watcher_reload Y (wd_fs w2) dir (wd_system w2))"
proof -
  have "armed_ok w" using watch_run_armed [OF assms(2)] starting_ok [OF assms(1)] by blast
  from watch_step_armed(1) [OF assms(3) this] have ok1: "armed_ok w1" .
  have "wt_armed (wd_watcher w1) = wd_now w + debounce"
    using assms(3-5) by (auto simp: notice_simps on_notice_def)
  with watch_run_armed [OF assms(6) ok1]
  have ok2: "armed_ok w2" "wd_now w + debounce \<le> wt_armed (wd_watcher w2)" by simp_all
  obtain d fire x where t: "wt_timer (wd_watcher w2) = Some d" "d \<le> wd_now w2"
      "on_timer (wd_now w2) (wd_watcher w2) = (fire, x)"
      "w3 = (if fire then do_reload Y dir w2 else w2)\<lparr>wd_watcher := x\<rparr>"
    using assms(7) by (auto simp: timer_simps)
  have "d = wt_armed (wd_watcher w2)" using ok2(1) t(1) by (simp add: armed_ok_def)
  with ok2(2) t show ?thesis by (auto simp: on_timer_def do_reload_def)
qed

definition changed_world :: world where
  "changed_world =
     (set_files (fs_nodes sample_fs) loaded_world)\<lparr>wd_queue := wd_queue loaded_world @ [Event [Op_Create]]\<rparr>"

lemma changed_run: "watch_run sample_yaml ''/d'' ([First_Load] @ [Change]) sample_world changed_world"
  unfolding changed_world_def
  by (rule watch_run.more [OF loaded_run]) (rule watch_step.change, simp add: relevant_def)

lemma reload_debounced_witness:
  "\<exists>w1 w2 w3. watch_step sample_yaml ''/d'' Notice changed_world w1 \<and> watch_step sample_yaml ''/d'' Timer w2 w3 \<and>
     wd_now changed_world + debounce \<le> wd_now w2 \<and>
     wd_system w3 = snd (watcher_reload sample_yaml (wd_fs w2) ''/d'' (wd_system w2))"
proof -
  let ?wt = "on_notice (wd_now changed_world) (Event [Op_Create]) (wd_watcher changed_world)"
  let ?w1 = "changed_world\<lparr>wd_queue := [], wd_watcher := ?wt\<rparr>"
  let ?w2 = "?w1\<lparr>wd_now := 200\<rparr>"
  let ?w3 = "(do_reload sample_yaml ''/d'' ?w2)\<lparr>wd_watcher := ?wt\<lparr>wt_timer := None\<rparr>\<rparr>"
  have facts: "wd_queue changed_world = [Event [Op_Create]]" "wd_now changed_world = 0"
    "wd_watcher changed_world = new_watcher\<lparr>wt_loaded := True\<rparr>"
    by (simp_all add: changed_world_def set_files_def loaded_world_def do_reload_def sample_world_def)
  have wt: "?wt = \<lparr>wt_timer = Some 200, wt_armed = 200, wt_loaded = True\<rparr>"
    by (simp add: facts on_notice_def relevant_def debounce_def new_watcher_def)
  have s1: "watch_step sample_yaml ''/d'' Notice changed_world ?w1"
    by (simp add: notice_simps facts new_watcher_def)
  have "watch_step sample_yaml ''/d'' Pass ?w1 ?w2" by (rule watch_step.pass) (simp add: facts)
  from watch_run.more [OF watch_run.start this] have r: "watch_run sample_yaml ''/d'' [Pass] ?w1 ?w2" by simp
  have s3: "watch_step sample_yaml ''/d'' Timer ?w2 ?w3"
    by (auto simp: timer_simps wt on_timer_def)
  from reload_debounced [OF sample_starting changed_run s1 _ _ r s3] facts(1) s1 s3 show ?thesis
    by (intro exI [of _ ?w1] exI [of _ ?w2] exI [of _ ?w3]) (simp add: relevant_def)
qed

text \<open>
  A lost notice leaves the proxy on stale configuration. When fsnotify reports an error
  instead of a change (its queue overflowed), the watcher logs it and does not reload: there
  is a run after which nothing is queued, no timer runs, a valid site file is on disk, and
  its host is still unknown to the proxy.\<close>
lemma lost_notice_stale:
  "\<exists>ks w. watch_run sample_yaml ''/d'' ks sample_world w \<and> wt_loaded (wd_watcher w) \<and> wd_queue w = [] \<and>
     wt_timer (wd_watcher w) = None \<and>
     route_spec (fst (load_sites sample_yaml (wd_fs w) ''/d'')) ''a.com'' \<noteq> None \<and>
     lookup_site (ro_store (sy_router (wd_system w))) ''a.com'' = None"
proof -
  let ?w1 = "(set_files (fs_nodes sample_fs) loaded_world)\<lparr>wd_queue := wd_queue loaded_world @ [Watch_Error]\<rparr>"
  let ?w2 = "?w1\<lparr>wd_queue := []\<rparr>"
  have "watch_step sample_yaml ''/d'' Lose loaded_world ?w1" by (rule watch_step.lose) simp
  from watch_run.more [OF loaded_run this]
  have r1: "watch_run sample_yaml ''/d'' ([First_Load] @ [Lose]) sample_world ?w1" .
  have facts: "wd_queue loaded_world = []" "wd_watcher loaded_world = new_watcher\<lparr>wt_loaded := True\<rparr>"
    "wd_fs loaded_world = empty_fs" by (simp_all add: loaded_world_def do_reload_def sample_world_def)
  have "watch_step sample_yaml ''/d'' Notice ?w1 ?w2"
    by (simp add: notice_simps facts new_watcher_def on_notice_def set_files_def)
  from watch_run.more [OF r1 this]
  have "watch_run sample_yaml ''/d'' (([First_Load] @ [Lose]) @ [Notice]) sample_world ?w2" .
  moreover have "route_spec (fst (load_sites sample_yaml (empty_fs\<lparr>fs_nodes := fs_nodes sample_fs\<rparr>) ''/d'')) ''a.com'' \<noteq> None"
    "lookup_site (ro_store (sy_router (wd_system loaded_world))) ''a.com'' = None" by code_simp+
  ultimately show ?thesis
    by (intro exI [of _ "([First_Load] @ [Lose]) @ [Notice]"] exI [of _ ?w2])
      (simp add: facts set_files_def new_watcher_def)
qed

end
