(* ===== verification/Reload_Race.thy ===== *)
theory Reload_Race
  imports Watcher
begin

section \<open>Reloads that overlap\<close>

text \<open>
  \<open>Watcher.reload\<close> and the \<open>ReloadCallback\<close> of \<open>main.go\<close> run in different goroutines and share no
  lock: each loads the sites, replaces the store, and then calls \<open>OnReload\<close>. Here the three
  parts are separate steps of an agent (the watcher, or a request to the admin interface),
  interleaved with other agents, requests and writes of files.
\<close>

datatype agent_state = Idle | Loaded "site list" | Stored "site list"

record racing =
  rc_fs :: fsys
  rc_sys :: system
  rc_agents :: "nat \<Rightarrow> agent_state"

datatype race_event = Agent nat | Save_File string string | Proxied visit

text \<open>An agent's next part of a reload.\<close>

definition agent_step :: "yaml_lib \<Rightarrow> string \<Rightarrow> nat \<Rightarrow> racing \<Rightarrow> racing" where
  "agent_step Y dir i w =
     (case rc_agents w i of
        Idle \<Rightarrow> w\<lparr>rc_agents := (rc_agents w)(i := Loaded (fst (load_sites Y (rc_fs w) dir)))\<rparr>
      | Loaded ss \<Rightarrow> w\<lparr>rc_sys := store_replace ss (rc_sys w), rc_agents := (rc_agents w)(i := Stored ss)\<rparr>
      | Stored ss \<Rightarrow> w\<lparr>rc_sys := on_reload ss (rc_sys w), rc_agents := (rc_agents w)(i := Idle)\<rparr>)"

definition race_step :: "yaml_lib \<Rightarrow> string \<Rightarrow> race_event \<Rightarrow> racing \<Rightarrow> racing" where
  "race_step Y dir ev w =
     (case ev of
        Agent i \<Rightarrow> agent_step Y dir i w
      | Save_File p b \<Rightarrow> w\<lparr>rc_fs := (rc_fs w)\<lparr>fs_nodes := gm_put p (FFile b) (fs_nodes (rc_fs w))\<rparr>\<rparr>
      | Proxied v \<Rightarrow> w\<lparr>rc_sys := snd (serve_request v (rc_sys w))\<rparr>)"

definition race :: "yaml_lib \<Rightarrow> string \<Rightarrow> race_event list \<Rightarrow> racing \<Rightarrow> racing" where
  "race Y dir evs w = fold (race_step Y dir) evs w"

definition all_idle :: "racing \<Rightarrow> bool" where
  "all_idle w \<longleftrightarrow> (\<forall>i. rc_agents w i = Idle)"

subsection \<open>Reloads of the same files\<close>

definition routes :: "site list \<Rightarrow> system \<Rightarrow> bool" where
  "routes ss sys \<longleftrightarrow> (\<forall>h. lookup_site (ro_store (sy_router sys)) h = route_spec ss h)"

text \<open>Everyone has loaded the same list, and who has stored it has made the store route by it.\<close>

definition race_ok :: "site list \<Rightarrow> racing \<Rightarrow> bool" where
  "race_ok ss w \<longleftrightarrow>
     (\<forall>i. rc_agents w i \<in> {Idle, Loaded ss, Stored ss}) \<and>
     ((\<exists>i. rc_agents w i = Stored ss) \<longrightarrow> routes ss (rc_sys w))"

lemma store_replace_routes: "routes ss (store_replace ss sys)"
  by (simp add: routes_def store_replace_def store.lookup_replace)

lemma store_replace_in_line: "in_line ss sys \<Longrightarrow> in_line ss (store_replace ss sys)"
  by (simp add: in_line_def consistent_def store_replace_def store.lookup_replace runtime_of_def)

lemma on_reload_in_line: "routes ss sys \<Longrightarrow> in_line ss (on_reload ss sys)"
proof -
  have "consistent ss (reload ss r)" if "\<forall>h. lookup_site (ro_store r) h = route_spec ss h" for r
    using that fold_add_runtime [of ss] by (simp add: consistent_def runtime_of_reload reload_fields)
  then show "routes ss sys \<Longrightarrow> in_line ss (on_reload ss sys)"
    by (simp add: routes_def in_line_def on_reload_def Let_def)
qed

lemma on_reload_routes: "routes ss (on_reload ss' sys) = routes ss sys"
  by (simp add: routes_def on_reload_def Let_def reload_fields)

lemma request_store: "ro_store (sy_router (snd (serve_request v sys))) = ro_store (sy_router sys)"
  using serve_http_shape by (auto simp: serve_request_def serve_step_def case_prod_beta same_shape_def split: prod.split)

lemma race_step_ok:
  assumes "race_ok ss w" "\<forall>p b. ev \<noteq> Save_File p b" "ss = fst (load_sites Y (rc_fs w) dir)"
  shows "race_ok ss (race_step Y dir ev w)" "rc_fs (race_step Y dir ev w) = rc_fs w"
    "in_line ss (rc_sys w) \<Longrightarrow> in_line ss (rc_sys (race_step Y dir ev w))"
    "ev = Agent i \<Longrightarrow> in_line ss (rc_sys (race_step Y dir ev w)) \<or> rc_agents (race_step Y dir ev w) i \<noteq> Idle"
    "(\<exists>i. rc_agents w i \<noteq> Idle) \<Longrightarrow>
      in_line ss (rc_sys (race_step Y dir ev w)) \<or> (\<exists>i. rc_agents (race_step Y dir ev w) i \<noteq> Idle)"
proof -
  have req: "routes ss (snd (serve_request v sys)) = routes ss sys" for v sys by (simp add: routes_def request_store)
  show "race_ok ss (race_step Y dir ev w)"
  proof (cases ev)
    case (Agent i)
    then have "rc_agents w i \<in> {Idle, Loaded ss, Stored ss}" using assms(1) by (simp add: race_ok_def)
    then show ?thesis
      using Agent assms(1) store_replace_routes [of ss] on_reload_routes [of ss]
      by (elim insertE; simp add: race_step_def agent_step_def race_ok_def assms(3) [symmetric]) auto
  next
    case (Proxied v)
    then show ?thesis using assms(1) req by (simp add: race_step_def race_ok_def)
  qed (use assms(2) in simp)
  show "rc_fs (race_step Y dir ev w) = rc_fs w"
    using assms(2) by (cases ev) (auto simp: race_step_def agent_step_def split: agent_state.split)
  have agent: "rc_agents w i \<in> {Idle, Loaded ss, Stored ss}" for i using assms(1) by (simp add: race_ok_def)
  have stored: "rc_agents w i = Stored ss \<Longrightarrow> in_line ss (on_reload ss (rc_sys w))" for i
    using assms(1) on_reload_in_line by (auto simp: race_ok_def)
  show "in_line ss (rc_sys w) \<Longrightarrow> in_line ss (rc_sys (race_step Y dir ev w))"
  proof (cases ev)
    case (Agent i)
    assume "in_line ss (rc_sys w)"
    with Agent agent [of i] stored [of i] store_replace_in_line show ?thesis
      by (auto simp: race_step_def agent_step_def)
  next
    case (Proxied v)
    assume "in_line ss (rc_sys w)"
    with Proxied serve_request_in_line [of ss "rc_sys w" v] show ?thesis by (simp add: race_step_def)
  qed (use assms(2) in simp)
  show one: "in_line ss (rc_sys (race_step Y dir ev w)) \<or> rc_agents (race_step Y dir ev w) i \<noteq> Idle"
    if "ev = Agent i" for i
    using that agent [of i] stored [of i] by (auto simp: race_step_def agent_step_def)
  show "in_line ss (rc_sys (race_step Y dir ev w)) \<or> (\<exists>i. rc_agents (race_step Y dir ev w) i \<noteq> Idle)"
    if "\<exists>i. rc_agents w i \<noteq> Idle"
  proof (cases ev)
    case (Agent i)
    with one show ?thesis by blast
  next
    case (Proxied v)
    with that show ?thesis by (simp add: race_step_def)
  qed (use assms(2) in simp)
qed

lemma race_invariant:
  assumes "all_idle w" "\<forall>p b. Save_File p b \<notin> set evs" "ss = fst (load_sites Y (rc_fs w) dir)"
  shows "race_ok ss (race Y dir evs w) \<and> rc_fs (race Y dir evs w) = rc_fs w \<and>
    ((\<exists>i. Agent i \<in> set evs) \<longrightarrow>
       in_line ss (rc_sys (race Y dir evs w)) \<or> (\<exists>i. rc_agents (race Y dir evs w) i \<noteq> Idle))"
  using assms(2)
proof (induction evs rule: rev_induct)
  case Nil
  then show ?case using assms(1) by (simp add: race_def race_ok_def all_idle_def)
next
  case (snoc ev evs)
  let ?w = "race Y dir evs w"
  have IH: "race_ok ss ?w" "rc_fs ?w = rc_fs w"
    "(\<exists>i. Agent i \<in> set evs) \<longrightarrow> in_line ss (rc_sys ?w) \<or> (\<exists>i. rc_agents ?w i \<noteq> Idle)"
    using snoc by simp_all
  have ev: "\<forall>p b. ev \<noteq> Save_File p b" using snoc.prems by auto
  have w: "race Y dir (evs @ [ev]) w = race_step Y dir ev ?w" by (simp add: race_def)
  note step = race_step_ok [OF IH(1) ev, of Y dir, unfolded IH(2), OF assms(3)]
  have "in_line ss (rc_sys (race_step Y dir ev ?w)) \<or> (\<exists>i. rc_agents (race_step Y dir ev ?w) i \<noteq> Idle)"
    if "\<exists>i. Agent i \<in> set (evs @ [ev])"
    using that IH(3) step(3,5) step(4) by auto
  with step(1,2) show ?case by (simp add: w)
qed

subsection \<open>Properties\<close>

text \<open>
  C19: reloads may overlap as long as they read the same files. If no reload is under way when
  the files change for the last time, then however the reloads of the watcher and of any
  number of admin requests interleave after that, with each other and with traffic, once
  they are all finished the proxy serves exactly what the files say.\<close>
theorem overlapping_reloads_agree:
  assumes "all_idle w" "\<forall>p b. Save_File p b \<notin> set evs" "Agent i \<in> set evs"
    and "w' = race Y dir evs w" "all_idle w'"
  shows "rc_fs w' = rc_fs w \<and> in_line (fst (load_sites Y (rc_fs w') dir)) (rc_sys w')"
  using race_invariant [OF assms(1,2) refl, of Y dir] assms(3-5) by (auto simp: all_idle_def)

definition idle_race :: "fsys \<Rightarrow> racing" where
  "idle_race fs = \<lparr>rc_fs = fs, rc_sys = sample_system, rc_agents = (\<lambda>_. Idle)\<rparr>"

theorem overlapping_reloads_agree_witness:
  "in_line (fst (load_sites sample_yaml sample_fs ''/d''))
     (rc_sys (race sample_yaml ''/d'' [Agent 0, Agent 1, Agent 0, Agent 1, Agent 1, Agent 0] (idle_race sample_fs)))"
proof -
  let ?evs = "[Agent 0, Agent 1, Agent 0, Agent 1, Agent 1, Agent 0]"
  have "all_idle (race sample_yaml ''/d'' ?evs (idle_race sample_fs))"
    by (simp add: all_idle_def race_def race_step_def agent_step_def idle_race_def)
  moreover have "all_idle (idle_race sample_fs)" "rc_fs (idle_race sample_fs) = sample_fs"
    by (simp_all add: all_idle_def idle_race_def)
  moreover have "\<forall>p b. Save_File p b \<notin> set ?evs" "Agent 0 \<in> set ?evs" by simp_all
  ultimately show ?thesis using overlapping_reloads_agree [OF _ _ _ refl] by metis
qed

text \<open>
  C35: a reload that read the files before a change can undo the one that read them after. In
  this schedule the watcher loads and stores the old list, a site file is saved and the
  admin interface reloads, and then the watcher publishes its old list: all reloads are
  finished, the file is valid and the store routes its host, but the proxy answers 503.\<close>
theorem torn_reload:
  "\<exists>evs w'. w' = race sample_yaml ''/d'' evs (idle_race empty_fs) \<and> all_idle w' \<and>
     lookup_site (ro_store (sy_router (rc_sys w'))) ''a.com'' \<noteq> None \<and>
     route_spec (fst (load_sites sample_yaml (rc_fs w') ''/d'')) ''a.com'' \<noteq> None \<and>
     fst (serve_http tr tk fresh_writer (host_request ''a.com'') (sy_router (rc_sys w'))) =
       Finished (http_error ''Service Unavailable'' 503 fresh_writer)"
proof -
  let ?evs = "[Agent 0, Agent 0, Save_File ''/d/a.yml'' ''S'', Agent 1, Agent 1, Agent 1, Agent 0]"
  let ?w = "race sample_yaml ''/d'' ?evs (idle_race empty_fs)"
  have idle: "all_idle ?w" by (simp add: all_idle_def race_def race_step_def agent_step_def idle_race_def)
  have facts: "lookup_site (ro_store (sy_router (rc_sys ?w))) ''a.com'' \<noteq> None"
    "route_spec (fst (load_sites sample_yaml (rc_fs ?w) ''/d'')) ''a.com'' \<noteq> None" by code_simp+
  have shape: "map_option (\<lambda>s. (s_http_to_https s, s_block_exploits s, s_domain s))
      (lookup_site (ro_store (sy_router (rc_sys ?w))) ''a.com'') = Some (False, False, ''a.com'')"
    "gm_get (ro_runtimes (sy_router (rc_sys ?w))) ''a.com'' = None" "ro_stopping (sy_router (rc_sys ?w)) = False"
    by code_simp+
  have "rq_host (host_request ''a.com'') = ''a.com''" by (simp add: host_request_def)
  then have "fst (serve_http tr tk fresh_writer (host_request ''a.com'') (sy_router (rc_sys ?w))) =
      Finished (http_error ''Service Unavailable'' 503 fresh_writer)"
    using shape by (auto simp: serve_http_def)
  with idle facts show ?thesis by blast
qed

end
