(* ===== verification/Serving.thy ===== *)
theory Serving
  imports Routing
begin

section \<open>The request path: precedence of refusals, filters, limits, accounting, identity\<close>

text \<open>
  Theorems on \<open>ServeHTTP\<close>: the precedence of its refusals as a function of the configured
  sites, the two request filters against reference predicates, one metrics record per
  request, and the headers that tell the upstream who the client is.
\<close>

subsection \<open>Refusals\<close>

lemma serve_run_fields:
  "ro_stopping (snd (run_outputs serve_step vs r)) = ro_stopping r"
  "ro_trust (snd (run_outputs serve_step vs r)) = ro_trust r"
  "ro_runtimes (snd (run_outputs serve_step vs r)) = ro_runtimes r"
  "ro_store (snd (run_outputs serve_step vs r)) = ro_store r"
proof -
  have step: "same_shape r (snd (serve_step v r))" for v r
    using serve_http_shape by (auto simp: serve_step_def split: prod.split)
  have "same_shape r (snd (run_outputs serve_step vs r))"
    by (induction vs arbitrary: r) (auto intro: same_shape_trans step)
  then show "ro_stopping (snd (run_outputs serve_step vs r)) = ro_stopping r"
    "ro_trust (snd (run_outputs serve_step vs r)) = ro_trust r"
    "ro_runtimes (snd (run_outputs serve_step vs r)) = ro_runtimes r"
    "ro_store (snd (run_outputs serve_step vs r)) = ro_store r"
    by (simp_all add: same_shape_def)
qed

text \<open>
  Which requests are refused before they reach a site's runtime, and with what status, in
  terms of the configured sites alone.
\<close>

definition refusal_spec :: "site list \<Rightarrow> bool \<Rightarrow> request \<Rightarrow> int option" where
  "refusal_spec ss stopping req =
     (if stopping then Some 503
      else (case route_spec ss (rq_host req) of
              None \<Rightarrow> Some 404
            | Some s \<Rightarrow>
                if s_http_to_https s \<and> \<not> rq_tls req then Some 301
                else if s_block_exploits s \<and> (common_exploit (ru_path (rq_url req)) \<or> scanner_ua (user_agent req))
                then Some 403
                else if runtime_spec ss (s_domain s) = None then Some 503 else None))"

lemma http_redirect_status: "w_status (http_redirect m loc 301 txt fresh_writer) = Some 301"
  by (simp add: http_redirect_def Let_def write_body_keeps_status commit_header_def fresh_writer_def)

lemma consistent_runtime_None:
  "consistent ss r \<Longrightarrow> gm_get (ro_runtimes r) d = None \<longleftrightarrow> runtime_spec ss d = None"
proof -
  assume "consistent ss r"
  then have "map_option shape (runtime_of r d) = map_option shape (runtime_spec ss d)"
    by (simp add: consistent_def)
  then show ?thesis by (cases "gm_get (ro_runtimes r) d"; cases "runtime_spec ss d") (auto simp: runtime_of_def)
qed

lemma refusal_consistent:
  assumes "consistent ss r" "refusal_spec ss (ro_stopping r) req = Some code"
  shows "\<exists>w. w_status w = Some code \<and> (\<forall>tr tk. serve_http tr tk fresh_writer req r = (Finished w, r))"
proof -
  have look: "lookup_site (ro_store r) h = route_spec ss h" for h using assms(1) by (simp add: consistent_def)
  have codes: "body_allowed 503" "body_allowed 404" "body_allowed 403" by (simp_all add: body_allowed_def)
  show ?thesis
  proof (cases "ro_stopping r")
    case True
    with assms(2) have "code = 503" by (simp add: refusal_spec_def)
    with http_error_status [OF codes(1)] True show ?thesis by (auto simp: serve_http_def)
  next
    case run: False
    show ?thesis
    proof (cases "route_spec ss (rq_host req)")
      case None
      with assms(2) run have "code = 404" by (simp add: refusal_spec_def)
      with http_error_status [OF codes(2)] run None show ?thesis by (auto simp: serve_http_def look)
    next
      case (Some s)
      note serve = serve_http_def look run Some
      let ?tls = "s_http_to_https s \<and> \<not> rq_tls req"
      let ?bad = "s_block_exploits s \<and> (common_exploit (ru_path (rq_url req)) \<or> scanner_ua (user_agent req))"
      have spec: "Some code = (if ?tls then Some 301 else if ?bad then Some 403
          else if gm_get (ro_runtimes r) (s_domain s) = None then Some 503 else None)"
        unfolding assms(2) [symmetric] refusal_spec_def
        using consistent_runtime_None [OF assms(1), of "s_domain s"] by (simp only: run Some if_False option.case)
      consider "?tls" | "\<not> ?tls" "?bad" | "\<not> ?tls" "\<not> ?bad" "gm_get (ro_runtimes r) (s_domain s) = None"
        using spec by (metis option.distinct(1))
      then show ?thesis
      proof cases
        case 1
        with spec http_redirect_status show ?thesis by (auto simp: serve)
      next
        case 2
        with spec have "code = 403" by auto
        moreover from 2 have "serve_http tr tk fresh_writer req r =
            (Finished (http_error ''Forbidden'' 403 fresh_writer), r)" for tr tk
          by (auto simp: serve)
        ultimately show ?thesis using http_error_status [OF codes(3)] by blast
      next
        case 3
        with spec have "code = 503" by auto
        moreover from 3 have "serve_http tr tk fresh_writer req r =
            (Finished (http_error ''Service Unavailable'' 503 fresh_writer), r)" for tr tk
          by (auto simp: serve)
        ultimately show ?thesis using http_error_status [OF codes(1)] by blast
      qed
    qed
  qed
qed

text \<open>
  C7: refusals have a fixed precedence and leave no trace. In every state reached after a
  reload, a request is answered before any upstream contact with 503 while stopping, else
  404 for an unknown host, else 301 on plain HTTP to a site that wants HTTPS, else 403 for a
  filtered path or user agent, else 503 when the site has no runtime; such an answer does
  not depend on the upstream side or the clock, and changes neither pools, limiters nor
  metrics.\<close>
theorem refusal_precedence:
  "let r = snd (run_outputs serve_step visits (install ss r0))
   in case refusal_spec ss (ro_stopping r0) req of
        Some code \<Rightarrow> (\<exists>w. w_status w = Some code \<and> (\<forall>tr tk. serve_http tr tk fresh_writer req r = (Finished w, r)))
      | None \<Rightarrow> (\<exists>s i. route_spec ss (rq_host req) = Some s \<and> i < length (ro_heap r) \<and>
          (\<forall>tr tk. serve_http tr tk fresh_writer req r = serve_runtime tr tk fresh_writer req (s_domain s) i r))"
proof -
  let ?r = "snd (run_outputs serve_step visits (install ss r0))"
  have c: "consistent ss ?r" by (rule serving.run_inv) (rule install_consistent)
  have stop: "ro_stopping ?r = ro_stopping r0"
    by (simp add: serve_run_fields install_def reload_fields)
  show ?thesis
  proof (cases "refusal_spec ss (ro_stopping r0) req")
    case (Some code)
    with refusal_consistent [OF c] stop show ?thesis by (simp add: Let_def)
  next
    case None
    then obtain s where s: "route_spec ss (rq_host req) = Some s" "runtime_spec ss (s_domain s) \<noteq> None"
        "\<not> ro_stopping r0" "\<not> (s_http_to_https s \<and> \<not> rq_tls req)"
        "\<not> (s_block_exploits s \<and> (common_exploit (ru_path (rq_url req)) \<or> scanner_ua (user_agent req)))"
      by (auto simp: refusal_spec_def split: if_splits option.splits)
    then obtain i where i: "gm_get (ro_runtimes ?r) (s_domain s) = Some i"
      using consistent_runtime_None [OF c, of "s_domain s"]
      by (cases "gm_get (ro_runtimes ?r) (s_domain s)") auto
    then have "i < length (ro_heap ?r)" using c by (simp add: consistent_def heap_ok_def)
    moreover have "lookup_site (ro_store ?r) (rq_host req) = Some s"
      using c s(1) by (simp add: consistent_def)
    then have "serve_http tr tk fresh_writer req ?r = serve_runtime tr tk fresh_writer req (s_domain s) i ?r" for tr tk
      using s stop by (auto simp: serve_http_def i)
    ultimately show ?thesis using None s(1) by (auto simp: Let_def)
  qed
qed

subsection \<open>The filters on ASCII input\<close>

definition ascii :: "string \<Rightarrow> bool" where
  "ascii s \<longleftrightarrow> list_all (\<lambda>c. byte c < 128) s"

lemma fold_step_ascii:
  assumes "ascii s"
  shows "fold_step p s = (case s of [] \<Rightarrow> None | c # t \<Rightarrow> if lower_byte c = p then Some t else None)"
proof (cases s)
  case (Cons c t)
  then have "byte c < 128" using assms by (simp add: ascii_def)
  then have "c \<noteq> CHR 0xE2" "c \<noteq> CHR 0xC5" by auto
  with Cons show ?thesis by (auto simp: fold_step_def)
qed (simp add: fold_step_def)

lemma ci_prefix_ascii: "ascii s \<Longrightarrow> ci_prefix p s \<longleftrightarrow> has_prefix p (to_lower s)"
proof (induction p s rule: ci_prefix.induct)
  case (1 s)
  then show ?case by (simp add: has_prefix_def)
next
  case (2 p ps s)
  show ?case
  proof (cases s)
    case Nil
    then show ?thesis by (simp add: fold_step_def has_prefix_def to_lower_def)
  next
    case (Cons c t)
    with 2 show ?thesis
      by (simp add: fold_step_ascii) (auto simp: has_prefix_def to_lower_def ascii_def)
  qed
qed

lemma ci_contains_ascii: "ascii s \<Longrightarrow> ci_contains p s \<longleftrightarrow> contains p (to_lower s)"
proof (induction s)
  case Nil
  then show ?case by (simp add: ci_prefix_ascii contains_def has_prefix_def to_lower_def)
next
  case (Cons c s)
  moreover from this have "ascii s" by (simp add: ascii_def)
  ultimately show ?case
    by (auto simp: ci_prefix_ascii contains_def to_lower_def)
qed

text \<open>
  On ASCII input the filters decide by the lower-cased text. A path is an exploit probe
  exactly if, in lower case, it starts with a slash and one of the eleven listed names; a
  user agent is a scanner's exactly if, in lower case, it contains one of the nine names:
  no spelling in other cases passes, and nothing else is caught.\<close>
lemma filters_ascii:
  assumes "ascii path" "ascii ua"
  shows "(common_exploit path \<longleftrightarrow> (\<exists>p \<in> set exploit_paths. has_prefix (''/'' @ p) (to_lower path))) \<and>
    (scanner_ua ua \<longleftrightarrow> (\<exists>n \<in> set scanner_names. contains n (to_lower ua)))"
  using assms
  by (simp add: common_exploit_def scanner_ua_def list_ex_iff ci_prefix_ascii ci_contains_ascii del: ci_prefix.simps)

lemma filters_ascii_witness:
  "common_exploit ''/WP-Login.php?x'' \<and> scanner_ua ''Mozilla SQLMap/1.0'' \<and> \<not> common_exploit ''//wp-admin''"
proof -
  have a: "ascii ''/WP-Login.php?x''" "ascii ''Mozilla SQLMap/1.0''" "ascii ''//wp-admin''" by code_simp+
  have "\<exists>p \<in> set exploit_paths. has_prefix (''/'' @ p) (to_lower ''/WP-Login.php?x'')"
    "\<exists>n \<in> set scanner_names. contains n (to_lower ''Mozilla SQLMap/1.0'')"
    "\<not> (\<exists>p \<in> set exploit_paths. has_prefix (''/'' @ p) (to_lower ''//wp-admin''))" by code_simp+
  with filters_ascii [OF a(1,2)] filters_ascii [OF a(3,2)] show ?thesis by blast
qed

subsection \<open>Host names in pages\<close>

text \<open>
  What a 404 page repeats of the Host header is harmless. It consists of letters,
  digits, dots, colons and hyphens only, at most 253 of them, sanitising is idempotent, and
  a clean host of at most 253 bytes is repeated as it is.
\<close>

lemma sanitized_host_safe:
  "list_all log_byte (sanitize_host_for_log h) \<and> length (sanitize_host_for_log h) \<le> 253 \<and>
   sanitize_host_for_log (sanitize_host_for_log h) = sanitize_host_for_log h \<and>
   (sanitize_host_for_log h = h \<longleftrightarrow> list_all log_byte h \<and> length h \<le> 253)"
proof (intro conjI)
  let ?s = "sanitize_host_for_log h"
  show clean: "list_all log_byte ?s" by (auto simp: sanitize_host_for_log_def list_all_iff)
  show len: "length ?s \<le> 253"
    using length_filter_le [of log_byte "take 253 h"] by (simp add: sanitize_host_for_log_def)
  have id: "sanitize_host_for_log x = x" if "list_all log_byte x" "length x \<le> 253" for x
    using that by (simp add: sanitize_host_for_log_def list_all_iff)
  show "sanitize_host_for_log ?s = ?s" by (rule id [OF clean len])
  show "?s = h \<longleftrightarrow> list_all log_byte h \<and> length h \<le> 253" using id clean len by metis
qed

subsection \<open>Every request is recorded once, under its site\<close>

lemma finish_FinishedD:
  "finish d st b tk w r = (Finished w', r') \<Longrightarrow>
     w' = w \<and> registry_record d (tk_sec tk) \<lparr>sm_status = st, sm_bytes = b, sm_latency = tk_latency tk\<rparr>
       (ro_registry r) = Some (ro_registry r')"
  by (auto simp: finish_def record_metric_def split: option.splits)

lemma proxy_request_FinishedE:
  assumes "proxy_request tr tk w req d i r = (Finished w', r')"
  obtains m out c where "proxy_serve m tr req out (new_counting w) = Served c" "w' = c_writer c"
    "registry_record d (tk_sec tk) \<lparr>sm_status = c_status c, sm_bytes = c_bytes c, sm_latency = tk_latency tk\<rparr>
       (ro_registry r) = Some (ro_registry r')"
  using assms
  by (auto simp: proxy_request_def Let_def split: prod.splits exchange.splits dest!: finish_FinishedD)

definition answered :: "transport \<Rightarrow> bool" where
  "answered tr \<longleftrightarrow> (\<forall>rq. rp_info (tr rq) = [] \<and> rp_result (tr rq) \<noteq> Inl True \<and> final_code (tr rq))"

lemma proxy_request_accounted:
  assumes "answered tr" "proxy_request tr tk fresh_writer req d i r = (Finished w', r')"
  shows "\<exists>st. w_status w' = Some st \<and>
    registry_record d (tk_sec tk)
      \<lparr>sm_status = st, sm_bytes = wrap64 (int (length (w_body w'))), sm_latency = tk_latency tk\<rparr>
      (ro_registry r) = Some (ro_registry r')"
  using assms(2)
proof (rule proxy_request_FinishedE)
  fix m out c
  assume c: "proxy_serve m tr req out (new_counting fresh_writer) = Served c" "w' = c_writer c"
    "registry_record d (tk_sec tk) \<lparr>sm_status = c_status c, sm_bytes = c_bytes c, sm_latency = tk_latency tk\<rparr>
       (ro_registry r) = Some (ro_registry r')"
  have inv: "counting_inv c"
    by (rule proxy_serve_inv [OF _ c(1)]) (simp add: new_counting_inv fresh_writer_def)
  have "w_status (c_writer c) = Some (c_status c)"
    using proxy_serve_committed [OF _ c(1)] assms(1) by (simp add: answered_def)
  with inv c show ?thesis by (auto simp: counting_inv_def)
qed

lemma limited_accounted:
  assumes "finish d 429 0 tk (http_error msg 429 fresh_writer) r = (Finished w', r')"
  shows "w_status w' = Some 429 \<and>
    registry_record d (tk_sec tk) \<lparr>sm_status = 429, sm_bytes = 0, sm_latency = tk_latency tk\<rparr>
      (ro_registry r) = Some (ro_registry r')"
  using finish_FinishedD [OF assms] http_error_status [of 429] by (simp add: body_allowed_def)

lemma serve_runtime_accounted:
  assumes "answered tr" "serve_runtime tr tk fresh_writer req d i r = (Finished w', r')"
  shows "\<exists>st bytes. w_status w' = Some st \<and>
    (bytes = wrap64 (int (length (w_body w'))) \<or> st = 429 \<and> bytes = 0) \<and>
    registry_record d (tk_sec tk) \<lparr>sm_status = st, sm_bytes = bytes, sm_latency = tk_latency tk\<rparr>
      (ro_registry r) = Some (ro_registry r')"
proof -
  obtain ok l1 where al: "allow (client_ip req (ro_trust r), tk_now tk) (rn_limiter (ro_heap r ! i)) = (ok, l1)"
    by (cases "allow (client_ip req (ro_trust r), tk_now tk) (rn_limiter (ro_heap r ! i))")
  let ?r1 = "set_runtime i ((ro_heap r ! i)\<lparr>rn_limiter := l1\<rparr>) r"
  show ?thesis
  proof (cases ok)
    case True
    with assms(2) have "proxy_request tr tk fresh_writer req d i ?r1 = (Finished w', r')"
      by (simp add: serve_runtime_def al Let_def)
    from proxy_request_accounted [OF assms(1) this] show ?thesis by auto
  next
    case False
    with assms(2) have "finish d 429 0 tk (http_error ''Too Many Requests'' 429 fresh_writer) ?r1 = (Finished w', r')"
      by (simp add: serve_runtime_def al Let_def)
    from limited_accounted [OF this] show ?thesis by auto
  qed
qed



subsection \<open>Identity headers\<close>

definition withdrawn :: "string \<Rightarrow> request \<Rightarrow> bool" where
  "withdrawn k req \<longleftrightarrow> k \<in> canonical_key ` set (connection_named (rq_header req))"

lemma client_ip_cong:
  "rq_remote a = rq_remote b \<Longrightarrow>
   header_get ''X-Forwarded-For'' (rq_header a) = header_get ''X-Forwarded-For'' (rq_header b) \<Longrightarrow>
   header_get ''X-Real-IP'' (rq_header a) = header_get ''X-Real-IP'' (rq_header b) \<Longrightarrow> client_ip a t = client_ip b t"
  by (simp only: client_ip_def)

lemma scheme_of_cong:
  "rq_tls a = rq_tls b \<Longrightarrow>
   header_get ''X-Forwarded-Proto'' (rq_header a) = header_get ''X-Forwarded-Proto'' (rq_header b) \<Longrightarrow>
   scheme_of a = scheme_of b"
  by (simp add: scheme_of_def)

lemma direct_to_header:
  "rq_header (direct_to trust u req) =
     header_set ''X-Real-IP'' (client_ip req trust)
       (header_set ''X-Forwarded-Proto'' (scheme_of req)
         (header_set ''X-Forwarded-Host'' (rq_host req) (rq_header req)))"
proof -
  define req1 where "req1 = req\<lparr>rq_url := rq_url (direct_to trust u req),
      rq_header := header_set ''X-Forwarded-Host'' (rq_host req) (rq_header req)\<rparr>"
  have sch: "scheme_of req1 = scheme_of req"
    by (rule scheme_of_cong) (simp_all add: req1_def header_get_set canonical_consts)
  define req2 where "req2 = req1\<lparr>rq_header := header_set ''X-Forwarded-Proto'' (scheme_of req) (rq_header req1)\<rparr>"
  have ip: "client_ip req2 trust = client_ip req trust"
    by (rule client_ip_cong) (simp_all add: req2_def req1_def header_get_set canonical_consts)
  show ?thesis
    using sch ip by (simp add: direct_to_def Let_def req2_def req1_def)
qed

text \<open>
  C29: the identity headers an upstream sees. Unless the client's own \<open>Connection\<close> header
  names them, the request to the upstream carries exactly one \<open>X-Real-Ip\<close>, the client address
  the proxy determined, one \<open>X-Forwarded-Host\<close>, the requested host, and one
  \<open>X-Forwarded-Proto\<close>, the scheme as \<open>schemeOf\<close> gives it; a header the client names in
  \<open>Connection\<close> does not reach the upstream at all.\<close>
theorem identity_headers:
  assumes "prepare_out req (direct_to trust u req) = Some out1" "gm_ok (rq_header req)"
  shows "header_values ''X-Real-Ip'' (rq_header out1) =
      (if withdrawn ''X-Real-Ip'' req then [] else [client_ip req trust]) \<and>
    header_values ''X-Forwarded-Host'' (rq_header out1) =
      (if withdrawn ''X-Forwarded-Host'' req then [] else [rq_host req]) \<and>
    header_values ''X-Forwarded-Proto'' (rq_header out1) =
      (if withdrawn ''X-Forwarded-Proto'' req then [] else [scheme_of req])"
proof -
  let ?h = "rq_header (direct_to trust u req)"
  have out1: "rq_header out1 = prepare_header req ?h"
    using assms(1) by (auto simp: prepare_out_def split: if_splits)
  have ok: "gm_ok ?h" by (simp add: direct_to_header header_ok assms(2))
  have "header_values ''Connection'' ?h = header_values ''Connection'' (rq_header req)"
    by (simp add: direct_to_header header_values_set canonical_consts)
  then have named: "connection_named ?h = connection_named (rq_header req)"
    by (simp add: connection_named_def)
  have gen: "header_values k (rq_header out1) = (if withdrawn k req then [] else header_values k ?h)"
    if "k \<notin> set readded" "k \<notin> set hop_headers" for k
    using that by (simp add: out1 prepare_header_values [OF ok] remove_hop_values [OF ok] named withdrawn_def)
  have "header_values ''X-Real-Ip'' ?h = [client_ip req trust]" "header_values ''X-Forwarded-Host'' ?h = [rq_host req]"
    "header_values ''X-Forwarded-Proto'' ?h = [scheme_of req]"
    by (simp_all add: direct_to_header header_values_set canonical_consts)
  then show ?thesis by (simp add: gen readded_def hop_headers_def)
qed

definition spoofing_request :: request where
  "spoofing_request =
     sample_request\<lparr>rq_header := [(''Connection'', [''x-real-ip'']), (''X-Forwarded-Proto'', [''https''])]\<rparr>"

theorem identity_headers_witness:
  "\<exists>out1. prepare_out spoofing_request (direct_to False (sample_url ''a:1'') spoofing_request) = Some out1 \<and>
     header_values ''X-Real-Ip'' (rq_header out1) = [] \<and>
     header_values ''X-Forwarded-Proto'' (rq_header out1) = [''https'']"
proof -
  have "prepare_out spoofing_request (direct_to False (sample_url ''a:1'') spoofing_request) \<noteq> None" by code_simp
  then obtain out1 where o1: "prepare_out spoofing_request (direct_to False (sample_url ''a:1'') spoofing_request) = Some out1"
    by blast
  have ok: "gm_ok (rq_header spoofing_request)" by (simp add: spoofing_request_def gm_ok_def)
  have "withdrawn ''X-Real-Ip'' spoofing_request" "\<not> withdrawn ''X-Forwarded-Proto'' spoofing_request"
    "scheme_of spoofing_request = ''https''" by code_simp+
  with identity_headers [OF o1 ok] o1 show ?thesis by simp
qed

subsection \<open>Hop-by-hop headers and the chain of hops\<close>

definition identity_names :: "string list" where
  "identity_names = [''X-Real-Ip'', ''X-Forwarded-Host'', ''X-Forwarded-Proto'']"

lemma direct_to_values:
  "k \<notin> set identity_names \<Longrightarrow> header_values k (rq_header (direct_to trust u req)) = header_values k (rq_header req)"
  by (simp add: direct_to_header header_values_set canonical_consts identity_names_def)

lemma direct_to_ok: "gm_ok (rq_header req) \<Longrightarrow> gm_ok (rq_header (direct_to trust u req))"
  by (simp add: direct_to_header header_ok)

lemma direct_to_named: "connection_named (rq_header (direct_to trust u req)) = connection_named (rq_header req)"
  by (simp add: connection_named_def direct_to_values identity_names_def)



text \<open>
  The last hop of \<open>X-Forwarded-For\<close> is the peer. When the peer's address is well formed,
  the request sent upstream carries a single \<open>X-Forwarded-For\<close> value, the client's own values
  (unless its \<open>Connection\<close> header withdrew them) followed by the address the connection
  really came from: a client can prepend hops but cannot forge or drop the last one.\<close>
lemma forwarded_for_last_hop:
  assumes "prepare_out req (direct_to trust u req) = Some out1" "gm_ok (rq_header req)"
    and "split_host_port (rq_remote req) = Some (ip, port)"
  shows "header_values ''X-Forwarded-For'' (rq_header out1) =
    [concat (map (\<lambda>v. v @ '', '')
       (if withdrawn ''X-Forwarded-For'' req then [] else header_values ''X-Forwarded-For'' (rq_header req))) @ ip]"
  using prepare_forwarded_for [OF assms(1) direct_to_ok [OF assms(2)] assms(3)]
  by (simp add: remove_hop_values direct_to_ok assms(2) direct_to_values direct_to_named identity_names_def
      hop_headers_def withdrawn_def)

lemma forwarded_for_last_hop_witness:
  "\<exists>out1. prepare_out sample_request (direct_to False (sample_url ''a:1'') sample_request) = Some out1 \<and>
     header_values ''X-Forwarded-For'' (rq_header out1) = [''1.1.1.1, 10.0.0.9'']"
proof -
  have "prepare_out sample_request (direct_to False (sample_url ''a:1'') sample_request) \<noteq> None" by code_simp
  then obtain out1 where o1: "prepare_out sample_request (direct_to False (sample_url ''a:1'') sample_request) = Some out1"
    by blast
  have s: "split_host_port (rq_remote sample_request) = Some (''10.0.0.9'', ''4711'')" by code_simp
  have "concat (map (\<lambda>v. v @ '', '') (if withdrawn ''X-Forwarded-For'' sample_request then []
      else header_values ''X-Forwarded-For'' (rq_header sample_request))) = ''1.1.1.1, ''"
    by code_simp
  with forwarded_for_last_hop [OF o1 sample_request_ok s] o1 show ?thesis by simp
qed

end
