(* ===== verification/Site_Limit.thy ===== *)
theory Site_Limit
  imports Serving
begin

section \<open>The rate limit of a site, through the whole request path\<close>

text \<open>
  The token bucket's bound lifted to the router: the limiter of a site sees exactly the
  requests that pass the refusals of that site, in order, whatever else the router serves
  in between.
\<close>

definition visit_request :: "visit \<Rightarrow> request" where
  "visit_request v = (case v of (tr, tk, w, req) \<Rightarrow> req)"

definition visit_key :: "bool \<Rightarrow> visit \<Rightarrow> string \<times> int" where
  "visit_key trust v = (case v of (tr, tk, w, req) \<Rightarrow> (client_ip req trust, tk_now tk))"

text \<open>The runtime a request gets to, if it is not refused before.\<close>

definition reaches :: "router \<Rightarrow> request \<Rightarrow> nat option" where
  "reaches r req =
     (if ro_stopping r then None
      else (case lookup_site (ro_store r) (rq_host req) of
              None \<Rightarrow> None
            | Some s \<Rightarrow>
                if s_http_to_https s \<and> \<not> rq_tls req then None
                else if s_block_exploits s \<and> (common_exploit (ru_path (rq_url req)) \<or> scanner_ua (user_agent req))
                then None
                else gm_get (ro_runtimes r) (s_domain s)))"

lemma reaches_Some:
  assumes "reaches r req = Some i"
  obtains s where "lookup_site (ro_store r) (rq_host req) = Some s"
    "gm_get (ro_runtimes r) (s_domain s) = Some i"
    "\<And>tr tk w. serve_http tr tk w req r = serve_runtime tr tk w req (s_domain s) i r"
proof -
  obtain s where s: "lookup_site (ro_store r) (rq_host req) = Some s" "\<not> ro_stopping r"
      "\<not> (s_http_to_https s \<and> \<not> rq_tls req)"
      "\<not> (s_block_exploits s \<and> (common_exploit (ru_path (rq_url req)) \<or> scanner_ua (user_agent req)))"
      "gm_get (ro_runtimes r) (s_domain s) = Some i"
    using assms by (auto simp: reaches_def split: if_splits option.splits)
  then have "serve_http tr tk w req r = serve_runtime tr tk w req (s_domain s) i r" for tr tk w
    by (auto simp: serve_http_def)
  with s(1,5) that show ?thesis by blast
qed

lemma reaches_None: "reaches r req = None \<Longrightarrow> snd (serve_http tr tk w req r) = r"
  by (auto simp: reaches_def serve_http_def split: if_splits option.splits)

lemma reaches_shape: "same_shape r r' \<Longrightarrow> reaches r' req = reaches r req"
  unfolding reaches_def same_shape_def by (elim conjE) (simp only:)

subsection \<open>One step of a site's limiter\<close>

definition limiter_at :: "router \<Rightarrow> nat \<Rightarrow> limiter option" where
  "limiter_at r i = rn_limiter (ro_heap r ! i)"

lemma limiter_at_set_runtime:
  "i < length (ro_heap r) \<Longrightarrow> limiter_at (set_runtime j rt r) i = (if i = j then rn_limiter rt else limiter_at r i)"
  by (simp add: limiter_at_def set_runtime_def nth_list_update)

lemma limiter_at_finish: "limiter_at (snd (finish d st b tk w r)) i = limiter_at r i"
  by (auto simp: finish_def record_metric_def limiter_at_def split: option.split)

lemma limiter_at_proxy:
  assumes "i < length (ro_heap r)"
  shows "limiter_at (snd (proxy_request tr tk w req d j r)) i = limiter_at r i"
proof -
  have "limiter_at (set_runtime j ((ro_heap r ! j)\<lparr>rn_pool := p\<rparr>) r) i = limiter_at r i" for p
    by (simp add: limiter_at_set_runtime [OF assms]) (simp add: limiter_at_def)
  then show ?thesis
    by (simp add: proxy_request_def Let_def limiter_at_finish split: prod.split exchange.split)
qed

lemma limiter_at_serve_runtime:
  assumes "i < length (ro_heap r)"
  shows "limiter_at (snd (serve_runtime tr tk w req d j r)) i =
    (if i = j then snd (allow (client_ip req (ro_trust r), tk_now tk) (limiter_at r i)) else limiter_at r i)"
proof -
  obtain ok l1 where al: "allow (client_ip req (ro_trust r), tk_now tk) (rn_limiter (ro_heap r ! j)) = (ok, l1)"
    by (cases "allow (client_ip req (ro_trust r), tk_now tk) (rn_limiter (ro_heap r ! j))")
  let ?r1 = "set_runtime j ((ro_heap r ! j)\<lparr>rn_limiter := l1\<rparr>) r"
  have len: "i < length (ro_heap ?r1)" using assms by (simp add: set_runtime_def)
  have "limiter_at (snd (serve_runtime tr tk w req d j r)) i = limiter_at ?r1 i"
    using limiter_at_proxy [OF len] by (simp add: serve_runtime_def al Let_def limiter_at_finish)
  then show ?thesis
    using al by (simp add: limiter_at_set_runtime [OF assms]) (simp add: limiter_at_def)
qed

lemma limiter_at_serve_step:
  assumes "i < length (ro_heap r)"
  shows "limiter_at (snd (serve_step v r)) i =
    (if reaches r (visit_request v) = Some i then snd (allow (visit_key (ro_trust r) v) (limiter_at r i))
     else limiter_at r i)"
proof -
  obtain tr tk w req where v: "v = (tr, tk, w, req)" by (cases v)
  show ?thesis
  proof (cases "reaches r req")
    case None
    with reaches_None [OF this] show ?thesis by (simp add: v serve_step_def visit_request_def)
  next
    case (Some j)
    show ?thesis
      by (rule reaches_Some [OF Some])
        (use Some limiter_at_serve_runtime [OF assms] in
          \<open>auto simp: v serve_step_def visit_request_def visit_key_def\<close>)
  qed
qed

subsection \<open>Runs\<close>

text \<open>The limiter's decisions on the requests that reach a runtime, along a run.\<close>

fun verdicts :: "nat \<Rightarrow> visit list \<Rightarrow> router \<Rightarrow> bool list" where
  "verdicts i [] r = []"
| "verdicts i (v # vs) r =
     (if reaches r (visit_request v) = Some i then [fst (allow (visit_key (ro_trust r) v) (limiter_at r i))] else [])
     @ verdicts i vs (snd (serve_step v r))"

definition arrivals :: "nat \<Rightarrow> visit list \<Rightarrow> router \<Rightarrow> (string \<times> int) list" where
  "arrivals i vs r = map (visit_key (ro_trust r)) (filter (\<lambda>v. reaches r (visit_request v) = Some i) vs)"

lemma serve_step_shape: "same_shape r (snd (serve_step v r))"
  using serve_http_shape by (auto simp: serve_step_def split: prod.split)

lemma arrivals_shape: "same_shape r r' \<Longrightarrow> arrivals i vs r' = arrivals i vs r"
proof -
  assume s: "same_shape r r'"
  then have "ro_trust r' = ro_trust r" by (simp add: same_shape_def)
  then show ?thesis by (simp add: arrivals_def reaches_shape [OF s])
qed

lemma heap_length_shape: "same_shape r r' \<Longrightarrow> length (ro_heap r') = length (ro_heap r)"
  by (auto simp: same_shape_def dest: map_eq_imp_length_eq)

lemma arrivals_Cons:
  "arrivals i (v # vs) r =
     (if reaches r (visit_request v) = Some i then [visit_key (ro_trust r) v] else []) @ arrivals i vs r"
  by (simp add: arrivals_def)

lemma limiter_along_run:
  "i < length (ro_heap r) \<Longrightarrow>
     verdicts i vs r = fst (run_outputs allow (arrivals i vs r) (limiter_at r i)) \<and>
     limiter_at (snd (run_outputs serve_step vs r)) i = snd (run_outputs allow (arrivals i vs r) (limiter_at r i))"
proof (induction vs arbitrary: r)
  case Nil
  then show ?case by (simp add: arrivals_def)
next
  case (Cons v vs)
  note step = serve_step_shape [of r v]
  have "i < length (ro_heap (snd (serve_step v r)))" using Cons.prems heap_length_shape [OF step] by simp
  from Cons.IH [OF this] show ?case
    by (simp add: limiter_at_serve_step [OF Cons.prems] arrivals_shape [OF step] arrivals_Cons)
qed

lemma allow_run:
  "run_outputs allow reqs (Some l) =
     (fst (run_outputs limiter_allow reqs l), Some (snd (run_outputs limiter_allow reqs l)))"
proof (induction reqs arbitrary: l)
  case (Cons q reqs)
  have "allow q (Some l) = (fst (limiter_allow q l), Some (snd (limiter_allow q l)))"
    by (simp add: allow_def split: prod.split)
  with Cons show ?case by (intro prod_eqI) simp_all
qed simp

lemma install_own:
  assumes "s \<in> set ss" "s_enabled s" "new_pool (s_upstreams s) = Some p" "no_clash ss s"
  obtains i where "gm_get (ro_runtimes (install ss r0)) (s_domain s) = Some i" "i < length (ro_heap (install ss r0))"
    "ro_heap (install ss r0) ! i = make_runtime s p"
proof -
  obtain i where i: "gm_get (ro_runtimes (install ss r0)) (s_domain s) = Some i" "i < length (ro_heap (install ss r0))"
    using consistent_own [OF install_consistent assms] by blast
  have "runtime_of (install ss r0) (s_domain s) = Some (make_runtime s p)"
    by (simp add: install_def runtime_of_reload own_runtime [OF assms])
  with i that show ?thesis by (simp add: runtime_of_def)
qed

text \<open>
  A site's rate limit holds end to end. After a reload, take any run of requests to any
  sites, and any window of requests after it: of those of one client that get past the
  refusals of a rate-limited site, at most burst plus rate times the length of the window
  are admitted to its upstreams, whatever else is served meanwhile.\<close>
lemma site_rate_bound:
  assumes "s \<in> set ss" "s_enabled s" "new_pool (s_upstreams s) = Some p" "no_clash ss s"
    and "s_rate_limit s = \<lparr>rl_enabled = True, rl_rps = rps, rl_burst = burst\<rparr>" "0 < rps" "rps + max burst 0 < 2 ^ 63"
    and "gm_get (ro_runtimes (install ss r0)) (s_domain s) = Some i"
    and "r = snd (run_outputs serve_step before (install ss r0))"
    and "ts = times_of k (arrivals i window r)" "ts \<noteq> []"
    and "outs = decisions_of k (arrivals i window r) (verdicts i window r)"
    and "last outs \<or> sorted (times_of k (arrivals i (before @ window) (install ss r0)))"
  shows "of_nat (count_list outs True) \<le>
    (of_int (rps + max burst 0) + of_int rps * of_int (last ts - hd ts) / 10 ^ 9 :: rat)"
proof -
  let ?r0 = "install ss r0"
  obtain l0 where l0: "new_limiter rps burst = Some l0" using assms(6) by (simp add: new_limiter_def)
  obtain j where j: "gm_get (ro_runtimes ?r0) (s_domain s) = Some j" "j < length (ro_heap ?r0)"
      "ro_heap ?r0 ! j = make_runtime s p"
    by (rule install_own [OF assms(1-4)])
  then have ij: "j = i" using assms(8) by simp
  have lim0: "limiter_at ?r0 i = Some l0"
    using j(3) ij assms(5) l0 by (simp add: limiter_at_def make_runtime_def)
  have shape: "same_shape ?r0 r"
    unfolding assms(9)
    by (induction before arbitrary: r0 rule: rev_induct)
      (auto simp: run_outputs_append intro: same_shape_trans serve_step_shape)
  have len: "i < length (ro_heap r)" using j(2) ij heap_length_shape [OF shape] by simp
  let ?l = "snd (run_outputs limiter_allow (arrivals i before ?r0) l0)"
  have lim: "limiter_at r i = Some ?l"
    using limiter_along_run [of i ?r0 before] j(2) ij by (simp add: assms(9) lim0 allow_run)
  have "verdicts i window r = fst (run_outputs limiter_allow (arrivals i window r) ?l)"
    using limiter_along_run [OF len, of window] by (simp add: lim allow_run)
  then have outs: "outs = decisions_of k (arrivals i window r)
      (fst (run_outputs limiter_allow (arrivals i window r) ?l))"
    by (simp add: assms(12))
  have "arrivals i (before @ window) ?r0 = arrivals i before ?r0 @ arrivals i window r"
    using arrivals_shape [OF shape] by (simp add: arrivals_def)
  with assms(13) have "last outs \<or> sorted (times_of k (arrivals i before ?r0 @ arrivals i window r))" by simp
  from limiter_bound [OF l0 assms(7) refl assms(10,11) outs this] show ?thesis .
qed

definition limited_site :: site where
  "limited_site =
     (plain_site ''x'' [] ''a:1'')\<lparr>s_rate_limit := \<lparr>rl_enabled = True, rl_rps = 2, rl_burst = 1\<rparr>\<rparr>"

definition knock :: "int \<Rightarrow> visit" where
  "knock t = (echo_host, noon\<lparr>tk_now := t\<rparr>, fresh_writer, host_request ''x'')"

lemma site_rate_bound_witness:
  "of_nat (count_list (verdicts 0 [knock 0, knock 1, knock 2, knock 3, knock 4] (install [limited_site] start_router)) True)
     \<le> (of_int (2 + max 1 0) + of_int 2 * of_int (4 - 0) / 10 ^ 9 :: rat)"
proof -
  let ?vs = "[knock 0, knock 1, knock 2, knock 3, knock 4]" and ?r = "install [limited_site] start_router"
  have p: "new_pool (s_upstreams limited_site) = Some \<lparr>p_urls = [sample_url ''a:1''], p_next = 0\<rparr>" by code_simp
  have n: "no_clash [limited_site] limited_site" by code_simp
  have s: "limited_site \<in> set [limited_site]" "s_enabled limited_site" by code_simp+
  have l: "s_rate_limit limited_site = \<lparr>rl_enabled = True, rl_rps = 2, rl_burst = 1\<rparr>" by code_simp
  have b: "(0 :: int) < 2" "2 + max 1 0 < (2 :: int) ^ 63" by simp_all
  have i: "gm_get (ro_runtimes ?r) (s_domain limited_site) = Some 0" by code_simp
  have r: "?r = snd (run_outputs serve_step [] ?r)" by simp
  have a: "arrivals 0 ?vs ?r = map (\<lambda>t. (''10.0.0.9'', t)) [0, 1, 2, 3, 4]" by code_simp
  have len: "length (verdicts 0 ?vs ?r) = 5" by code_simp
  have ts: "[0, 1, 2, 3, 4] = times_of ''10.0.0.9'' (arrivals 0 ?vs ?r)" by (simp add: a times_of_def)
  have outs: "verdicts 0 ?vs ?r = decisions_of ''10.0.0.9'' (arrivals 0 ?vs ?r) (verdicts 0 ?vs ?r)"
    using len by (simp add: a decisions_of_own)
  have "sorted (times_of ''10.0.0.9'' (arrivals 0 ([] @ ?vs) ?r))" by (simp add: a times_of_def)
  then show ?thesis
    using site_rate_bound [OF s p n l b i r ts _ outs] by simp
qed

text \<open>
  A request over the limit is turned away cheaply. When the limiter of the runtime a
  request reaches refuses its client, the answer is 429 whatever the upstream side would
  have said, no upstream turn is taken, and every other site's runtime is as before.\<close>
lemma over_limit_refused:
  assumes "reaches r req = Some i" "i < length (ro_heap r)" "0 \<le> tk_sec tk"
    and "\<not> fst (allow (client_ip req (ro_trust r), tk_now tk) (limiter_at r i))"
  shows "\<exists>w' r'. w_status w' = Some 429 \<and> (\<forall>tr. serve_http tr tk fresh_writer req r = (Finished w', r')) \<and>
    map rn_pool (ro_heap r') = map rn_pool (ro_heap r) \<and> (\<forall>j. j \<noteq> i \<longrightarrow> ro_heap r' ! j = ro_heap r ! j)"
  using assms(1)
proof (rule reaches_Some)
  fix s assume serve: "\<And>tr tk w. serve_http tr tk w req r = serve_runtime tr tk w req (s_domain s) i r"
  obtain l1 where al: "allow (client_ip req (ro_trust r), tk_now tk) (rn_limiter (ro_heap r ! i)) = (False, l1)"
    using assms(4) by (cases "allow (client_ip req (ro_trust r), tk_now tk) (rn_limiter (ro_heap r ! i))")
      (simp add: limiter_at_def)
  let ?r1 = "set_runtime i ((ro_heap r ! i)\<lparr>rn_limiter := l1\<rparr>) r"
  let ?sm = "\<lparr>sm_status = 429, sm_bytes = 0, sm_latency = tk_latency tk\<rparr>"
  have "registry_record (s_domain s) (tk_sec tk) ?sm (ro_registry ?r1) \<noteq> None"
    by (simp add: registry_record_def record_sample_def record_locked_def bucket_index_nonneg assms(3)
        case_prod_beta)
  then obtain reg where reg: "registry_record (s_domain s) (tk_sec tk) ?sm (ro_registry ?r1) = Some reg" by blast
  let ?w = "http_error ''Too Many Requests'' 429 fresh_writer" and ?r' = "?r1\<lparr>ro_registry := reg\<rparr>"
  have "serve_http tr tk fresh_writer req r = (Finished ?w, ?r')" for tr
    using reg by (simp add: serve serve_runtime_def al Let_def finish_def record_metric_def)
  moreover have "w_status ?w = Some 429" by (simp add: http_error_status body_allowed_def)
  moreover have "map rn_pool (ro_heap ?r') = map rn_pool (ro_heap r)"
    using assms(2) by (simp add: set_runtime_def map_update) (metis list_update_id map_update nth_map)
  moreover have "\<forall>j. j \<noteq> i \<longrightarrow> ro_heap ?r' ! j = ro_heap r ! j" by (simp add: set_runtime_def)
  ultimately show ?thesis by blast
qed

lemma over_limit_refused_witness:
  "\<exists>w' r'. w_status w' = Some 429 \<and>
     serve_http echo_host noon fresh_writer (host_request ''x'')
       (snd (run_outputs serve_step [knock 0, knock 0, knock 0] (install [limited_site] start_router))) =
       (Finished w', r')"
proof -
  let ?r = "snd (run_outputs serve_step [knock 0, knock 0, knock 0] (install [limited_site] start_router))"
  have "reaches ?r (host_request ''x'') = Some 0" "0 < length (ro_heap ?r)" "0 \<le> tk_sec noon"
    "\<not> fst (allow (client_ip (host_request ''x'') (ro_trust ?r), tk_now noon) (limiter_at ?r 0))" by code_simp+
  from over_limit_refused [OF this] show ?thesis by blast
qed

end
