(* ===== verification/Overlap.thy ===== *)
theory Overlap
  imports Site_Limit System
begin

section \<open>Requests that overlap with each other and with reloads\<close>

text \<open>
  \<open>ServeHTTP\<close> of \<open>internal/proxy/router.go\<close> in parts. A request reads the stopping flag, the
  store, the map of runtimes, the limiter of its runtime, the position of its pool, the answer
  of the upstream and the metrics registry, each under its own lock or as one atomic
  operation; between any two of these other requests, the replacement of the store, the
  publication of new runtimes, the pruning of the metrics and the stop of the router can come.
  A request keeps the site it looked up and the runtime it found. Runtimes that are no longer
  in the map stay in the heap, as they do for Go's garbage collector while a request holds
  them.
\<close>

subsection \<open>One request in parts\<close>

datatype flight =
    Arrived | Accepted | Routed site | Holding site nat | Over_Limit site | Admitted site nat
  | Outbound site nat request | Answered site int int writer | Landed outcome

definition check_site :: "request \<Rightarrow> writer \<Rightarrow> site option \<Rightarrow> flight" where
  "check_site req w found =
     (case found of
        None \<Rightarrow> Landed (Finished (http_error (''No site configured for '' @ sanitize_host_for_log (rq_host req)) 404 w))
      | Some s \<Rightarrow>
          if s_http_to_https s \<and> \<not> rq_tls req then
            Landed (Finished (http_redirect (rq_method req) (''https://'' @ rq_host req @ request_uri (rq_url req))
              301 ''Moved Permanently'' w))
          else if s_block_exploits s \<and> (common_exploit (ru_path (rq_url req)) \<or> scanner_ua (user_agent req)) then
            Landed (Finished (http_error ''Forbidden'' 403 w))
          else Routed s)"

definition land :: "outcome \<times> router \<Rightarrow> flight \<times> router" where
  "land x = (Landed (fst x), snd x)"

definition flight_step :: "visit \<Rightarrow> flight \<Rightarrow> router \<Rightarrow> flight \<times> router" where
  "flight_step v f r =
     (case v of (tr, tk, w, req) \<Rightarrow>
        (case f of
           Arrived \<Rightarrow>
             (if ro_stopping r then Landed (Finished (http_error ''Service Unavailable'' 503 w)) else Accepted, r)
         | Accepted \<Rightarrow> (check_site req w (lookup_site (ro_store r) (rq_host req)), r)
         | Routed s \<Rightarrow>
             (case gm_get (ro_runtimes r) (s_domain s) of
                None \<Rightarrow> (Landed (Finished (http_error ''Service Unavailable'' 503 w)), r)
              | Some i \<Rightarrow> (Holding s i, r))
         | Holding s i \<Rightarrow>
             (let (ok, l1) = allow (client_ip req (ro_trust r), tk_now tk) (limiter_at r i)
              in (if ok then Admitted s i else Over_Limit s, set_runtime i ((ro_heap r ! i)\<lparr>rn_limiter := l1\<rparr>) r))
         | Over_Limit s \<Rightarrow> land (finish (s_domain s) 429 0 tk (http_error ''Too Many Requests'' 429 w) r)
         | Admitted s i \<Rightarrow>
             (let (out, p1) = director (ro_trust r) (rn_pool (ro_heap r ! i)) req
              in (Outbound s i out, set_runtime i ((ro_heap r ! i)\<lparr>rn_pool := p1\<rparr>) r))
         | Outbound s i out \<Rightarrow>
             (case proxy_serve (modify_response (s_custom_headers (rn_site (ro_heap r ! i)))) tr req out
                     (new_counting w) of
                Served c \<Rightarrow> (Answered s (c_status c) (c_bytes c) (c_writer c), r)
              | Aborted c \<Rightarrow> (Landed (Panicked (c_writer c)), r))
         | Answered s st b w1 \<Rightarrow> land (finish (s_domain s) st b tk w1 r)
         | Landed out \<Rightarrow> (f, r)))"

fun flight_steps :: "nat \<Rightarrow> visit \<Rightarrow> flight \<times> router \<Rightarrow> flight \<times> router" where
  "flight_steps 0 v x = x"
| "flight_steps (Suc n) v x = flight_steps n v (flight_step v (fst x) (snd x))"

lemma landed_stays: "flight_steps n v (Landed out, r) = (Landed out, r)"
  by (induction n) (simp_all add: flight_step_def split: prod.split)

lemma land_simps: "land (a, b) = (Landed a, b)"
  by (simp add: land_def)

lemma flight_from_admitted:
  assumes "i < length (ro_heap r)"
  shows "flight_steps 3 (tr, tk, w, req) (Admitted s i, r) = land (proxy_request tr tk w req (s_domain s) i r)"
  using assms
  by (simp add: numeral_3_eq_3 flight_step_def proxy_request_def Let_def land_def set_runtime_def
      split: prod.split exchange.split)

lemma flight_steps_add: "flight_steps (m + n) v x = flight_steps n v (flight_steps m v x)"
  by (induction m arbitrary: x) simp_all

lemma flight_from_holding:
  assumes "i < length (ro_heap r)"
  shows "flight_steps 4 (tr, tk, w, req) (Holding s i, r) = land (serve_runtime tr tk w req (s_domain s) i r)"
proof -
  let ?v = "(tr, tk, w, req)"
  obtain ok l1 where al: "allow (client_ip req (ro_trust r), tk_now tk) (rn_limiter (ro_heap r ! i)) = (ok, l1)"
    by (cases "allow (client_ip req (ro_trust r), tk_now tk) (rn_limiter (ro_heap r ! i))")
  let ?r1 = "set_runtime i ((ro_heap r ! i)\<lparr>rn_limiter := l1\<rparr>) r"
  have one: "flight_steps 1 ?v (Holding s i, r) = (if ok then Admitted s i else Over_Limit s, ?r1)"
    by (simp add: flight_step_def limiter_at_def al)
  have len: "i < length (ro_heap ?r1)" using assms by (simp add: set_runtime_def)
  have "flight_steps (1 + 3) ?v (Holding s i, r) = land (serve_runtime tr tk w req (s_domain s) i r)"
  proof (cases ok)
    case True
    with flight_from_admitted [OF len, of tr tk w req s] one show ?thesis
      by (simp only: flight_steps_add) (simp add: serve_runtime_def al Let_def)
  next
    case False
    have "flight_steps 3 ?v (Over_Limit s, ?r1) = land (finish (s_domain s) 429 0 tk (http_error ''Too Many Requests'' 429 w) ?r1)"
      by (simp add: numeral_3_eq_3 flight_step_def land_def)
    with False one show ?thesis
      by (simp only: flight_steps_add) (simp add: serve_runtime_def al Let_def)
  qed
  then show ?thesis by simp
qed


subsection \<open>Many requests, and what comes between\<close>

record traffic =
  tf_router :: router
  tf_flights :: "(visit \<times> flight) list"

datatype traffic_event =
  Advance_Request nat | Request_Arrives visit | Replace_Store "site list" | Publish_Runtimes "site list"
  | Prune_Metrics "site list" | Stop_Serving

text \<open>The runtimes of a list are allocated behind those that requests may still hold.\<close>

definition republish :: "site list \<Rightarrow> router \<Rightarrow> router" where
  "republish sites r =
     (let (heap, next) = fold add_runtime sites (ro_heap r, gm_empty)
      in r\<lparr>ro_heap := heap, ro_runtimes := next\<rparr>)"

definition traffic_step :: "traffic_event \<Rightarrow> traffic \<Rightarrow> traffic" where
  "traffic_step ev w =
     (case ev of
        Advance_Request k \<Rightarrow>
          (if length (tf_flights w) \<le> k then w
           else (let (v, f) = tf_flights w ! k; (f1, r) = flight_step v f (tf_router w)
                 in w\<lparr>tf_router := r, tf_flights := (tf_flights w)[k := (v, f1)]\<rparr>))
      | Request_Arrives v \<Rightarrow> w\<lparr>tf_flights := tf_flights w @ [(v, Arrived)]\<rparr>
      | Replace_Store ss \<Rightarrow>
          w\<lparr>tf_router := (tf_router w)\<lparr>ro_store := replace_sites ss (ro_store (tf_router w))\<rparr>\<rparr>
      | Publish_Runtimes ss \<Rightarrow> w\<lparr>tf_router := republish ss (tf_router w)\<rparr>
      | Prune_Metrics ss \<Rightarrow>
          w\<lparr>tf_router := (tf_router w)\<lparr>ro_registry := prune (keeps ss) (ro_registry (tf_router w))\<rparr>\<rparr>
      | Stop_Serving \<Rightarrow> w\<lparr>tf_router := stop (tf_router w)\<rparr>)"

definition traffic_run :: "traffic_event list \<Rightarrow> traffic \<Rightarrow> traffic" where
  "traffic_run evs w = fold traffic_step evs w"

text \<open>The lists that a sequence of events puts into the store, and into the map of runtimes.\<close>

definition stored_lists :: "traffic_event list \<Rightarrow> site list list" where
  "stored_lists evs = concat (map (\<lambda>ev. case ev of Replace_Store ss \<Rightarrow> [ss] | _ \<Rightarrow> []) evs)"

definition published_lists :: "traffic_event list \<Rightarrow> site list list" where
  "published_lists evs = concat (map (\<lambda>ev. case ev of Publish_Runtimes ss \<Rightarrow> [ss] | _ \<Rightarrow> []) evs)"

subsection \<open>Publication\<close>

lemma fold_add_runtime_from:
  "heap_ok (fold add_runtime ss (h, gm_empty)) \<and>
   at_name (fold add_runtime ss (h, gm_empty)) d = runtime_spec ss d \<and>
   take (length h) (fst (fold add_runtime ss (h, gm_empty))) = h \<and>
   length h \<le> length (fst (fold add_runtime ss (h, gm_empty)))"
proof (induction ss rule: rev_induct)
  case Nil
  then show ?case by (simp add: heap_ok_def at_name_def runtime_spec_def)
next
  case (snoc s ss)
  let ?hm = "fold add_runtime ss (h, gm_empty)"
  have "fst (add_runtime s ?hm) = fst ?hm \<or> (\<exists>x. fst (add_runtime s ?hm) = fst ?hm @ [x])"
    by (auto simp: add_runtime_def split: option.split)
  then show ?case using snoc by (auto simp: add_runtime_step runtime_spec_def)
qed

lemma republish_fields:
  "ro_store (republish ss r) = ro_store r" "ro_registry (republish ss r) = ro_registry r"
  "ro_trust (republish ss r) = ro_trust r" "ro_stopping (republish ss r) = ro_stopping r"
  "(ro_heap (republish ss r), ro_runtimes (republish ss r)) = fold add_runtime ss (ro_heap r, gm_empty)"
  by (simp_all add: republish_def Let_def split: prod.split)

text \<open>Through its map of names the router is the one that \<open>Reload\<close> gives.\<close>

lemma runtime_of_republish: "runtime_of (republish ss r) d = runtime_of (reload ss r) d"
proof -
  have "runtime_of (republish ss r) d = at_name (ro_heap (republish ss r), ro_runtimes (republish ss r)) d"
    by (simp add: runtime_of_def at_name_def)
  then show ?thesis by (simp only: republish_fields(5) fold_add_runtime_from runtime_of_reload)
qed

lemma republish_heap:
  "heap_ok (ro_heap (republish ss r), ro_runtimes (republish ss r))"
  "length (ro_heap r) \<le> length (ro_heap (republish ss r))"
  "i < length (ro_heap r) \<Longrightarrow> ro_heap (republish ss r) ! i = ro_heap r ! i"
proof -
  have f: "fst (fold add_runtime ss (ro_heap r, gm_empty)) = ro_heap (republish ss r)"
    using republish_fields(5) by (metis fst_conv)
  note h = fold_add_runtime_from [of ss "ro_heap r"]
  show "heap_ok (ro_heap (republish ss r), ro_runtimes (republish ss r))" using h by (simp only: republish_fields(5))
  show "length (ro_heap r) \<le> length (ro_heap (republish ss r))" using h f by simp
  show "i < length (ro_heap r) \<Longrightarrow> ro_heap (republish ss r) ! i = ro_heap r ! i"
    using h f by (metis nth_take)
qed

text \<open>The map of runtimes belongs to a list.\<close>

definition runs_list :: "site list \<Rightarrow> router \<Rightarrow> bool" where
  "runs_list B r \<longleftrightarrow> (\<forall>d. map_option shape (runtime_of r d) = map_option shape (runtime_spec B d))"

lemma consistent_runs:
  "consistent B (r\<lparr>ro_store := replace_sites B st\<rparr>) \<longleftrightarrow> heap_ok (ro_heap r, ro_runtimes r) \<and> runs_list B r"
  by (simp add: consistent_def runs_list_def store.lookup_replace runtime_of_def)

lemma runs_list_shape:
  assumes "same_shape r r'" "heap_ok (ro_heap r, ro_runtimes r)" "runs_list B r"
  shows "heap_ok (ro_heap r', ro_runtimes r')" "runs_list B r'"
proof -
  let ?st = "replace_sites B new_store"
  have "same_shape (r\<lparr>ro_store := ?st\<rparr>) (r'\<lparr>ro_store := ?st\<rparr>)" using assms(1) by (simp add: same_shape_def)
  moreover have "consistent B (r\<lparr>ro_store := ?st\<rparr>)" using assms(2,3) by (simp add: consistent_runs)
  ultimately have "consistent B (r'\<lparr>ro_store := ?st\<rparr>)" by (rule consistent_shape [rotated])
  then show "heap_ok (ro_heap r', ro_runtimes r')" "runs_list B r'" by (simp_all add: consistent_runs)
qed

lemma republish_runs: "runs_list ss (republish ss r)"
  by (simp add: runs_list_def runtime_of_republish runtime_of_reload)

subsection \<open>Where a request can be going\<close>

text \<open>What a request may rely on, given the lists that can have been in force when it looked.\<close>

definition found_in :: "site list set \<Rightarrow> request \<Rightarrow> site \<Rightarrow> bool" where
  "found_in As req s \<longleftrightarrow> (\<exists>A \<in> As. route_spec A (rq_host req) = Some s)"

definition held_from :: "site list set \<Rightarrow> site \<Rightarrow> nat \<Rightarrow> router \<Rightarrow> bool" where
  "held_from Bs s i r \<longleftrightarrow>
     i < length (ro_heap r) \<and>
     (\<exists>B \<in> Bs. \<exists>t. find (\<lambda>t. builds t (s_domain s)) (rev B) = Some t \<and>
        shape (ro_heap r ! i) = shape (site_runtime t))"

definition aimed_at :: "site list set \<Rightarrow> bool \<Rightarrow> request \<Rightarrow> site \<Rightarrow> request \<Rightarrow> bool" where
  "aimed_at Bs trust req s out \<longleftrightarrow>
     (\<exists>B \<in> Bs. \<exists>t us u. find (\<lambda>t. builds t (s_domain s)) (rev B) = Some t \<and>
        parse_upstreams (s_upstreams t) = Some us \<and> u \<in> set us \<and> out = direct_to trust u req)"

definition flight_from :: "site list set \<Rightarrow> site list set \<Rightarrow> router \<Rightarrow> visit \<times> flight \<Rightarrow> bool" where
  "flight_from As Bs r vf =
     (let req = visit_request (fst vf)
      in case snd vf of
           Routed s \<Rightarrow> found_in As req s
         | Holding s i \<Rightarrow> found_in As req s \<and> held_from Bs s i r
         | Admitted s i \<Rightarrow> found_in As req s \<and> held_from Bs s i r
         | Outbound s i out \<Rightarrow> found_in As req s \<and> aimed_at Bs (ro_trust r) req s out
         | _ \<Rightarrow> True)"

definition usable :: "site list \<Rightarrow> bool" where
  "usable ss \<longleftrightarrow> (\<forall>t \<in> set ss. s_enabled t \<longrightarrow> s_upstreams t \<noteq> [] \<and> length (s_upstreams t) < 2 ^ 64)"

definition traffic_from :: "site list set \<Rightarrow> site list set \<Rightarrow> nat \<Rightarrow> traffic \<Rightarrow> bool" where
  "traffic_from As Bs n w \<longleftrightarrow>
     (\<exists>A \<in> As. \<forall>h. lookup_site (ro_store (tf_router w)) h = route_spec A h) \<and>
     heap_ok (ro_heap (tf_router w), ro_runtimes (tf_router w)) \<and>
     (\<exists>B \<in> Bs. runs_list B (tf_router w)) \<and>
     n \<le> length (tf_flights w) \<and> list_all (flight_from As Bs (tf_router w)) (drop n (tf_flights w))"

lemma flight_from_more:
  "flight_from As Bs r vf \<Longrightarrow> As \<subseteq> As' \<Longrightarrow> Bs \<subseteq> Bs' \<Longrightarrow> flight_from As' Bs' r vf"
  by (cases "snd vf") (auto simp: flight_from_def Let_def found_in_def held_from_def aimed_at_def)

text \<open>A router that keeps the cells and the trust keeps what requests rely on.\<close>

definition keeps_cells :: "router \<Rightarrow> router \<Rightarrow> bool" where
  "keeps_cells r r' \<longleftrightarrow>
     ro_trust r' = ro_trust r \<and> length (ro_heap r) \<le> length (ro_heap r') \<and>
     (\<forall>i < length (ro_heap r). shape (ro_heap r' ! i) = shape (ro_heap r ! i))"

lemma flight_from_cells: "flight_from As Bs r vf \<Longrightarrow> keeps_cells r r' \<Longrightarrow> flight_from As Bs r' vf"
  by (cases "snd vf") (auto simp: flight_from_def Let_def held_from_def keeps_cells_def)

lemma same_shape_keeps_cells: "same_shape r r' \<Longrightarrow> keeps_cells r r'"
proof -
  assume s: "same_shape r r'"
  then have "length (ro_heap r') = length (ro_heap r)" by (rule heap_length_shape)
  with s show "keeps_cells r r'" unfolding keeps_cells_def same_shape_def by (metis le_refl nth_map)
qed

lemma flight_step_shape: "same_shape r (snd (flight_step v f r))"
  using finish_shape director_urls
  by (cases v; cases f)
    (auto simp: flight_step_def land_def Let_def case_prod_beta limiter_at_def shape_def
      intro!: same_shape_set_runtime split: option.split exchange.split)

lemma runtime_spec_find:
  "runtime_spec B d = Some rt \<longleftrightarrow> (\<exists>t. find (\<lambda>t. builds t d) (rev B) = Some t \<and> rt = site_runtime t)"
  by (auto simp: runtime_spec_def)

lemma held_urls:
  assumes "held_from Bs s i r" "\<forall>B \<in> Bs. usable B"
  obtains B t us where "B \<in> Bs" "find (\<lambda>t. builds t (s_domain s)) (rev B) = Some t"
    "parse_upstreams (s_upstreams t) = Some us" "p_urls (rn_pool (ro_heap r ! i)) = us" "us \<noteq> []" "length us < 2 ^ 64"
proof -
  obtain B t where t: "B \<in> Bs" "find (\<lambda>t. builds t (s_domain s)) (rev B) = Some t"
    "shape (ro_heap r ! i) = shape (site_runtime t)"
    using assms(1) by (auto simp: held_from_def)
  have b: "t \<in> set B" "builds t (s_domain s)" using t(2) by (auto dest: find_SomeD)
  then obtain us where us: "parse_upstreams (s_upstreams t) = Some us" by (auto simp: builds_def new_pool_def)
  have "length us = length (s_upstreams t)"
    using us by (auto simp: parse_upstreams_Some dest: list_all2_lengthD)
  moreover have "s_upstreams t \<noteq> []" "length (s_upstreams t) < 2 ^ 64"
    using assms(2) t(1) b by (auto simp: usable_def builds_def)
  moreover have "p_urls (rn_pool (ro_heap r ! i)) = us"
    using t(3) us by (simp add: shape_def site_runtime_def make_runtime_def new_pool_def)
  ultimately show ?thesis by (intro that [OF t(1,2) us]) auto
qed

text \<open>The part that a request takes next leaves it with something it may rely on.\<close>

lemma flight_step_from:
  assumes "flight_from As Bs r (v, f)" "\<forall>B \<in> Bs. usable B"
    and "\<exists>A \<in> As. \<forall>h. lookup_site (ro_store r) h = route_spec A h"
    and "heap_ok (ro_heap r, ro_runtimes r)"
    and "\<exists>B \<in> Bs. runs_list B r"
  shows "flight_from As Bs (snd (flight_step v f r)) (v, fst (flight_step v f r))"
proof -
  obtain tr tk w req where v: "v = (tr, tk, w, req)" by (cases v)
  have keep: "keeps_cells r (snd (flight_step v f r))" by (rule same_shape_keeps_cells [OF flight_step_shape])
  have req: "visit_request v = req" by (simp add: v visit_request_def)
  show ?thesis
  proof (cases f)
    case Accepted
    then show ?thesis
      using assms(3) by (auto simp: v flight_step_def check_site_def flight_from_def visit_request_def found_in_def
        split: option.split)
  next
    case (Routed s)
    show ?thesis
    proof (cases "gm_get (ro_runtimes r) (s_domain s)")
      case (Some i)
      obtain B where B: "B \<in> Bs" "map_option shape (runtime_of r (s_domain s)) = map_option shape (runtime_spec B (s_domain s))"
        using assms(5) by (auto simp: runs_list_def)
      with Some have "map_option shape (runtime_spec B (s_domain s)) = Some (shape (ro_heap r ! i))"
        by (simp add: runtime_of_def)
      then obtain t where "find (\<lambda>t. builds t (s_domain s)) (rev B) = Some t" "shape (ro_heap r ! i) = shape (site_runtime t)"
        by (auto simp: runtime_spec_find)
      moreover have "i < length (ro_heap r)" using assms(4) Some by (auto simp: heap_ok_def)
      ultimately show ?thesis
        using assms(1) B(1) Some Routed by (auto simp: v flight_step_def flight_from_def held_from_def)
    qed (use Routed in \<open>simp add: v flight_step_def flight_from_def\<close>)
  next
    case (Holding s i)
    then have "flight_from As Bs r (v, Admitted s i)" using assms(1) by (simp add: flight_from_def Let_def)
    from flight_from_cells [OF this keep] Holding show ?thesis
      by (auto simp: v flight_step_def flight_from_def Let_def split: prod.splits)
  next
    case (Admitted s i)
    then have f: "found_in As req s" "held_from Bs s i r" using assms(1) req by (simp_all add: flight_from_def Let_def)
    obtain B t us where us: "B \<in> Bs" "find (\<lambda>t. builds t (s_domain s)) (rev B) = Some t"
      "parse_upstreams (s_upstreams t) = Some us" "p_urls (rn_pool (ro_heap r ! i)) = us" "us \<noteq> []" "length us < 2 ^ 64"
      using held_urls [OF f(2) assms(2)] .
    obtain u where "u \<in> set us" "fst (director (ro_trust r) (rn_pool (ro_heap r ! i)) req) = direct_to (ro_trust r) u req"
      using director_target [of "rn_pool (ro_heap r ! i)"] us(4-6) by metis
    with us(1-3) have "aimed_at Bs (ro_trust r) req s (fst (director (ro_trust r) (rn_pool (ro_heap r ! i)) req))"
      by (auto simp: aimed_at_def)
    with f(1) Admitted show ?thesis
      by (simp add: v flight_step_def flight_from_def case_prod_beta Let_def visit_request_def)
  qed (use assms(1) in \<open>auto simp: v flight_step_def flight_from_def land_def split: exchange.split\<close>)
qed

lemma lists_Cons:
  "set (stored_lists (ev # evs)) = set (stored_lists [ev]) \<union> set (stored_lists evs)"
  "set (published_lists (ev # evs)) = set (published_lists [ev]) \<union> set (published_lists evs)"
  by (simp_all add: stored_lists_def published_lists_def)

lemma keeps_cells_republish: "keeps_cells r (republish ss r)"
  using republish_heap(2,3) [where r = r and ss = ss] by (simp add: keeps_cells_def republish_fields)

lemma traffic_step_from:
  assumes "traffic_from As Bs n w" "\<forall>B \<in> Bs. usable B"
  shows "traffic_from (As \<union> set (stored_lists [ev])) (Bs \<union> set (published_lists [ev])) n (traffic_step ev w)"
proof -
  have kept: "list_all (flight_from As' Bs' r) (drop n (tf_flights w))"
    if "keeps_cells (tf_router w) r" "As \<subseteq> As'" "Bs \<subseteq> Bs'" for r As' Bs'
    using assms(1) flight_from_more [OF flight_from_cells [OF _ that(1)] that(2,3)]
    by (auto simp: traffic_from_def list_all_iff)
  show ?thesis
  proof (cases ev)
    case (Advance_Request k)
    show ?thesis
    proof (cases "length (tf_flights w) \<le> k")
      case True
      then show ?thesis using assms(1) Advance_Request by (simp add: traffic_step_def stored_lists_def published_lists_def)
    next
      case False
      let ?r = "tf_router w"
      obtain v f where k: "tf_flights w ! k = (v, f)" by (cases "tf_flights w ! k")
      obtain f1 r1 where st: "flight_step v f ?r = (f1, r1)" by (cases "flight_step v f ?r")
      have shape: "same_shape ?r r1" using flight_step_shape [of ?r v f] st by simp
      have old: "list_all (flight_from As Bs r1) (drop n (tf_flights w))"
        using assms(1) flight_from_cells [OF _ same_shape_keeps_cells [OF shape]]
        by (auto simp: traffic_from_def list_all_iff)
      have "list_all (flight_from As Bs r1) (drop n ((tf_flights w)[k := (v, f1)]))"
      proof (cases "n \<le> k")
        case True
        have "(v, f) \<in> set (drop n (tf_flights w))"
          using False True k nth_mem [of "k - n" "drop n (tf_flights w)"] by simp
        then have "flight_from As Bs ?r (v, f)" using assms(1) by (auto simp: traffic_from_def list_all_iff)
        then have "flight_from As Bs r1 (v, f1)"
          using flight_step_from [of As Bs ?r v f] assms st by (simp add: traffic_from_def)
        with old True show ?thesis by (auto simp: drop_update_swap list_all_iff dest!: set_update_subset_insert [THEN subsetD])
      qed (use old in simp)
      moreover have "\<exists>A \<in> As. \<forall>h. lookup_site (ro_store r1) h = route_spec A h"
        using assms(1) shape by (simp add: traffic_from_def same_shape_def)
      moreover obtain B where "B \<in> Bs" "runs_list B ?r" "heap_ok (ro_heap ?r, ro_runtimes ?r)"
        using assms(1) by (auto simp: traffic_from_def)
      note runs_list_shape [OF shape this(3,2)] this(1)
      ultimately show ?thesis
        using False k st assms(1)
        by (auto simp: Advance_Request traffic_step_def traffic_from_def stored_lists_def published_lists_def)
    qed
  next
    case (Request_Arrives v)
    with assms(1) show ?thesis
      by (auto simp: traffic_step_def traffic_from_def stored_lists_def published_lists_def flight_from_def)
  next
    case (Replace_Store ss)
    let ?r = "(tf_router w)\<lparr>ro_store := replace_sites ss (ro_store (tf_router w))\<rparr>"
    have "keeps_cells (tf_router w) ?r" by (simp add: keeps_cells_def)
    from kept [OF this, of "insert ss As" Bs] assms(1) Replace_Store show ?thesis
      by (auto simp: traffic_step_def traffic_from_def stored_lists_def published_lists_def store.lookup_replace
          runs_list_def runtime_of_def)
  next
    case (Publish_Runtimes ss)
    from kept [OF keeps_cells_republish, of As "insert ss Bs" ss] assms(1) Publish_Runtimes republish_heap(1) republish_runs show ?thesis
      by (auto simp: traffic_step_def traffic_from_def stored_lists_def published_lists_def republish_fields)
  next
    case (Prune_Metrics ss)
    let ?r = "(tf_router w)\<lparr>ro_registry := prune (keeps ss) (ro_registry (tf_router w))\<rparr>"
    have "keeps_cells (tf_router w) ?r" by (simp add: keeps_cells_def)
    from kept [OF this, of As Bs] assms(1) Prune_Metrics show ?thesis
      by (auto simp: traffic_step_def traffic_from_def stored_lists_def published_lists_def runs_list_def runtime_of_def)
  next
    case Stop_Serving
    have "keeps_cells (tf_router w) (stop (tf_router w))" by (simp add: keeps_cells_def stop_def)
    from kept [OF this, of As Bs] assms(1) Stop_Serving show ?thesis
      by (auto simp: traffic_step_def traffic_from_def stored_lists_def published_lists_def runs_list_def runtime_of_def
          stop_def)
  qed
qed

lemma traffic_run_from:
  "traffic_from As Bs n w \<Longrightarrow> \<forall>B \<in> Bs \<union> set (published_lists evs). usable B \<Longrightarrow>
     traffic_from (As \<union> set (stored_lists evs)) (Bs \<union> set (published_lists evs)) n (traffic_run evs w)"
proof (induction evs arbitrary: As Bs w)
  case Nil
  then show ?case by (simp add: traffic_run_def stored_lists_def published_lists_def)
next
  case (Cons ev evs)
  have "traffic_from (As \<union> set (stored_lists [ev])) (Bs \<union> set (published_lists [ev])) n (traffic_step ev w)"
    using traffic_step_from Cons.prems by blast
  from Cons.IH [OF this] Cons.prems(2) show ?case
    by (simp add: traffic_run_def lists_Cons [of ev evs] Un_assoc)
qed

text \<open>
  C2: a request goes where the configuration sends it, however requests and reloads overlap.
  Let store and runtimes be in line with a list when a request arrives, with any number of
  older requests still under way. Then when the request is sent out, its site is the one that
  a list in force since its arrival routes its host to, and it is addressed to an upstream of
  the site that a list in force since its arrival has the domain's runtime for; nothing of a
  configuration replaced before its arrival is used. A site whose domain is its own there is
  sent to its own upstreams.\<close>
theorem overlapping_requests_on_course:
  assumes "consistent ss (tf_router w0)" "w = traffic_run evs w0"
    and "\<forall>B \<in> insert ss (set (published_lists evs)). usable B"
    and "length (tf_flights w0) \<le> k" "k < length (tf_flights w)"
    and "tf_flights w ! k = (v, Outbound s i out)"
  shows "\<exists>A \<in> insert ss (set (stored_lists evs)). \<exists>B \<in> insert ss (set (published_lists evs)). \<exists>t us u.
    route_spec A (rq_host (visit_request v)) = Some s \<and> t \<in> set B \<and> builds t (s_domain s) \<and>
    parse_upstreams (s_upstreams t) = Some us \<and> u \<in> set us \<and> out = direct_to (ro_trust (tf_router w)) u (visit_request v) \<and>
    (no_clash B s \<longrightarrow> t = s)"
proof -
  let ?As = "{ss} \<union> set (stored_lists evs)" and ?Bs = "{ss} \<union> set (published_lists evs)"
  have "traffic_from {ss} {ss} (length (tf_flights w0)) w0"
    using assms(1) by (simp add: traffic_from_def consistent_def runs_list_def)
  from traffic_run_from [OF this, of evs] assms(2,3)
  have "list_all (flight_from ?As ?Bs (tf_router w)) (drop (length (tf_flights w0)) (tf_flights w))"
    by (auto simp: traffic_from_def)
  then have "flight_from ?As ?Bs (tf_router w) (tf_flights w ! k)"
    using assms(4,5) nth_mem [of "k - length (tf_flights w0)" "drop (length (tf_flights w0)) (tf_flights w)"]
    by (simp add: list_all_iff)
  with assms(6) have "found_in ?As (visit_request v) s" "aimed_at ?Bs (ro_trust (tf_router w)) (visit_request v) s out"
    by (simp_all add: flight_from_def Let_def)
  then obtain A B t us u where c: "A \<in> ?As" "route_spec A (rq_host (visit_request v)) = Some s" "B \<in> ?Bs"
    "find (\<lambda>t. builds t (s_domain s)) (rev B) = Some t" "parse_upstreams (s_upstreams t) = Some us" "u \<in> set us"
    "out = direct_to (ro_trust (tf_router w)) u (visit_request v)"
    unfolding found_in_def aimed_at_def by blast
  have t: "t \<in> set B" "builds t (s_domain s)" using c(4) by (auto dest: find_SomeD)
  then have "no_clash B s \<Longrightarrow> t = s" by (auto simp: no_clash_def builds_def)
  with c t show ?thesis by (intro bexI [of _ A] bexI [of _ B] exI [of _ t] exI [of _ us] exI [of _ u]) auto
qed

subsection \<open>Requests under way when the configuration changes or the router stops\<close>

text \<open>What comes from elsewhere: everything but a step of a request.\<close>

definition elsewhere :: "traffic_event \<Rightarrow> bool" where
  "elsewhere ev \<longleftrightarrow> (\<forall>k. ev \<noteq> Advance_Request k)"

lemma elsewhere_step:
  assumes "elsewhere ev" "k < length (tf_flights w)" "i < length (ro_heap (tf_router w))"
  shows "tf_flights (traffic_step ev w) ! k = tf_flights w ! k" "k < length (tf_flights (traffic_step ev w))"
    "ro_heap (tf_router (traffic_step ev w)) ! i = ro_heap (tf_router w) ! i"
    "i < length (ro_heap (tf_router (traffic_step ev w)))"
    "ro_trust (tf_router (traffic_step ev w)) = ro_trust (tf_router w)"
  using assms republish_heap(2,3) [where r = "tf_router w"]
  by (cases ev; force simp: elsewhere_def traffic_step_def republish_fields stop_def nth_append intro: less_le_trans)+

lemma elsewhere_run:
  "list_all elsewhere evs \<Longrightarrow> k < length (tf_flights w) \<Longrightarrow> i < length (ro_heap (tf_router w)) \<Longrightarrow>
     tf_flights (traffic_run evs w) ! k = tf_flights w ! k \<and> k < length (tf_flights (traffic_run evs w)) \<and>
     ro_heap (tf_router (traffic_run evs w)) ! i = ro_heap (tf_router w) ! i \<and>
     i < length (ro_heap (tf_router (traffic_run evs w))) \<and>
     ro_trust (tf_router (traffic_run evs w)) = ro_trust (tf_router w)"
proof (induction evs arbitrary: w)
  case (Cons ev evs)
  note st = elsewhere_step [of ev k w i]
  have "elsewhere ev" "list_all elsewhere evs" using Cons.prems(1) by simp_all
  with st Cons.prems(2,3) Cons.IH [of "traffic_step ev w"] show ?case by (simp add: traffic_run_def)
qed (simp add: traffic_run_def)

lemma record_metric_None: "record_metric d st b tk r = None \<longleftrightarrow> record_metric d st b tk r' = None"
  by (auto simp: record_metric_def registry_record_def record_sample_def record_locked_def case_prod_beta split: option.splits)

lemma fst_finish: "fst (finish d st b tk w r) = fst (finish d st b tk w r')"
  using record_metric_None [of d st b tk r r'] by (auto simp: finish_def split: option.split)

lemma serve_runtime_elsewhere:
  assumes "ro_heap r' ! i = ro_heap r ! i" "i < length (ro_heap r)" "i < length (ro_heap r')" "ro_trust r' = ro_trust r"
  shows "fst (serve_runtime tr tk w req d i r') = fst (serve_runtime tr tk w req d i r)"
  using assms fst_finish
  by (auto simp: serve_runtime_def proxy_request_def Let_def set_runtime_def case_prod_beta split: exchange.split)

lemma advance_request:
  "k < length (tf_flights w) \<Longrightarrow> tf_flights w ! k = (v, f) \<Longrightarrow>
     tf_flights (traffic_run (replicate n (Advance_Request k)) w) ! k = (v, fst (flight_steps n v (f, tf_router w)))"
proof (induction n arbitrary: w f)
  case (Suc n)
  obtain f1 r1 where st: "flight_step v f (tf_router w) = (f1, r1)" by (cases "flight_step v f (tf_router w)")
  let ?w = "traffic_step (Advance_Request k) w"
  have "k < length (tf_flights ?w)" "tf_flights ?w ! k = (v, f1)" "tf_router ?w = r1"
    using Suc.prems st by (simp_all add: traffic_step_def)
  with Suc.IH [of ?w f1] st show ?case by (simp add: traffic_run_def)
qed (simp add: traffic_run_def)

text \<open>
  C10: a request that has found its runtime is not disturbed by what happens elsewhere. Let
  sites be edited, replaced or removed, runtimes be rebuilt, metrics pruned, the router be
  told to stop and new requests arrive: the request still ends with the very answer it would
  have got without all that, from the upstreams and under the limit it found, so that a
  reload or a shutdown cuts nobody off.\<close>
theorem in_flight_undisturbed:
  assumes "k < length (tf_flights w)" "tf_flights w ! k = (v, Holding s i)" "i < length (ro_heap (tf_router w))"
    and "list_all elsewhere evs"
  shows "\<exists>out. tf_flights (traffic_run (replicate 4 (Advance_Request k)) w) ! k = (v, Landed out) \<and>
    tf_flights (traffic_run (replicate 4 (Advance_Request k)) (traffic_run evs w)) ! k = (v, Landed out)"
proof -
  obtain tr tk wr req where v: "v = (tr, tk, wr, req)" by (cases v)
  let ?w = "traffic_run evs w"
  note e = elsewhere_run [OF assms(4,1,3)]
  have "fst (flight_steps 4 v (Holding s i, tf_router w)) =
      Landed (fst (serve_runtime tr tk wr req (s_domain s) i (tf_router w)))"
    using flight_from_holding [OF assms(3)] by (simp add: v land_def)
  moreover have "fst (flight_steps 4 v (Holding s i, tf_router ?w)) =
      Landed (fst (serve_runtime tr tk wr req (s_domain s) i (tf_router ?w)))"
    using flight_from_holding [of i "tf_router ?w"] e by (simp add: v land_def)
  moreover have "fst (serve_runtime tr tk wr req (s_domain s) i (tf_router ?w)) =
      fst (serve_runtime tr tk wr req (s_domain s) i (tf_router w))"
    using e by (intro serve_runtime_elsewhere) (simp_all add: assms(3))
  ultimately show ?thesis using advance_request [OF assms(1,2)] advance_request [of k ?w v] e assms(2) by simp
qed

subsection \<open>The limiter of a runtime\<close>

text \<open>The calls of \<open>Allow\<close> on the limiter of a runtime along a run, and their results.\<close>

definition holds :: "nat \<Rightarrow> traffic_event \<Rightarrow> traffic \<Rightarrow> visit option" where
  "holds i ev w =
     (case ev of
        Advance_Request k \<Rightarrow>
          (if length (tf_flights w) \<le> k then None
           else (case tf_flights w ! k of (v, f) \<Rightarrow> (case f of Holding s j \<Rightarrow> if j = i then Some v else None | _ \<Rightarrow> None)))
      | _ \<Rightarrow> None)"

fun limiter_calls :: "nat \<Rightarrow> traffic_event list \<Rightarrow> traffic \<Rightarrow> (string \<times> int) list" where
  "limiter_calls i [] w = []"
| "limiter_calls i (ev # evs) w =
     (case holds i ev w of None \<Rightarrow> [] | Some v \<Rightarrow> [visit_key (ro_trust (tf_router w)) v]) @
     limiter_calls i evs (traffic_step ev w)"

fun limiter_results :: "nat \<Rightarrow> traffic_event list \<Rightarrow> traffic \<Rightarrow> bool list" where
  "limiter_results i [] w = []"
| "limiter_results i (ev # evs) w =
     (case holds i ev w of
        None \<Rightarrow> []
      | Some v \<Rightarrow> [fst (allow (visit_key (ro_trust (tf_router w)) v) (limiter_at (tf_router w) i))]) @
     limiter_results i evs (traffic_step ev w)"

lemma flight_step_limiter:
  assumes "i < length (ro_heap r)"
  shows "limiter_at (snd (flight_step v f r)) i =
    (case f of Holding s j \<Rightarrow> if j = i then snd (allow (visit_key (ro_trust r) v) (limiter_at r i)) else limiter_at r i
     | _ \<Rightarrow> limiter_at r i)"
proof -
  have same: "limiter_at (set_runtime j ((ro_heap r ! j)\<lparr>rn_pool := p\<rparr>) r) i = limiter_at r i" for j p
    by (simp add: limiter_at_set_runtime [OF assms]) (simp add: limiter_at_def)
  then show ?thesis
    by (cases v; cases f)
      (auto simp: flight_step_def land_def Let_def limiter_at_finish limiter_at_set_runtime [OF assms] visit_key_def
        split: option.split exchange.split prod.splits)
qed

lemma traffic_step_limiter:
  assumes "i < length (ro_heap (tf_router w))"
  shows "i < length (ro_heap (tf_router (traffic_step ev w)))"
    and "limiter_at (tf_router (traffic_step ev w)) i =
      (case holds i ev w of None \<Rightarrow> limiter_at (tf_router w) i
       | Some v \<Rightarrow> snd (allow (visit_key (ro_trust (tf_router w)) v) (limiter_at (tf_router w) i)))"
proof -
  have "i < length (ro_heap (tf_router (traffic_step ev w))) \<and>
    limiter_at (tf_router (traffic_step ev w)) i =
      (case holds i ev w of None \<Rightarrow> limiter_at (tf_router w) i
       | Some v \<Rightarrow> snd (allow (visit_key (ro_trust (tf_router w)) v) (limiter_at (tf_router w) i)))"
  proof (cases "\<exists>k < length (tf_flights w). ev = Advance_Request k")
    case True
    then obtain k v f where k: "ev = Advance_Request k" "k < length (tf_flights w)" "tf_flights w ! k = (v, f)"
      by (metis surj_pair)
    then have "tf_router (traffic_step ev w) = snd (flight_step v f (tf_router w))"
      by (simp add: traffic_step_def case_prod_beta)
    with k flight_step_limiter [OF assms, of v f] heap_length_shape [OF flight_step_shape [of "tf_router w" v f]] assms
    show ?thesis by (cases f) (simp_all add: holds_def)
  next
    case False
    then have "elsewhere ev \<or> tf_router (traffic_step ev w) = tf_router w"
      by (cases ev) (simp_all add: elsewhere_def traffic_step_def)
    moreover have "holds i ev w = None" using False by (cases ev) (auto simp: holds_def)
    moreover have "elsewhere ev \<Longrightarrow> i < length (ro_heap (tf_router (traffic_step ev w))) \<and>
        ro_heap (tf_router (traffic_step ev w)) ! i = ro_heap (tf_router w) ! i"
      using assms republish_heap(2,3) [where r = "tf_router w"]
      by (cases ev) (force simp: elsewhere_def traffic_step_def stop_def intro: less_le_trans)+
    ultimately show ?thesis using assms by (auto simp: limiter_at_def)
  qed
  then show "i < length (ro_heap (tf_router (traffic_step ev w)))"
    and "limiter_at (tf_router (traffic_step ev w)) i =
      (case holds i ev w of None \<Rightarrow> limiter_at (tf_router w) i
       | Some v \<Rightarrow> snd (allow (visit_key (ro_trust (tf_router w)) v) (limiter_at (tf_router w) i)))" by blast+
qed

lemma limiter_along_traffic:
  "i < length (ro_heap (tf_router w)) \<Longrightarrow>
     i < length (ro_heap (tf_router (traffic_run evs w))) \<and>
     limiter_results i evs w = fst (run_outputs allow (limiter_calls i evs w) (limiter_at (tf_router w) i)) \<and>
     limiter_at (tf_router (traffic_run evs w)) i =
       snd (run_outputs allow (limiter_calls i evs w) (limiter_at (tf_router w) i))"
proof (induction evs arbitrary: w)
  case (Cons ev evs)
  note st = traffic_step_limiter [OF Cons.prems, of ev]
  from Cons.IH [OF st(1)] show ?case
    by (simp add: st(2) traffic_run_def split: option.split)
qed (simp add: traffic_run_def)

lemma limiter_calls_append:
  "limiter_calls i (evs @ evs') w = limiter_calls i evs w @ limiter_calls i evs' (traffic_run evs w)"
  by (induction evs arbitrary: w) (simp_all add: traffic_run_def)

lemma republish_own:
  assumes "s \<in> set ss" "s_enabled s" "new_pool (s_upstreams s) = Some p" "no_clash ss s"
    and "gm_get (ro_runtimes (republish ss r0)) (s_domain s) = Some i"
  shows "i < length (ro_heap (republish ss r0))" "ro_heap (republish ss r0) ! i = make_runtime s p"
proof -
  show "i < length (ro_heap (republish ss r0))" using republish_heap(1) [of ss r0] assms(5) by (auto simp: heap_ok_def)
  have "runtime_of (republish ss r0) (s_domain s) = Some (make_runtime s p)"
    by (simp add: runtime_of_republish runtime_of_reload own_runtime [OF assms(1-4)])
  with assms(5) show "ro_heap (republish ss r0) ! i = make_runtime s p" by (simp add: runtime_of_def)
qed

text \<open>
  C3: a site's rate limit holds end to end, however requests overlap. When the runtimes of a
  list are published, take any later events, and any window of them: of the requests of one
  client that come to the limiter of a rate-limited site's runtime in the window, at most
  burst plus rate times the length of the window are admitted, whatever other requests are
  under way, and even when the configuration changes meanwhile.\<close>
theorem overlapping_rate_bound:
  assumes "s \<in> set ss" "s_enabled s" "new_pool (s_upstreams s) = Some p" "no_clash ss s"
    and "s_rate_limit s = \<lparr>rl_enabled = True, rl_rps = rps, rl_burst = burst\<rparr>" "0 < rps" "rps + max burst 0 < 2 ^ 63"
    and "tf_router w0 = republish ss r0" "gm_get (ro_runtimes (tf_router w0)) (s_domain s) = Some i"
    and "w = traffic_run before w0"
    and "ts = times_of k (limiter_calls i window w)" "ts \<noteq> []"
    and "outs = decisions_of k (limiter_calls i window w) (limiter_results i window w)"
    and "last outs \<or> sorted (times_of k (limiter_calls i (before @ window) w0))"
  shows "of_nat (count_list outs True) \<le>
    (of_int (rps + max burst 0) + of_int rps * of_int (last ts - hd ts) / 10 ^ 9 :: rat)"
proof -
  obtain l0 where l0: "new_limiter rps burst = Some l0" using assms(6) by (simp add: new_limiter_def)
  have i: "i < length (ro_heap (tf_router w0))" "ro_heap (tf_router w0) ! i = make_runtime s p"
    using republish_own [OF assms(1-4)] assms(8,9) by simp_all
  then have lim0: "limiter_at (tf_router w0) i = Some l0"
    using assms(5) l0 by (simp add: limiter_at_def make_runtime_def)
  let ?l = "snd (run_outputs limiter_allow (limiter_calls i before w0) l0)"
  have w: "i < length (ro_heap (tf_router w))" "limiter_at (tf_router w) i = Some ?l"
    using limiter_along_traffic [OF i(1), of before] by (simp_all add: assms(10) lim0 allow_run)
  have "limiter_results i window w = fst (run_outputs limiter_allow (limiter_calls i window w) ?l)"
    using limiter_along_traffic [OF w(1), of window] by (simp add: w(2) allow_run)
  then have outs: "outs = decisions_of k (limiter_calls i window w)
      (fst (run_outputs limiter_allow (limiter_calls i window w) ?l))"
    by (simp add: assms(13))
  have "last outs \<or> sorted (times_of k (limiter_calls i before w0 @ limiter_calls i window w))"
    using assms(14) by (simp add: limiter_calls_append assms(10))
  from limiter_bound [OF l0 assms(7) refl assms(11,12) outs this] show ?thesis .
qed

subsection \<open>Samples\<close>

definition old_site :: site where
  "old_site = plain_site ''x'' [] ''a:1''"

definition new_site_x :: site where
  "new_site_x = plain_site ''x'' [] ''b:2''"

definition visit_x :: visit where
  "visit_x = (echo_host, noon, fresh_writer, host_request ''x'')"

definition quiet_start :: traffic where
  "quiet_start = \<lparr>tf_router = install [old_site] start_router, tf_flights = []\<rparr>"

text \<open>The site moves to another upstream while a request is on its way.\<close>

definition moving :: "traffic_event list" where
  "moving = [Replace_Store [new_site_x], Publish_Runtimes [new_site_x], Prune_Metrics [new_site_x], Stop_Serving]"

definition half_way :: traffic where
  "half_way = traffic_run (Request_Arrives visit_x # replicate 3 (Advance_Request 0)) quiet_start"

lemma half_way_state:
  "snd (tf_flights half_way ! 0) = Holding old_site 0" "length (tf_flights half_way) = 1"
  "length (ro_heap (tf_router half_way)) = 1"
  by code_simp+

theorem in_flight_undisturbed_witness:
  "snd (tf_flights (traffic_run (replicate 4 (Advance_Request 0)) (traffic_run moving half_way)) ! 0) =
   snd (tf_flights (traffic_run (replicate 4 (Advance_Request 0)) half_way) ! 0)"
proof -
  have "tf_flights half_way ! 0 = (fst (tf_flights half_way ! 0), Holding old_site 0)"
    using half_way_state(1) by (metis prod.collapse)
  from in_flight_undisturbed [OF _ this, of moving] half_way_state(2,3) show ?thesis
    by (auto simp: moving_def elsewhere_def)
qed

text \<open>The site is looked up before it moves, the runtime after.\<close>

definition moved :: traffic where
  "moved = traffic_run
     ([Request_Arrives visit_x, Advance_Request 0, Advance_Request 0] @ take 3 moving @ replicate 3 (Advance_Request 0))
     quiet_start"

lemma moved_state:
  "case snd (tf_flights moved ! 0) of Outbound s i out \<Rightarrow> s = old_site \<and> i = 1 \<and> ru_host (rq_url out) = ''b:2'' | _ \<Rightarrow> False"
  "length (tf_flights moved) = 1" "rq_host (visit_request (fst (tf_flights moved ! 0))) = ''x''"
  by code_simp+

lemma moved_out: "\<exists>out. tf_flights moved ! 0 = (fst (tf_flights moved ! 0), Outbound old_site 1 out)"
proof -
  obtain v f where vf: "tf_flights moved ! 0 = (v, f)" by (cases "tf_flights moved ! 0")
  with moved_state(1) obtain out where "f = Outbound old_site 1 out" by (cases f) simp_all
  with vf show ?thesis by simp
qed

theorem overlapping_requests_on_course_witness:
  "\<exists>out A B. snd (tf_flights moved ! 0) = Outbound old_site 1 out \<and> A \<in> {[old_site], [new_site_x]} \<and>
     B \<in> {[old_site], [new_site_x]} \<and> route_spec A ''x'' = Some old_site \<and> (\<exists>t \<in> set B. builds t (s_domain old_site))"
proof -
  let ?evs = "[Request_Arrives visit_x, Advance_Request 0, Advance_Request 0] @ take 3 moving @ replicate 3 (Advance_Request 0)"
  obtain out where f: "tf_flights moved ! 0 = (fst (tf_flights moved ! 0), Outbound old_site 1 out)"
    using moved_out by blast
  then have out: "snd (tf_flights moved ! 0) = Outbound old_site 1 out" by (metis snd_conv)
  have c: "consistent [old_site] (tf_router quiet_start)" by (simp add: quiet_start_def install_consistent)
  have l: "stored_lists ?evs = [[new_site_x]]" "published_lists ?evs = [[new_site_x]]"
    by (simp_all add: stored_lists_def published_lists_def moving_def numeral_3_eq_3)
  have "usable [old_site]" "usable [new_site_x]"
    by (simp_all add: usable_def old_site_def new_site_x_def plain_site_def)
  then have u: "\<forall>B \<in> insert [old_site] (set (published_lists ?evs)). usable B" unfolding l by simp
  have k: "length (tf_flights quiet_start) \<le> 0" "0 < length (tf_flights moved)"
    by (simp_all add: quiet_start_def moved_state(2))
  obtain A B t where "A \<in> insert [old_site] (set (stored_lists ?evs))" "B \<in> insert [old_site] (set (published_lists ?evs))"
    "route_spec A ''x'' = Some old_site" "t \<in> set B" "builds t (s_domain old_site)"
    using overlapping_requests_on_course [OF c moved_def u k f] unfolding moved_state(3) by blast
  then have "A \<in> {[old_site], [new_site_x]}" "B \<in> {[old_site], [new_site_x]}" "route_spec A ''x'' = Some old_site"
    "\<exists>t \<in> set B. builds t (s_domain old_site)"
    unfolding l by auto
  with out show ?thesis by blast
qed

text \<open>Five requests of one client all wait at the limiter before the first of them calls it.\<close>

definition limited_start :: traffic where
  "limited_start =
     \<lparr>tf_router = republish [limited_site] (start_router\<lparr>ro_store := replace_sites [limited_site] new_store\<rparr>),
      tf_flights = []\<rparr>"

definition rush :: "traffic_event list" where
  "rush =
     map (\<lambda>t. Request_Arrives (knock t)) [0, 1, 2, 3, 4] @
     concat (map (\<lambda>k. replicate 3 (Advance_Request k)) [4, 2, 0, 3, 1]) @ map Advance_Request [0, 1, 2, 3, 4]"

lemma rush_calls: "limiter_calls 0 rush limited_start = map (\<lambda>t. (''10.0.0.9'', t)) [0, 1, 2, 3, 4]"
  by code_simp

lemma rush_length: "length (limiter_results 0 rush limited_start) = 5"
  by code_simp

theorem overlapping_rate_bound_witness:
  "of_nat (count_list (limiter_results 0 rush limited_start) True)
     \<le> (of_int (2 + max 1 0) + of_int 2 * of_int (4 - 0) / 10 ^ 9 :: rat)"
proof -
  have p: "new_pool (s_upstreams limited_site) = Some \<lparr>p_urls = [sample_url ''a:1''], p_next = 0\<rparr>" by code_simp
  have n: "no_clash [limited_site] limited_site" by code_simp
  have s: "limited_site \<in> set [limited_site]" "s_enabled limited_site" by code_simp+
  have l: "s_rate_limit limited_site = \<lparr>rl_enabled = True, rl_rps = 2, rl_burst = 1\<rparr>" by code_simp
  have b: "(0 :: int) < 2" "2 + max 1 0 < (2 :: int) ^ 63" by simp_all
  have r: "tf_router limited_start = republish [limited_site] (start_router\<lparr>ro_store := replace_sites [limited_site] new_store\<rparr>)"
    by (simp add: limited_start_def)
  have i: "gm_get (ro_runtimes (tf_router limited_start)) (s_domain limited_site) = Some 0" by code_simp
  have w: "limited_start = traffic_run [] limited_start" by (simp add: traffic_run_def)
  have ts: "[0, 1, 2, 3, 4] = times_of ''10.0.0.9'' (limiter_calls 0 rush limited_start)"
    by (simp add: rush_calls times_of_def)
  have outs: "limiter_results 0 rush limited_start =
      decisions_of ''10.0.0.9'' (limiter_calls 0 rush limited_start) (limiter_results 0 rush limited_start)"
    using rush_length by (simp add: rush_calls decisions_of_own)
  have "sorted (times_of ''10.0.0.9'' (limiter_calls 0 ([] @ rush) limited_start))" by (simp add: rush_calls times_of_def)
  then show ?thesis
    using overlapping_rate_bound [OF s p n l b r i w ts _ outs] by simp
qed

text \<open>
  A record that comes after the pruning of its domain brings the domain's metrics back.\<close>

lemma late_record_returns:
  assumes "k < length (tf_flights w)" "tf_flights w ! k = ((tr, tk, wr, req), Answered s st b w1)" "0 \<le> tk_sec tk"
    and "w' = traffic_step (Advance_Request k) (traffic_step (Prune_Metrics ss) w)"
  shows "gm_get (ro_registry (tf_router w')) (s_domain s) \<noteq> None"
proof -
  let ?reg = "prune (keeps ss) (ro_registry (tf_router w))"
  let ?sm = "\<lparr>sm_status = st, sm_bytes = b, sm_latency = tk_latency tk\<rparr>"
  obtain reg where reg: "registry_record (s_domain s) (tk_sec tk) ?sm ?reg = Some reg"
    by (auto simp: registry_record_def record_sample_def record_locked_def bucket_index_nonneg assms(3) case_prod_beta)
  then have "gm_get reg (s_domain s) \<noteq> None"
    by (auto simp: registry_record_def case_prod_beta gomap_simps split: option.splits)
  with reg assms(1,2) show ?thesis
    by (simp add: assms(4) traffic_step_def flight_step_def land_def finish_def record_metric_def)
qed


end
