(* ===== verification/Overlap_Pool.thy ===== *)
theory Overlap_Pool
  imports Overlap
begin

section \<open>Load balancing with overlapping requests\<close>

text \<open>
  The round robin of \<open>upstream.go\<close> seen from the router: the requests that leave for the
  upstreams of one runtime, while other requests are under way and the configuration changes.
\<close>

definition pool_at :: "router \<Rightarrow> nat \<Rightarrow> pool" where
  "pool_at r i = rn_pool (ro_heap r ! i)"

text \<open>The request that an event sends to the pool of a runtime.\<close>

definition leaves :: "nat \<Rightarrow> traffic_event \<Rightarrow> traffic \<Rightarrow> visit option" where
  "leaves i ev w =
     (case ev of
        Advance_Request k \<Rightarrow>
          (if length (tf_flights w) \<le> k then None
           else (case tf_flights w ! k of (v, f) \<Rightarrow> (case f of Admitted s j \<Rightarrow> if j = i then Some v else None | _ \<Rightarrow> None)))
      | _ \<Rightarrow> None)"

text \<open>The requests that come to a runtime's pool along a run, with what is sent out for them.\<close>

fun sent :: "nat \<Rightarrow> traffic_event list \<Rightarrow> traffic \<Rightarrow> (visit \<times> request) list" where
  "sent i [] w = []"
| "sent i (ev # evs) w =
     (case leaves i ev w of
        None \<Rightarrow> []
      | Some v \<Rightarrow> [(v, fst (director (ro_trust (tf_router w)) (pool_at (tf_router w) i) (visit_request v)))]) @
     sent i evs (traffic_step ev w)"

text \<open>What is listed is what the flight goes on with.\<close>

lemma sent_outbound:
  assumes "leaves i (Advance_Request k) w = Some v"
  shows "\<exists>s. tf_flights (traffic_step (Advance_Request k) w) ! k =
    (v, Outbound s i (fst (director (ro_trust (tf_router w)) (pool_at (tf_router w) i) (visit_request v))))"
  using assms
  by (cases v) (auto simp: leaves_def traffic_step_def flight_step_def pool_at_def visit_request_def case_prod_beta
    split: if_splits flight.splits)

lemma pool_at_set_runtime:
  "i < length (ro_heap r) \<Longrightarrow> pool_at (set_runtime j rt r) i = (if i = j then rn_pool rt else pool_at r i)"
  by (simp add: pool_at_def set_runtime_def nth_list_update)

lemma pool_at_finish: "pool_at (snd (finish d st b tk w r)) i = pool_at r i"
  by (auto simp: finish_def record_metric_def pool_at_def split: option.split)

lemma snd_director: "snd (director trust p req) = snd (pool_next p)"
  by (simp add: director_def case_prod_beta)

lemma flight_step_pool:
  assumes "i < length (ro_heap r)"
  shows "pool_at (snd (flight_step v f r)) i =
    (case f of Admitted s j \<Rightarrow> if j = i then snd (pool_next (pool_at r i)) else pool_at r i | _ \<Rightarrow> pool_at r i)"
proof -
  have same: "pool_at (set_runtime j ((ro_heap r ! j)\<lparr>rn_limiter := l\<rparr>) r) i = pool_at r i" for j l
    by (simp add: pool_at_set_runtime [OF assms]) (simp add: pool_at_def)
  show ?thesis
  proof (cases v)
    case (fields tr tk w req)
    have picked: "snd (director (ro_trust r) (rn_pool (ro_heap r ! j)) req) = snd (pool_next (pool_at r j))" for j
      by (simp add: snd_director pool_at_def)
    show ?thesis
      using picked same
      by (cases f) (auto simp: fields flight_step_def land_def Let_def case_prod_beta pool_at_finish
        pool_at_set_runtime [OF assms] split: option.split exchange.split)
  qed
qed

lemma traffic_step_pool:
  assumes "i < length (ro_heap (tf_router w))"
  shows "i < length (ro_heap (tf_router (traffic_step ev w)))"
    and "pool_at (tf_router (traffic_step ev w)) i =
      (case leaves i ev w of None \<Rightarrow> pool_at (tf_router w) i | Some v \<Rightarrow> snd (pool_next (pool_at (tf_router w) i)))"
    and "ro_trust (tf_router (traffic_step ev w)) = ro_trust (tf_router w)"
proof -
  show "i < length (ro_heap (tf_router (traffic_step ev w)))" by (rule traffic_step_limiter(1) [OF assms])
  have "pool_at (tf_router (traffic_step ev w)) i =
      (case leaves i ev w of None \<Rightarrow> pool_at (tf_router w) i | Some v \<Rightarrow> snd (pool_next (pool_at (tf_router w) i))) \<and>
      ro_trust (tf_router (traffic_step ev w)) = ro_trust (tf_router w)"
  proof (cases "\<exists>k < length (tf_flights w). ev = Advance_Request k")
    case True
    then obtain k v f where k: "ev = Advance_Request k" "k < length (tf_flights w)" "tf_flights w ! k = (v, f)"
      by (metis surj_pair)
    then have r: "tf_router (traffic_step ev w) = snd (flight_step v f (tf_router w))"
      by (simp add: traffic_step_def case_prod_beta)
    moreover have "ro_trust (snd (flight_step v f (tf_router w))) = ro_trust (tf_router w)"
      using flight_step_shape [of "tf_router w" v f] by (simp add: same_shape_def)
    moreover have "pool_at (snd (flight_step v f (tf_router w))) i =
        (case leaves i ev w of None \<Rightarrow> pool_at (tf_router w) i | Some v \<Rightarrow> snd (pool_next (pool_at (tf_router w) i)))"
      using k flight_step_pool [OF assms, of v f] by (cases f) (simp_all add: leaves_def)
    ultimately show ?thesis by simp
  next
    case False
    then have "leaves i ev w = None" by (cases ev) (auto simp: leaves_def)
    with False assms republish_heap(3) [of i "tf_router w"] show ?thesis
      by (cases ev) (simp_all add: traffic_step_def pool_at_def stop_def republish_fields)
  qed
  then show "pool_at (tf_router (traffic_step ev w)) i =
      (case leaves i ev w of None \<Rightarrow> pool_at (tf_router w) i | Some v \<Rightarrow> snd (pool_next (pool_at (tf_router w) i)))"
    "ro_trust (tf_router (traffic_step ev w)) = ro_trust (tf_router w)" by blast+
qed

text \<open>Along a run the pool of a runtime is the pool of \<open>upstream.go\<close> on its own.\<close>

definition directed :: "bool \<Rightarrow> visit \<times> request \<Rightarrow> url option \<Rightarrow> bool" where
  "directed trust x u \<longleftrightarrow> snd x = (case u of None \<Rightarrow> visit_request (fst x) | Some t \<Rightarrow> direct_to trust t (visit_request (fst x)))"

lemma pool_along_traffic:
  "i < length (ro_heap (tf_router w)) \<Longrightarrow>
     i < length (ro_heap (tf_router (traffic_run evs w))) \<and> ro_trust (tf_router (traffic_run evs w)) = ro_trust (tf_router w) \<and>
     list_all2 (directed (ro_trust (tf_router w))) (sent i evs w)
       (fst (run_outputs (\<lambda>_. pool_next) (sent i evs w) (pool_at (tf_router w) i))) \<and>
     pool_at (tf_router (traffic_run evs w)) i = snd (run_outputs (\<lambda>_. pool_next) (sent i evs w) (pool_at (tf_router w) i))"
proof (induction evs arbitrary: w)
  case (Cons ev evs)
  note st = traffic_step_pool [OF Cons.prems, of ev]
  have "directed (ro_trust (tf_router w)) (v, fst (director (ro_trust (tf_router w)) p (visit_request v))) (fst (pool_next p))" for v p
    by (simp add: directed_def director_def case_prod_beta split: option.split)
  with Cons.IH [OF st(1)] st(2,3) show ?case
    by (cases "leaves i ev w") (simp_all add: traffic_run_def)
qed (simp add: traffic_run_def)

lemma sent_append: "sent i (evs @ evs') w = sent i evs w @ sent i evs' (traffic_run evs w)"
  by (induction evs arbitrary: w) (simp_all add: traffic_run_def)

lemma pool_position:
  "p_urls p \<noteq> [] \<Longrightarrow> p_urls (snd (run_outputs (\<lambda>_. pool_next) xs p)) = p_urls p \<and>
     p_next (snd (run_outputs (\<lambda>_. pool_next) xs p)) = p_next p + of_nat (length xs)"
proof (induction xs arbitrary: p)
  case (Cons x xs)
  have "p_urls (snd (pool_next p)) = p_urls p" "p_next (snd (pool_next p)) = p_next p + 1"
    using Cons.prems by (simp_all add: pool_next_def Let_def)
  with Cons.IH [of "snd (pool_next p)"] Cons.prems show ?case by (simp add: algebra_simps)
qed simp

lemma count_list_Some: "count_list (map Some us) (Some u) = count_list us u"
  by (induction us) auto

text \<open>The upstreams that \<open>k\<close> picks from a position get.\<close>

definition round_from :: "url list \<Rightarrow> nat \<Rightarrow> nat \<Rightarrow> url list" where
  "round_from urls m k = map (\<lambda>n. urls ! ((m + n) mod length urls)) [0..<k]"

lemma picks_round_from:
  assumes "p_urls p \<noteq> []" "length (p_urls p) < 2 ^ 64" "unat (p_next p) + length xs \<le> 2 ^ 64"
  shows "fst (run_outputs (\<lambda>_. pool_next) xs p) = map Some (round_from (p_urls p) (unat (p_next p)) (length xs))"
  using pool_rr.picks [of p xs] assms by (simp add: round_from_def o_def)

lemma round_from_fair:
  assumes "distinct urls" "u \<in> set urls"
  shows "count_list (round_from urls m k) u \<in> {k div length urls, Suc (k div length urls)}"
proof -
  obtain j where j: "j < length urls" "u = urls ! j" using assms(2) by (auto simp: in_set_conv_nth)
  have "count_list (map Some (round_from urls m k)) (Some u) = slot_hits (length urls) m k j"
    using slot_hits_count [OF assms(1) j(1), of m k] j(2) by (simp add: round_from_def o_def)
  then show ?thesis using slot_hits_fair [OF j(1), of k m] by (auto simp: count_list_Some)
qed

text \<open>
  C32: load is balanced, however requests overlap. When the runtimes of a list are published,
  take any later events, changes of the configuration among them, and any window of them: the
  requests that leave through a site's runtime in the window go to its upstreams in turn, in
  the configured order, each addressed to the upstream whose turn it is; so two upstreams
  differ by at most one request, whatever the window (fewer than \<open>2 ^ 64\<close> requests having
  left so far).\<close>
theorem overlapping_pool_fair:
  assumes "s \<in> set ss" "s_enabled s" "new_pool (s_upstreams s) = Some p" "no_clash ss s"
    and "p_urls p \<noteq> []" "length (p_urls p) < 2 ^ 64"
    and "tf_router w0 = republish ss r0" "gm_get (ro_runtimes (tf_router w0)) (s_domain s) = Some i"
    and "w = traffic_run before w0" "length (sent i (before @ window) w0) < 2 ^ 64"
    and "us = round_from (p_urls p) (length (sent i before w0)) (length (sent i window w))"
  shows "(\<forall>n < length (sent i window w).
      snd (sent i window w ! n) = direct_to (ro_trust (tf_router w0)) (us ! n) (visit_request (fst (sent i window w ! n)))) \<and>
    (distinct (p_urls p) \<longrightarrow> u \<in> set (p_urls p) \<longrightarrow>
       count_list us u \<in> {length us div length (p_urls p), Suc (length us div length (p_urls p))})"
proof -
  let ?out = "sent i window w" and ?m = "length (sent i before w0)"
  have i: "i < length (ro_heap (tf_router w0))" "ro_heap (tf_router w0) ! i = make_runtime s p"
    using republish_own [OF assms(1-4)] assms(7,8) by simp_all
  have p0: "pool_at (tf_router w0) i = p" by (simp add: pool_at_def i(2) make_runtime_def)
  have next0: "p_next p = 0" using assms(3) by (auto simp: new_pool_def)
  note b = pool_along_traffic [OF i(1), of before]
  have total: "?m + length ?out < 2 ^ 64" using assms(10) by (simp add: sent_append assms(9))
  have pw: "p_urls (pool_at (tf_router w) i) = p_urls p" "unat (p_next (pool_at (tf_router w) i)) = ?m"
    using b pool_position [OF assms(5), of "sent i before w0"] total
    by (simp_all add: assms(9) p0 next0 unsigned_of_nat take_bit_nat_eq_self)
  have "fst (run_outputs (\<lambda>_. pool_next) ?out (pool_at (tf_router w) i)) = map Some us"
    using picks_round_from [of "pool_at (tf_router w) i" ?out] assms(5,6) total by (simp add: pw assms(11))
  moreover have "list_all2 (directed (ro_trust (tf_router w0))) ?out
      (fst (run_outputs (\<lambda>_. pool_next) ?out (pool_at (tf_router w) i)))"
    using pool_along_traffic [of i w window] b by (simp add: assms(9))
  ultimately have "list_all2 (directed (ro_trust (tf_router w0))) ?out (map Some us)" by simp
  then have "\<forall>n < length ?out. snd (?out ! n) = direct_to (ro_trust (tf_router w0)) (us ! n) (visit_request (fst (?out ! n)))"
    by (auto simp: list_all2_conv_all_nth directed_def)
  moreover have "length us = length ?out" by (simp add: assms(11) round_from_def)
  ultimately show ?thesis using round_from_fair by (simp add: assms(11))
qed

subsection \<open>Sample\<close>

definition balanced_site :: site where
  "balanced_site = (plain_site ''x'' [] ''a:1'')\<lparr>s_upstreams := [''a:1'', ''b:2'']\<rparr>"

definition balanced_start :: traffic where
  "balanced_start =
     \<lparr>tf_router = republish [balanced_site] (start_router\<lparr>ro_store := replace_sites [balanced_site] new_store\<rparr>),
      tf_flights = []\<rparr>"

text \<open>Two requests side by side, and a reload while both are under way.\<close>

definition pair :: "traffic_event list" where
  "pair = [Request_Arrives visit_x, Request_Arrives visit_x] @ concat (replicate 4 [Advance_Request 0, Advance_Request 1]) @
     [Publish_Runtimes [new_site_x], Advance_Request 1, Advance_Request 0]"

lemma pair_sent: "map (\<lambda>x. ru_host (rq_url (snd x))) (sent 0 pair balanced_start) = [''a:1'', ''b:2'']"
  by code_simp

theorem overlapping_pool_fair_witness:
  "count_list (round_from [sample_url ''a:1'', sample_url ''b:2''] 0 (length (sent 0 pair balanced_start)))
     (sample_url ''b:2'') \<in> {1, Suc 1} \<and> length (sent 0 pair balanced_start) = 2"
proof -
  let ?p = "\<lparr>p_urls = [sample_url ''a:1'', sample_url ''b:2''], p_next = 0\<rparr> :: pool"
  have p: "new_pool (s_upstreams balanced_site) = Some ?p" by code_simp
  have n: "no_clash [balanced_site] balanced_site" by code_simp
  have s: "balanced_site \<in> set [balanced_site]" "s_enabled balanced_site" by code_simp+
  have u: "p_urls ?p \<noteq> []" "length (p_urls ?p) < 2 ^ 64" by simp_all
  have r: "tf_router balanced_start = republish [balanced_site] (start_router\<lparr>ro_store := replace_sites [balanced_site] new_store\<rparr>)"
    by (simp add: balanced_start_def)
  have i: "gm_get (ro_runtimes (tf_router balanced_start)) (s_domain balanced_site) = Some 0" by code_simp
  have w: "balanced_start = traffic_run [] balanced_start" by (simp add: traffic_run_def)
  have len: "length (sent 0 pair balanced_start) = 2" using arg_cong [OF pair_sent, of length] by simp
  then have l: "length (sent 0 ([] @ pair) balanced_start) < 2 ^ 64" by simp
  have "distinct (p_urls ?p)" "sample_url ''b:2'' \<in> set (p_urls ?p)" by (simp_all add: sample_url_def)
  moreover have "(2 :: nat) div Suc (Suc 0) = 1" unfolding numeral_2_eq_2 by simp
  ultimately show ?thesis
    using overlapping_pool_fair [OF s p n u r i w l refl, of "sample_url ''b:2''"] len by (simp add: round_from_def)
qed

end
