(* ===== verification/App.thy ===== *)
theory App
  imports Ui_Edit
begin

section \<open>The application behind the listeners, and the well-formedness of its state\<close>

text \<open>
  The handlers that \<open>internal/server/server.go\<close> puts behind the three listeners: the router
  behind certmagic's challenge handler for HTTP, the router for HTTPS, the admin interface.
  A connection has TLS exactly when it came through the HTTPS listener. The challenge
  handler is a parameter: the answer to a challenge request, \<open>None\<close> for any other.
\<close>

datatype listener = Http | Https | Admin

record server_deps =
  sd_ui :: ui_server
  sd_challenge :: "request \<Rightarrow> writer \<Rightarrow> writer option"

record arrival =
  ar_transport :: transport
  ar_tick :: tick
  ar_now :: int
  ar_writer :: writer
  ar_request :: request

definition route_request :: "arrival \<Rightarrow> request \<Rightarrow> app \<Rightarrow> outcome \<times> app" where
  "route_request a req s =
     (let (out, sys) = serve_request (ar_transport a, ar_tick a, ar_writer a, req) (ap_sys s)
      in (out, s\<lparr>ap_sys := sys\<rparr>))"

definition serve_on :: "server_deps \<Rightarrow> listener \<Rightarrow> arrival \<Rightarrow> app \<Rightarrow> outcome \<times> app" where
  "serve_on d l a s =
     (let req = (ar_request a)\<lparr>rq_tls := (l = Https)\<rparr>
      in case l of
           Http \<Rightarrow>
             (case sd_challenge d req (ar_writer a) of
                Some w \<Rightarrow> (Finished w, s)
              | None \<Rightarrow> route_request a req s)
         | Https \<Rightarrow> route_request a req s
         | Admin \<Rightarrow> (let (w, s1) = ui_handler (sd_ui d) (ar_now a) req (ar_writer a) s in (Finished w, s1)))"

definition stop_router :: "app \<Rightarrow> app" where
  "stop_router s = s\<lparr>ap_sys := (ap_sys s)\<lparr>sy_router := stop (sy_router (ap_sys s))\<rparr>\<rparr>"

subsection \<open>Well-formed state\<close>

text \<open>
  What the code takes for granted when it indexes a slice or follows a pointer: ring and
  buckets have their length and indices stay inside, names map to sites and runtimes that
  exist, pools are not empty, limiters have a positive rate and no bucket above the burst.
\<close>

definition metrics_ok :: "site_metrics \<Rightarrow> bool" where
  "metrics_ok m \<longleftrightarrow>
     length (m_buckets m) = bucket_count \<and> length (m_latency m) = lat_ring_size \<and>
     m_latency_idx m < lat_ring_size \<and> m_latency_n m \<le> lat_ring_size \<and> gm_ok (m_status m)"

definition registry_ok :: "registry \<Rightarrow> bool" where
  "registry_ok reg \<longleftrightarrow> gm_ok reg \<and> (\<forall>d m. gm_get reg d = Some m \<longrightarrow> metrics_ok m)"

definition limiter_ok :: "limiter \<Rightarrow> bool" where
  "limiter_ok l \<longleftrightarrow>
     0 < l_rps l \<and> gm_ok (l_buckets l) \<and> (\<forall>k b. gm_get (l_buckets l) k = Some b \<longrightarrow> tb_tokens b \<le> l_burst l)"

definition runtime_ok :: "runtime \<Rightarrow> bool" where
  "runtime_ok rt \<longleftrightarrow>
     site_ok (rn_site rt) \<and> p_urls (rn_pool rt) \<noteq> [] \<and>
     (case rn_limiter rt of None \<Rightarrow> True | Some l \<Rightarrow> limiter_ok l)"

definition router_ok :: "router \<Rightarrow> bool" where
  "router_ok r \<longleftrightarrow>
     store_ok (ro_store r) \<and> (\<forall>s \<in> set (st_sites (ro_store r)). site_ok s \<and> plain_file s) \<and>
     registry_ok (ro_registry r) \<and> heap_ok (ro_heap r, ro_runtimes r) \<and> (\<forall>rt \<in> set (ro_heap r). runtime_ok rt)"

definition app_ok :: "app \<Rightarrow> bool" where
  "app_ok s \<longleftrightarrow> fs_ok (ap_fs s) \<and> router_ok (sy_router (ap_sys s))"

subsubsection \<open>Metrics\<close>

lemma metrics_ok_new: "metrics_ok new_site_metrics"
  by (simp add: metrics_ok_def new_site_metrics_def lat_ring_size_def)

lemma metrics_ok_record: "metrics_ok m \<Longrightarrow> record_sample now sm m = Some m' \<Longrightarrow> metrics_ok m'"
  by (auto simp: metrics_ok_def record_sample_def record_locked_def count_status_def push_latency_def
      record_totals_def lat_ring_size_def split: option.splits)

lemma registry_ok_record:
  assumes "registry_ok reg" "registry_record d now sm reg = Some reg'"
  shows "registry_ok reg'"
proof -
  have "metrics_ok m" if "gm_get reg' x = Some m" for x m
  proof (cases "x = d")
    case True
    have "metrics_ok (case gm_get reg d of None \<Rightarrow> new_site_metrics | Some m \<Rightarrow> m)"
      using assms(1) metrics_ok_new by (auto simp: registry_ok_def split: option.split)
    moreover have "record_sample now sm (case gm_get reg d of None \<Rightarrow> new_site_metrics | Some m \<Rightarrow> m) = Some m"
      using registry_record_get [OF assms(2), of x] that True by simp
    ultimately show ?thesis by (rule metrics_ok_record)
  next
    case False
    then show ?thesis
      using registry_record_get [OF assms(2), of x] that assms(1) by (simp add: registry_ok_def)
  qed
  moreover have "gm_ok reg'" using registry_record_ok assms by (auto simp: registry_ok_def)
  ultimately show ?thesis by (simp add: registry_ok_def)
qed

lemma registry_ok_prune: "registry_ok reg \<Longrightarrow> registry_ok (prune keep reg)"
  by (auto simp: registry_ok_def prune_get split: if_splits)

text \<open>Recording never fails on a clock past 1970.\<close>

lemma registry_record_Some: "0 \<le> now \<Longrightarrow> registry_record d now sm reg \<noteq> None"
  by (simp add: registry_record_def case_prod_beta record_sample_def record_locked_def bucket_index_nonneg)

subsubsection \<open>Limiters and runtimes\<close>

lemma limiter_ok_new: "new_limiter rps burst = Some l \<Longrightarrow> limiter_ok l"
  by (auto simp: new_limiter_def limiter_ok_def Let_def split: if_splits)

lemma bucket_allow_tokens:
  assumes "\<And>b. tb = Some b \<Longrightarrow> tb_tokens b \<le> burst"
  shows "tb_tokens (snd (bucket_allow rps burst now tb)) \<le> burst"
  by (cases tb) (simp_all add: bucket_allow_def Let_def)

lemma limiter_ok_allow: "limiter_ok l \<Longrightarrow> limiter_ok (snd (limiter_allow req l))"
  using bucket_allow_tokens [of _ "l_burst l" "l_rps l"]
  by (auto simp: limiter_ok_def limiter_allow_def case_prod_beta Let_def gomap_simps)

lemma allow_ok:
  "(case l of None \<Rightarrow> True | Some x \<Rightarrow> limiter_ok x) \<Longrightarrow>
     (case snd (allow req l) of None \<Rightarrow> True | Some x \<Rightarrow> limiter_ok x)"
  using limiter_ok_allow by (cases l) (auto simp: allow_def case_prod_beta)

lemma parse_upstreams_length: "parse_upstreams ups = Some us \<Longrightarrow> length us = length ups"
  by (induction ups arbitrary: us) (auto split: option.splits)

lemma runtime_ok_make:
  assumes "site_ok s" "new_pool (s_upstreams s) = Some p"
  shows "runtime_ok (make_runtime s p)"
proof -
  have "p_urls p \<noteq> []"
    using assms parse_upstreams_length [of "s_upstreams s"] by (auto simp: new_pool_def site_ok_def)
  moreover have "case (if rl_enabled (s_rate_limit s) then new_limiter (rl_rps (s_rate_limit s)) (rl_burst (s_rate_limit s)) else None) of
      None \<Rightarrow> True | Some l \<Rightarrow> limiter_ok l"
    using limiter_ok_new by (auto split: option.split)
  ultimately show ?thesis using assms(1) by (simp add: runtime_ok_def make_runtime_def)
qed

lemma add_runtimes_ok:
  "(\<forall>s \<in> set ss. site_ok s) \<Longrightarrow> (\<forall>rt \<in> set (fst hm). runtime_ok rt) \<Longrightarrow>
     (\<forall>rt \<in> set (fst (fold add_runtime ss hm)). runtime_ok rt)"
proof (induction ss arbitrary: hm)
  case (Cons s ss)
  then have "\<forall>rt \<in> set (fst (add_runtime s hm)). runtime_ok rt"
    using runtime_ok_make by (auto simp: add_runtime_def split: option.splits)
  with Cons show ?case by simp
qed simp

lemma router_ok_reload:
  assumes "router_ok r" "\<forall>s \<in> set ss. site_ok s"
  shows "router_ok (reload ss r)"
proof -
  have "heap_ok (ro_heap (reload ss r), ro_runtimes (reload ss r))"
    using fold_add_runtime [of ss] by (simp add: reload_fields)
  moreover have "fst (ro_heap (reload ss r), ro_runtimes (reload ss r)) = fst (fold add_runtime ss ([], gm_empty))"
    by (simp only: reload_fields(5))
  then have "\<forall>rt \<in> set (ro_heap (reload ss r)). runtime_ok rt"
    using add_runtimes_ok [of ss "([], gm_empty)"] assms(2) by simp
  ultimately show ?thesis using assms(1) by (simp add: router_ok_def reload_fields(1,2))
qed

lemma router_ok_replace:
  "router_ok r \<Longrightarrow> \<forall>s \<in> set ss. site_ok s \<and> plain_file s \<Longrightarrow> router_ok (r\<lparr>ro_store := replace_sites ss (ro_store r)\<rparr>)"
  using store_ok_replace [of ss "ro_store r"] by (simp add: router_ok_def) (simp add: replace_sites_def)

lemma router_ok_apply:
  assumes "router_ok (sy_router sys)" "\<forall>s \<in> set ss. site_ok s \<and> plain_file s"
  shows "router_ok (sy_router (apply_sites ss sys))"
proof -
  have "router_ok (install ss (sy_router sys))"
    unfolding install_def using router_ok_replace [OF assms] assms(2) by (intro router_ok_reload) simp_all
  then show ?thesis
    using registry_ok_prune assms(1) by (simp add: apply_sites_router router_ok_def install_def reload_fields)
qed

subsubsection \<open>Serving\<close>

lemma heap_ok_update: "heap_ok (xs[i := x], m) = heap_ok (xs, m)"
  by (simp add: heap_ok_def)

lemma router_ok_set_runtime:
  "router_ok r \<Longrightarrow> runtime_ok rt \<Longrightarrow> router_ok (set_runtime i rt r)"
  using set_update_subset_insert [of "ro_heap r" i rt]
  by (auto simp: router_ok_def set_runtime_def heap_ok_update)

lemma router_ok_finish: "router_ok r \<Longrightarrow> router_ok (snd (finish d st b tk w r))"
  using registry_ok_record
  by (auto simp: finish_def record_metric_def router_ok_def split: option.splits)

lemma router_ok_proxy:
  assumes "router_ok r" "runtime_ok (ro_heap r ! i)"
  shows "router_ok (snd (proxy_request tr tk w req d i r))"
proof -
  let ?rt = "ro_heap r ! i"
  obtain out p1 where dir: "director (ro_trust r) (rn_pool ?rt) req = (out, p1)" by fastforce
  have "p_urls p1 = p_urls (rn_pool ?rt)" using director_urls [of "ro_trust r" "rn_pool ?rt" req] dir by simp
  then have "router_ok (set_runtime i (?rt\<lparr>rn_pool := p1\<rparr>) r)"
    using assms by (intro router_ok_set_runtime) (simp_all add: runtime_ok_def)
  then show ?thesis
    using router_ok_finish by (simp add: proxy_request_def dir Let_def split: exchange.split)
qed

lemma router_ok_runtime:
  assumes "router_ok r" "i < length (ro_heap r)"
  shows "router_ok (snd (serve_runtime tr tk w req d i r))"
proof -
  let ?rt = "ro_heap r ! i"
  obtain ok l1 where al: "allow (client_ip req (ro_trust r), tk_now tk) (rn_limiter ?rt) = (ok, l1)" by fastforce
  have rt: "runtime_ok ?rt" using assms by (simp add: router_ok_def)
  then have rt1: "runtime_ok (?rt\<lparr>rn_limiter := l1\<rparr>)"
    using allow_ok [of "rn_limiter ?rt" "(client_ip req (ro_trust r), tk_now tk)"] al by (simp add: runtime_ok_def)
  let ?r1 = "set_runtime i (?rt\<lparr>rn_limiter := l1\<rparr>) r"
  have r1: "router_ok ?r1" by (rule router_ok_set_runtime [OF assms(1) rt1])
  moreover have "runtime_ok (ro_heap ?r1 ! i)" using assms(2) rt1 by (simp add: set_runtime_def)
  ultimately show ?thesis
    using router_ok_finish router_ok_proxy by (simp add: serve_runtime_def al Let_def)
qed

lemma runtime_index: "router_ok r \<Longrightarrow> gm_get (ro_runtimes r) d = Some i \<Longrightarrow> i < length (ro_heap r)"
  by (simp add: router_ok_def heap_ok_def)

lemma router_ok_serve:
  assumes "router_ok r"
  shows "router_ok (snd (serve_http tr tk w req r))"
  using assms router_ok_runtime [OF assms runtime_index [OF assms]]
  by (auto simp: serve_http_def split: option.split)

lemma router_ok_request: "router_ok (sy_router sys) \<Longrightarrow> router_ok (sy_router (snd (serve_request v sys)))"
  using router_ok_serve by (auto simp: serve_request_def serve_step_def case_prod_beta split: prod.split)

text \<open>A handler panics only when it gives up an exchange with an upstream that was under way.\<close>

definition given_up :: "arrival \<Rightarrow> router \<Rightarrow> writer \<Rightarrow> bool" where
  "given_up a r w \<longleftrightarrow>
     (\<exists>i req out c. i < length (ro_heap r) \<and> w = c_writer c \<and>
        proxy_serve (modify_response (s_custom_headers (rn_site (ro_heap r ! i)))) (ar_transport a) req out
          (new_counting (ar_writer a)) = Aborted c)"

lemma finish_Finished: "0 \<le> tk_sec tk \<Longrightarrow> fst (finish d st b tk w r) = Finished w"
  using registry_record_Some [of "tk_sec tk" d _ "ro_registry r"]
  by (auto simp: finish_def record_metric_def split: option.split)

lemma serve_http_cases:
  "(\<exists>w1. serve_http tr tk w req r = (Finished w1, r)) \<or>
   (\<exists>d i. gm_get (ro_runtimes r) d = Some i \<and> serve_http tr tk w req r = serve_runtime tr tk w req d i r)"
  by (auto simp: serve_http_def split: option.split)

lemma serve_http_panic:
  assumes "router_ok r" "0 \<le> tk_sec (ar_tick a)"
    and "fst (serve_http (ar_transport a) (ar_tick a) (ar_writer a) req r) = Panicked w'"
  shows "given_up a r w'"
proof -
  obtain d i where i: "gm_get (ro_runtimes r) d = Some i"
    and run: "fst (serve_runtime (ar_transport a) (ar_tick a) (ar_writer a) req d i r) = Panicked w'"
    using serve_http_cases [of "ar_transport a" "ar_tick a" "ar_writer a" req r] assms(3) by auto
  obtain ok l1 where al: "allow (client_ip req (ro_trust r), tk_now (ar_tick a)) (rn_limiter (ro_heap r ! i)) = (ok, l1)"
    by fastforce
  have i': "i < length (ro_heap r)" using runtime_index [OF assms(1) i] .
  let ?r1 = "set_runtime i ((ro_heap r ! i)\<lparr>rn_limiter := l1\<rparr>) r"
  have "fst (proxy_request (ar_transport a) (ar_tick a) (ar_writer a) req d i ?r1) = Panicked w'"
    using run finish_Finished [OF assms(2)] by (simp add: serve_runtime_def al Let_def split: if_splits)
  moreover have "rn_site (ro_heap ?r1 ! i) = rn_site (ro_heap r ! i)" using i' by (simp add: set_runtime_def)
  ultimately show ?thesis
    using i' finish_Finished [OF assms(2)] unfolding given_up_def proxy_request_def
    by (auto simp: case_prod_beta Let_def split: exchange.splits)
qed

subsubsection \<open>The admin interface\<close>

lemma loaded_sites_ok:
  "fs_ok fs \<Longrightarrow> dir \<noteq> [] \<Longrightarrow> \<forall>s \<in> set (fst (load_sites Y fs dir)). site_ok s \<and> plain_file s"
  using loaded_plain by (auto simp: plain_file_def)

lemma app_ok_trigger: "ui_sites_dir srv \<noteq> [] \<Longrightarrow> app_ok s \<Longrightarrow> app_ok (trigger_reload srv s)"
  using router_ok_apply [OF _ loaded_sites_ok [of "ap_fs s" "ui_sites_dir srv" "ui_yaml srv"]]
  by (auto simp: trigger_reload_def app_ok_def reload_callback_def case_prod_beta)

lemma app_ok_files: "app_ok s \<Longrightarrow> fs_ok fs \<Longrightarrow> app_ok (s\<lparr>ap_fs := fs\<rparr>)"
  by (simp add: app_ok_def)

lemma app_ok_create:
  assumes "ui_sites_dir srv \<noteq> []" "app_ok s"
  shows "app_ok (snd (create_or_update_site srv now existing req w s))"
proof (cases "parse_form req")
  case (Some f)
  obtain res fs1 where save: "save_site (ui_yaml srv) (ui_sites_dir srv) (site_from_form f existing) (ap_fs s) = (res, fs1)"
    by fastforce
  have "app_ok (s\<lparr>ap_fs := fs1\<rparr>)"
    using save_site_more(1) [OF _ save] assms(2) by (simp add: app_ok_def)
  then show ?thesis
    using app_ok_trigger [OF assms(1)] by (simp add: create_or_update_site_def Some save Let_def split: sum.split)
qed (simp add: create_or_update_site_def assms(2))

lemma app_ok_remove:
  assumes "ui_sites_dir srv \<noteq> []" "app_ok s"
  shows "app_ok (snd (remove_site srv n req w s))"
proof -
  obtain res fs1 where del: "delete_site (ui_sites_dir srv) n (ap_fs s) = (res, fs1)" by fastforce
  have "fs_ok (ap_fs s)" using assms(2) by (simp add: app_ok_def)
  have "fs_ok fs1" using del \<open>fs_ok (ap_fs s)\<close> by (cases rule: delete_site_cases) (auto dest: remove_file_result(3))
  then have "app_ok (s\<lparr>ap_fs := fs1\<rparr>)" using assms(2) by (simp add: app_ok_def)
  then show ?thesis
    using app_ok_trigger [OF assms(1)] assms(2) by (simp add: remove_site_def del Let_def split: option.split)
qed

lemma app_ok_update:
  assumes "app_ok s" "site_ok st" "plain_file st"
  shows "app_ok (update_site i st s)"
  using assms set_update_subset_insert [of "st_sites (current_store s)" i st]
  by (auto simp: app_ok_def router_ok_def update_site_def current_store_def store_ok_def)

lemma app_ok_toggle:
  assumes "ui_sites_dir srv \<noteq> []" "app_ok s" "pos = None \<or> (\<exists>i. pos = Some i \<and> i < length (st_sites (current_store s)))"
  shows "app_ok (snd (toggle_site srv pos req w s))"
proof (cases pos)
  case (Some i)
  let ?old = "st_sites (current_store s) ! i"
  let ?st = "?old\<lparr>s_enabled := \<not> s_enabled ?old\<rparr>"
  have "?old \<in> set (st_sites (current_store s))" using assms(3) Some by simp
  then have "site_ok ?old" "plain_file ?old"
    using assms(2) by (simp_all add: app_ok_def router_ok_def current_store_def)
  then have "site_ok ?st" "plain_file ?st" by (simp_all add: site_ok_def plain_file_def)
  from app_ok_update [OF assms(2) this] have upd: "app_ok (update_site i ?st s)" .
  obtain res fs1 where save: "save_site (ui_yaml srv) (ui_sites_dir srv) ?st (ap_fs s) = (res, fs1)" by fastforce
  have "app_ok ((update_site i ?st s)\<lparr>ap_fs := fs1\<rparr>)"
    using save_site_more(1) [OF _ save] assms(2) by (intro app_ok_files [OF upd]) (simp add: app_ok_def)
  then show ?thesis
    using app_ok_trigger [OF assms(1)] save by (simp add: toggle_site_def Some Let_def split: sum.split)
qed (simp add: toggle_site_def assms(2))

lemma app_ok_page:
  assumes "ui_sites_dir srv \<noteq> []" "app_ok s"
  shows "app_ok (snd (run_page srv now h req w s))"
proof -
  have pos: "find_site n (current_store s) = None \<or>
      (\<exists>i. find_site n (current_store s) = Some i \<and> i < length (st_sites (current_store s)))" for n
    by (cases "find_site n (current_store s)") (auto dest: find_site_SomeD)
  have "app_ok (snd (handle_sites_item srv now req w s))"
    using app_ok_toggle [OF assms pos] app_ok_remove [OF assms] app_ok_create [OF assms] assms(2)
    by (simp add: handle_sites_item_def show_or_save_def Let_def split: option.split)
  then show ?thesis
    using app_ok_create [OF assms] assms(2)
    by (cases h) (simp_all add: run_page_def read_only_pages handle_sites_list_def)
qed

lemma app_ok_ui: "ui_sites_dir srv \<noteq> [] \<Longrightarrow> app_ok s \<Longrightarrow> app_ok (snd (ui_handler srv now req w s))"
  using ui_state [of srv now req w s] app_ok_page [of srv s now _ req w] by metis

lemma app_ok_route: "app_ok s \<Longrightarrow> app_ok (snd (route_request a req s))"
  using router_ok_request by (simp add: route_request_def app_ok_def case_prod_beta)

lemma app_ok_serve_on: "ui_sites_dir (sd_ui d) \<noteq> [] \<Longrightarrow> app_ok s \<Longrightarrow> app_ok (snd (serve_on d l a s))"
  using app_ok_route app_ok_ui
  by (auto simp: serve_on_def Let_def case_prod_beta split: listener.split option.split)

lemma app_ok_stop: "app_ok s \<Longrightarrow> app_ok (stop_router s)"
  by (simp add: app_ok_def stop_router_def stop_def router_ok_def)

subsection \<open>The running program\<close>

text \<open>
  What can happen to the state: a request on one of the listeners, a file written or removed
  by hand, a reload of the watcher, the stop of the router.
\<close>

datatype app_event =
    Arrive listener arrival
  | Write_By_Hand string string
  | Remove_By_Hand string
  | Watcher_Reload
  | Stop_Router

definition app_step :: "server_deps \<Rightarrow> app_event \<Rightarrow> app \<Rightarrow> outcome option \<times> app" where
  "app_step d ev s =
     (case ev of
        Arrive l a \<Rightarrow> (let (out, s1) = serve_on d l a s in (Some out, s1))
      | Write_By_Hand p b \<Rightarrow> (None, s\<lparr>ap_fs := (ap_fs s)\<lparr>fs_nodes := gm_put p (FFile b) (fs_nodes (ap_fs s))\<rparr>\<rparr>)
      | Remove_By_Hand p \<Rightarrow> (None, s\<lparr>ap_fs := (ap_fs s)\<lparr>fs_nodes := gm_del p (fs_nodes (ap_fs s))\<rparr>\<rparr>)
      | Watcher_Reload \<Rightarrow>
          (None, s\<lparr>ap_sys := snd (watcher_reload (ui_yaml (sd_ui d)) (ap_fs s) (ui_sites_dir (sd_ui d)) (ap_sys s))\<rparr>)
      | Stop_Router \<Rightarrow> (None, stop_router s))"

definition ready :: "server_deps \<Rightarrow> app \<Rightarrow> bool" where
  "ready d s \<longleftrightarrow> ui_sites_dir (sd_ui d) \<noteq> [] \<and> app_ok s"

lemma by_hand_ok:
  "fs_ok fs \<Longrightarrow> fs_ok (fs\<lparr>fs_nodes := gm_put p n (fs_nodes fs)\<rparr>)"
  "fs_ok fs \<Longrightarrow> fs_ok (fs\<lparr>fs_nodes := gm_del p (fs_nodes fs)\<rparr>)"
  by (simp_all add: fs_ok_def gomap_simps)

lemma app_ok_watcher:
  "dir \<noteq> [] \<Longrightarrow> app_ok s \<Longrightarrow> app_ok (s\<lparr>ap_sys := snd (watcher_reload Y (ap_fs s) dir (ap_sys s))\<rparr>)"
  using router_ok_apply [OF _ loaded_sites_ok [of "ap_fs s" dir Y]]
  by (simp add: app_ok_def watcher_reload_def case_prod_beta)

lemma app_ok_fs: "app_ok s \<Longrightarrow> fs_ok (ap_fs s)"
  by (simp add: app_ok_def)

lemma app_step_ok: "ready d s \<Longrightarrow> ready d (snd (app_step d ev s))"
  by (cases ev)
    (simp_all add: ready_def app_step_def case_prod_beta app_ok_serve_on app_ok_stop app_ok_watcher
      app_ok_files by_hand_ok app_ok_fs)

interpretation running: stable_machine "app_step d" "ready d" for d
  by unfold_locales (rule app_step_ok)

text \<open>The clock of an arrival is past the start of 1970.\<close>

definition timely :: "app_event \<Rightarrow> bool" where
  "timely ev \<longleftrightarrow> (case ev of Arrive l a \<Rightarrow> 0 \<le> tk_sec (ar_tick a) | _ \<Rightarrow> True)"

lemma app_step_panic:
  assumes "ready d s" "timely ev" "fst (app_step d ev s) = Some (Panicked w)"
  shows "\<exists>l a. ev = Arrive l a \<and> given_up a (sy_router (ap_sys s)) w"
proof -
  obtain l a where ev: "ev = Arrive l a" "fst (serve_on d l a s) = Panicked w"
    using assms(3) by (cases ev) (auto simp: app_step_def case_prod_beta)
  have "\<exists>req. fst (route_request a req s) = Panicked w"
    using ev(2) by (auto simp: serve_on_def Let_def case_prod_beta split: listener.splits option.splits)
  then obtain req where "fst (serve_http (ar_transport a) (ar_tick a) (ar_writer a) req (sy_router (ap_sys s))) = Panicked w"
    by (auto simp: route_request_def serve_request_def serve_step_def case_prod_beta)
  then show ?thesis
    using serve_http_panic [of "sy_router (ap_sys s)" a req w] assms(1,2) ev(1)
    by (simp add: ready_def app_ok_def timely_def)
qed

lemma router_ok_new: "router_ok (new_router new_store new_registry trust)"
  using store_ok_new by (simp add: router_ok_def new_router_def new_store_def registry_ok_def new_registry_def heap_ok_def)

definition sample_deps :: server_deps where
  "sample_deps = \<lparr>sd_ui = sample_srv, sd_challenge = (\<lambda>req w. None)\<rparr>"

lemma sample_ready: "ready sample_deps sample_app"
proof -
  have "app_ok \<lparr>ap_fs = sample_fs, ap_sys = sample_system\<rparr>"
    using router_ok_new sample_fs_ok(1) by (simp add: app_ok_def sample_system_def start_router_def)
  moreover have "ui_sites_dir sample_srv \<noteq> []" by (simp add: sample_srv_def)
  ultimately show ?thesis
    using app_ok_trigger unfolding sample_app_def by (auto simp: ready_def sample_deps_def)
qed

text \<open>
  C4: the program's data stay well formed, and no handler fails on them. Through any
  sequence of requests on the three listeners, edits of files by hand, reloads of the
  watcher and the stop of the router, every name leads to a site and a runtime that exist,
  pools are not empty, rings and buckets keep their sizes with all positions inside, and no
  token bucket exceeds its burst; and in every such state the only panic of a handler is the
  deliberate one that breaks off an exchange with an upstream.\<close>
theorem state_stays_well_formed:
  assumes "ready d s" "s' = snd (run_outputs (app_step d) evs s)"
  shows "app_ok s' \<and>
    (\<forall>ev w. timely ev \<and> fst (app_step d ev s') = Some (Panicked w) \<longrightarrow>
       (\<exists>l a. ev = Arrive l a \<and> given_up a (sy_router (ap_sys s')) w))"
proof -
  have ready: "ready d s'" using running.run_inv [OF assms(1)] assms(2) by blast
  have "\<exists>l a. ev = Arrive l a \<and> given_up a (sy_router (ap_sys s')) w"
    if "timely ev \<and> fst (app_step d ev s') = Some (Panicked w)" for ev w
    using app_step_panic [OF ready] that by blast
  with ready show ?thesis by (simp add: ready_def)
qed

theorem state_stays_well_formed_witness:
  "app_ok (snd (run_outputs (app_step sample_deps) [Watcher_Reload, Write_By_Hand ''/d/c.yml'' ''S'', Stop_Router] sample_app))"
  using state_stays_well_formed [OF sample_ready refl] by blast

end
