(* ===== verification/Server_Run.thy ===== *)
theory Server_Run
  imports App
begin

section \<open>The life of the server: listeners, shutdown, drain\<close>

text \<open>
  \<open>Run\<close> of \<open>internal/server/server.go\<close> as a step relation: the goroutine that runs it, the three
  goroutines of the listeners with their wait group and error channel, requests in progress,
  the signal and the clock (milliseconds). A listener binds, then accepts; it may fail at
  any time, and ends without an error once its server has been shut down. A request in
  progress is handled in one step at some point between its start and its end. Shutdown
  closes the listener at once and returns when no request is in progress or the drain
  deadline has passed. Connections that have not sent a request yet, and hijacked ones, are
  left out.
\<close>

datatype listen_state = Not_Started | Binding | Up | Down

datatype run_pc =
    Launching "listener list"
  | Selecting
  | Stopping
  | Closing listener
  | Draining listener
  | Joining
  | Returned

definition drain_time :: int where
  "drain_time = 30000"

definition error_capacity :: nat where
  "error_capacity = 3"

record life =
  rv_pc :: run_pc
  rv_listen :: "listener \<Rightarrow> listen_state"
  rv_shut :: "listener \<Rightarrow> bool"
  rv_wait :: nat
  rv_errors :: "listener list"
  rv_cancelled :: bool
  rv_deadline :: int
  rv_busy :: "listener \<Rightarrow> nat"
  rv_now :: int
  rv_app :: app

text \<open>The three servers are shut down one after the other.\<close>

definition after_drain :: "listener \<Rightarrow> run_pc" where
  "after_drain l = (case l of Http \<Rightarrow> Closing Https | Https \<Rightarrow> Closing Admin | Admin \<Rightarrow> Joining)"

definition launch :: "listener \<Rightarrow> listener list \<Rightarrow> life \<Rightarrow> life" where
  "launch l ls w =
     w\<lparr>rv_pc := (if ls = [] then Selecting else Launching ls), rv_wait := rv_wait w + 1,
       rv_listen := (rv_listen w)(l := Binding)\<rparr>"

definition exit_listener :: "listener \<Rightarrow> bool \<Rightarrow> life \<Rightarrow> life" where
  "exit_listener l failed w =
     w\<lparr>rv_errors := (if failed then rv_errors w @ [l] else rv_errors w), rv_wait := rv_wait w - 1,
       rv_listen := (rv_listen w)(l := Down)\<rparr>"

definition begin_drain :: "life \<Rightarrow> life" where
  "begin_drain w =
     w\<lparr>rv_pc := Closing Http, rv_app := stop_router (rv_app w), rv_deadline := rv_now w + drain_time\<rparr>"

datatype life_kind =
    Launch | Bind | Fail | Ended | Chosen | Stopped | Shutdown | Drained | Joined
  | Cancel | Tick_Passes | Begin_Request | Handle_Request | End_Request | Other_Event

inductive life_step :: "server_deps \<Rightarrow> life_kind \<Rightarrow> life \<Rightarrow> life \<Rightarrow> bool" for d :: server_deps where
  launch: "rv_pc w = Launching (l # ls) \<Longrightarrow> life_step d Launch w (launch l ls w)"
| bind: "rv_listen w l = Binding \<Longrightarrow> \<not> rv_shut w l \<Longrightarrow>
    life_step d Bind w (w\<lparr>rv_listen := (rv_listen w)(l := Up)\<rparr>)"
| fail: "rv_listen w l \<in> {Binding, Up} \<Longrightarrow> \<not> rv_shut w l \<Longrightarrow> length (rv_errors w) < error_capacity \<Longrightarrow>
    life_step d Fail w (exit_listener l True w)"
| ended: "rv_listen w l \<in> {Binding, Up} \<Longrightarrow> rv_shut w l \<Longrightarrow> life_step d Ended w (exit_listener l False w)"
| chosen_cancel: "rv_pc w = Selecting \<Longrightarrow> rv_cancelled w \<Longrightarrow> life_step d Chosen w (w\<lparr>rv_pc := Stopping\<rparr>)"
| chosen_error: "rv_pc w = Selecting \<Longrightarrow> rv_errors w = l # ls \<Longrightarrow>
    life_step d Chosen w (w\<lparr>rv_pc := Stopping, rv_errors := ls\<rparr>)"
| stopped: "rv_pc w = Stopping \<Longrightarrow> life_step d Stopped w (begin_drain w)"
| shutdown: "rv_pc w = Closing l \<Longrightarrow>
    life_step d Shutdown w (w\<lparr>rv_pc := Draining l, rv_shut := (rv_shut w)(l := True)\<rparr>)"
| drained: "rv_pc w = Draining l \<Longrightarrow> rv_busy w l = 0 \<or> rv_deadline w \<le> rv_now w \<Longrightarrow>
    life_step d Drained w (w\<lparr>rv_pc := after_drain l\<rparr>)"
| joined: "rv_pc w = Joining \<Longrightarrow> rv_wait w = 0 \<Longrightarrow> life_step d Joined w (w\<lparr>rv_pc := Returned\<rparr>)"
| cancel: "life_step d Cancel w (w\<lparr>rv_cancelled := True\<rparr>)"
| pass: "rv_now w \<le> t \<Longrightarrow> life_step d Tick_Passes w (w\<lparr>rv_now := t\<rparr>)"
| begin_request: "rv_listen w l = Up \<Longrightarrow> \<not> rv_shut w l \<Longrightarrow>
    life_step d Begin_Request w (w\<lparr>rv_busy := (rv_busy w)(l := rv_busy w l + 1)\<rparr>)"
| handle_request: "0 < rv_busy w l \<Longrightarrow>
    life_step d Handle_Request w (w\<lparr>rv_app := snd (serve_on d l a (rv_app w))\<rparr>)"
| end_request: "0 < rv_busy w l \<Longrightarrow>
    life_step d End_Request w (w\<lparr>rv_busy := (rv_busy w)(l := rv_busy w l - 1)\<rparr>)"
| other_event: "ev \<noteq> Stop_Router \<Longrightarrow> \<forall>l a. ev \<noteq> Arrive l a \<Longrightarrow>
    life_step d Other_Event w (w\<lparr>rv_app := snd (app_step d ev (rv_app w))\<rparr>)"

inductive_cases life_stepE: "life_step d k w w'"

text \<open>The steps of \<open>Run\<close> and its goroutines; the others come from outside.\<close>

definition own :: "life_kind \<Rightarrow> bool" where
  "own k \<longleftrightarrow> k \<in> {Launch, Bind, Fail, Ended, Chosen, Stopped, Shutdown, Drained, Joined}"

inductive life_run :: "server_deps \<Rightarrow> life_kind list \<Rightarrow> life \<Rightarrow> life \<Rightarrow> bool" for d :: server_deps where
  here: "life_run d [] w w"
| step: "life_run d ks w w1 \<Longrightarrow> life_step d k w1 w2 \<Longrightarrow> life_run d (ks @ [k]) w w2"

text \<open>The start of \<open>Run\<close>: the context may be cancelled already.\<close>

definition initial_life :: "app \<Rightarrow> bool \<Rightarrow> int \<Rightarrow> life" where
  "initial_life s cancelled now =
     \<lparr>rv_pc = Launching [Http, Https, Admin], rv_listen = (\<lambda>_. Not_Started), rv_shut = (\<lambda>_. False),
      rv_wait = 0, rv_errors = [], rv_cancelled = cancelled, rv_deadline = 0, rv_busy = (\<lambda>_. 0),
      rv_now = now, rv_app = s\<rparr>"

text \<open>\<open>Run\<close> returns nil wherever it returns.\<close>

definition run_result :: "life \<Rightarrow> string option option" where
  "run_result w = (if rv_pc w = Returned then Some None else None)"

subsection \<open>The invariant\<close>

definition all_listeners :: "listener list" where
  "all_listeners = [Http, Https, Admin]"

definition live_count :: "life \<Rightarrow> nat" where
  "live_count w = length (filter (\<lambda>l. rv_listen w l \<in> {Binding, Up}) all_listeners)"

definition to_launch :: "run_pc \<Rightarrow> listener list" where
  "to_launch pc = (case pc of Launching ls \<Rightarrow> ls | _ \<Rightarrow> [])"

text \<open>The servers that \<open>Run\<close> has shut down, by where it is.\<close>

fun shut_by :: "run_pc \<Rightarrow> listener list" where
  "shut_by (Closing l) = takeWhile (\<lambda>x. x \<noteq> l) all_listeners"
| "shut_by (Draining l) = takeWhile (\<lambda>x. x \<noteq> l) all_listeners @ [l]"
| "shut_by Joining = all_listeners"
| "shut_by Returned = all_listeners"
| "shut_by _ = []"

definition draining :: "run_pc \<Rightarrow> bool" where
  "draining pc \<longleftrightarrow> (case pc of Launching ls \<Rightarrow> False | Selecting \<Rightarrow> False | Stopping \<Rightarrow> False | _ \<Rightarrow> True)"

definition life_ok :: "life \<Rightarrow> bool" where
  "life_ok w \<longleftrightarrow>
     rv_wait w = live_count w \<and>
     (\<exists>ls. all_listeners = ls @ to_launch (rv_pc w) \<and> (\<forall>l. rv_listen w l = Not_Started \<longleftrightarrow> l \<in> set (to_launch (rv_pc w)))) \<and>
     rv_pc w \<noteq> Launching [] \<and>
     length (rv_errors w) + live_count w + length (to_launch (rv_pc w)) \<le> error_capacity \<and>
     (\<forall>l. rv_shut w l \<longleftrightarrow> l \<in> set (shut_by (rv_pc w))) \<and>
     (draining (rv_pc w) \<longrightarrow> ro_stopping (sy_router (ap_sys (rv_app w))) \<and> rv_deadline w \<le> rv_now w + drain_time) \<and>
     (rv_pc w = Returned \<longrightarrow> live_count w = 0)"

lemma all_listeners_set: "l \<in> set all_listeners" "distinct all_listeners"
  by (cases l; simp add: all_listeners_def) (simp add: all_listeners_def)

lemma initial_ok: "life_ok (initial_life s c n)"
proof -
  have "l \<in> {Http, Https, Admin}" for l by (cases l) simp_all
  then show ?thesis
    by (simp add: life_ok_def initial_life_def live_count_def to_launch_def all_listeners_def error_capacity_def
        draining_def)
qed

text \<open>Nothing but the stop of the router changes whether it is stopping.\<close>

definition stopping :: "app \<Rightarrow> bool" where
  "stopping s \<longleftrightarrow> ro_stopping (sy_router (ap_sys s))"

lemma stopping_apply: "ro_stopping (sy_router (apply_sites ss sys)) = ro_stopping (sy_router sys)"
  by (simp add: apply_sites_router install_def reload_fields)

lemma stopping_trigger [simp]: "stopping (trigger_reload srv s) = stopping s"
  by (simp add: stopping_def trigger_reload_def reload_callback_def case_prod_beta stopping_apply)

lemma stopping_update [simp]: "stopping (update_site i st s) = stopping s"
  by (simp add: stopping_def update_site_def)

lemma stopping_fs [simp]: "stopping (s\<lparr>ap_fs := fs\<rparr>) = stopping s"
  by (simp add: stopping_def)

lemma stopping_page: "stopping (snd (run_page srv now h req w s)) = stopping s"
proof -
  have create: "stopping (snd (create_or_update_site srv now ex req w s)) = stopping s" for ex
    by (simp add: create_or_update_site_def Let_def case_prod_beta split: option.split sum.split)
  have "stopping (snd (toggle_site srv pos req w s)) = stopping s" for pos
    by (simp add: toggle_site_def Let_def case_prod_beta split: option.split sum.split)
  moreover have "stopping (snd (remove_site srv n req w s)) = stopping s" for n
    by (simp add: remove_site_def Let_def case_prod_beta split: option.split)
  ultimately have "stopping (snd (handle_sites_item srv now req w s)) = stopping s"
    using create by (simp add: handle_sites_item_def show_or_save_def Let_def split: option.split)
  with create show ?thesis
    by (cases h) (simp_all add: run_page_def read_only_pages handle_sites_list_def)
qed

lemma stopping_serve_on: "stopping (snd (serve_on d l a s)) = stopping s"
proof -
  have "stopping (snd (ui_handler srv now req w s)) = stopping s" for srv now req w
    using ui_state [of srv now req w s] stopping_page [of srv now _ req w s] by metis
  moreover have "stopping (snd (route_request a req s)) = stopping s" for req
    using serve_http_shape [of "sy_router (ap_sys s)" "ar_transport a" "ar_tick a" "ar_writer a" req]
    by (simp add: route_request_def serve_request_def serve_step_def case_prod_beta stopping_def same_shape_def)
  ultimately show ?thesis
    by (simp add: serve_on_def Let_def case_prod_beta split: listener.split option.split)
qed

lemma stopping_app_step: "ev \<noteq> Stop_Router \<Longrightarrow> stopping (snd (app_step d ev s)) = stopping s"
  by (cases ev)
    (simp_all add: app_step_def case_prod_beta stopping_serve_on watcher_reload_def,
      simp_all add: stopping_def stopping_apply)

text \<open>Counting the listeners that run.\<close>

lemma live_count_unfold:
  "live_count w = (if rv_listen w Http \<in> {Binding, Up} then 1 else 0) + (if rv_listen w Https \<in> {Binding, Up} then 1 else 0)
     + (if rv_listen w Admin \<in> {Binding, Up} then 1 else 0)"
  by (simp add: live_count_def all_listeners_def)

lemma live_count_update:
  "live_count (w\<lparr>rv_listen := (rv_listen w)(l := x)\<rparr>) =
     (if rv_listen w l \<in> {Binding, Up} then live_count w - 1 else live_count w) + (if x \<in> {Binding, Up} then 1 else 0)"
  by (cases l) (auto simp: live_count_unfold)

lemma live_count_pos: "rv_listen w l \<in> {Binding, Up} \<Longrightarrow> 0 < live_count w"
  by (cases l) (auto simp: live_count_unfold)

lemma life_ok_launch:
  assumes "life_ok w" "rv_pc w = Launching (l # ls)"
  shows "life_ok (launch l ls w)"
proof -
  obtain ks where ks: "all_listeners = ks @ l # ls" "\<And>x. rv_listen w x = Not_Started \<longleftrightarrow> x \<in> set (l # ls)"
    using assms by (auto simp: life_ok_def to_launch_def)
  have "l \<notin> set ls" using all_listeners_set(2) unfolding ks(1) by simp
  moreover have "to_launch (rv_pc (launch l ls w)) = ls" by (cases ls) (simp_all add: launch_def to_launch_def)
  moreover have "live_count (launch l ls w) = live_count w + 1"
    using ks(2) [of l] live_count_update [of "w\<lparr>rv_pc := (if ls = [] then Selecting else Launching ls), rv_wait := rv_wait w + 1\<rparr>" l Binding]
    by (simp add: launch_def) (simp add: live_count_def)
  moreover have "shut_by (rv_pc (launch l ls w)) = []" "\<not> draining (rv_pc (launch l ls w))"
    by (cases ls; simp add: launch_def draining_def)+
  moreover have "rv_pc (launch l ls w) \<noteq> Launching []" by (simp add: launch_def)
  ultimately show ?thesis
    using assms ks
    unfolding life_ok_def by (auto simp: launch_def to_launch_def intro!: exI [of _ "ks @ [l]"])
qed

lemma running_launched:
  assumes "life_ok w" "rv_listen w l \<in> {Binding, Up}"
  shows "l \<notin> set (to_launch (rv_pc w))"
proof -
  have "rv_listen w l \<noteq> Not_Started" using assms(2) by auto
  then show ?thesis using assms(1) by (auto simp: life_ok_def)
qed

lemma life_ok_exit:
  assumes "life_ok w" "rv_listen w l \<in> {Binding, Up}"
  shows "life_ok (exit_listener l failed w)"
proof -
  have "live_count (exit_listener l failed w) = live_count w - 1"
    using assms(2) live_count_update [of "w\<lparr>rv_errors := (if failed then rv_errors w @ [l] else rv_errors w), rv_wait := rv_wait w - 1\<rparr>" l Down]
    by (simp add: exit_listener_def) (simp add: live_count_def)
  with running_launched [OF assms] show ?thesis
    using live_count_pos [OF assms(2)] assms(1) by (auto simp: life_ok_def exit_listener_def)
qed

lemma life_ok_pc:
  assumes "life_ok w" "to_launch pc = []" "to_launch (rv_pc w) = []" "shut_by pc = shut_by (rv_pc w)" "pc \<noteq> Launching []"
    and "draining pc = draining (rv_pc w)" "pc \<noteq> Returned" "length es \<le> length (rv_errors w)"
  shows "life_ok (w\<lparr>rv_pc := pc, rv_errors := es\<rparr>)"
proof -
  have "live_count (w\<lparr>rv_pc := pc, rv_errors := es\<rparr>) = live_count w" by (simp add: live_count_def)
  with assms show ?thesis by (simp add: life_ok_def)
qed

lemma live_count_cong: "rv_listen w = rv_listen w' \<Longrightarrow> live_count w = live_count w'"
  by (simp add: live_count_def)

lemma life_step_ok:
  assumes "life_step d k w w'" "life_ok w"
  shows "life_ok w'"
  using assms(1)
proof (cases rule: life_step.cases)
  case (launch l ls)
  then show ?thesis using life_ok_launch [OF assms(2)] by simp
next
  case (bind l)
  have "live_count w' = live_count w" "l \<notin> set (to_launch (rv_pc w))" "live_count w \<noteq> 0"
    using bind live_count_update [of w l Up] live_count_pos [of w l] running_launched [OF assms(2)] by auto
  with assms(2) bind show ?thesis by (auto simp: life_ok_def)
next
  case (fail l)
  then show ?thesis using life_ok_exit [OF assms(2)] by simp
next
  case (ended l)
  then show ?thesis using life_ok_exit [OF assms(2)] by simp
next
  case chosen_cancel
  then show ?thesis
    using life_ok_pc [OF assms(2), of Stopping "rv_errors w"] by (simp add: to_launch_def draining_def)
next
  case (chosen_error l ls)
  then show ?thesis
    using life_ok_pc [OF assms(2), of Stopping ls] by (simp add: to_launch_def draining_def)
next
  case stopped
  have "live_count w' = live_count w" using stopped by (intro live_count_cong) (simp add: begin_drain_def)
  with stopped assms(2) show ?thesis
    by (simp add: life_ok_def begin_drain_def to_launch_def all_listeners_def stop_router_def stop_def)
next
  case (shutdown l)
  have "live_count w' = live_count w" using shutdown by (intro live_count_cong) simp
  with shutdown assms(2) show ?thesis by (auto simp: life_ok_def to_launch_def draining_def)
next
  case (drained l)
  have "live_count w' = live_count w" using drained by (intro live_count_cong) simp
  with drained assms(2) show ?thesis
    by (cases l) (auto simp: life_ok_def to_launch_def after_drain_def all_listeners_def draining_def)
next
  case joined
  have "live_count w' = live_count w" using joined by (intro live_count_cong) simp
  with joined assms(2) show ?thesis by (simp add: life_ok_def to_launch_def draining_def)
next
  case cancel
  then show ?thesis using assms(2) live_count_cong [of w' w] by (simp add: life_ok_def)
next
  case (pass t)
  then show ?thesis using assms(2) live_count_cong [of w' w] by (auto simp: life_ok_def)
next
  case (begin_request l)
  then show ?thesis using assms(2) live_count_cong [of w' w] by (simp add: life_ok_def)
next
  case (handle_request l a)
  then show ?thesis
    using assms(2) live_count_cong [of w' w] stopping_serve_on [of d l a "rv_app w"] by (simp add: life_ok_def stopping_def)
next
  case (end_request l)
  then show ?thesis using assms(2) live_count_cong [of w' w] by (simp add: life_ok_def)
next
  case (other_event ev)
  then show ?thesis
    using assms(2) live_count_cong [of w' w] stopping_app_step [of ev d "rv_app w"] by (simp add: life_ok_def stopping_def)
qed

lemma life_run_ok: "life_run d ks w w' \<Longrightarrow> life_ok w \<Longrightarrow> life_ok w'"
  by (induction rule: life_run.induct) (auto intro: life_step_ok)

lemma life_run_trans:
  "life_run d ks' w1 w2 \<Longrightarrow> life_run d ks w w1 \<Longrightarrow> life_run d (ks @ ks') w w2"
proof (induction rule: life_run.induct)
  case (step ks' w1 w2 k w3)
  then have "life_run d ((ks @ ks') @ [k]) w w3" by (intro life_run.step)
  then show ?case by simp
qed simp

subsection \<open>How many steps are left\<close>

definition pc_steps :: "run_pc \<Rightarrow> nat" where
  "pc_steps pc =
     (case pc of
        Launching ls \<Rightarrow> length ls + 9 | Selecting \<Rightarrow> 9 | Stopping \<Rightarrow> 8 | Joining \<Rightarrow> 1 | Returned \<Rightarrow> 0
      | Closing l \<Rightarrow> (case l of Http \<Rightarrow> 7 | Https \<Rightarrow> 5 | Admin \<Rightarrow> 3)
      | Draining l \<Rightarrow> (case l of Http \<Rightarrow> 6 | Https \<Rightarrow> 4 | Admin \<Rightarrow> 2))"

definition listen_steps :: "listen_state \<Rightarrow> nat" where
  "listen_steps x = (case x of Not_Started \<Rightarrow> 2 | Binding \<Rightarrow> 2 | Up \<Rightarrow> 1 | Down \<Rightarrow> 0)"

definition steps_left :: "life \<Rightarrow> nat" where
  "steps_left w =
     pc_steps (rv_pc w) + listen_steps (rv_listen w Http) + listen_steps (rv_listen w Https) + listen_steps (rv_listen w Admin)"

definition max_own_steps :: nat where
  "max_own_steps = 18"

lemma listen_steps_update:
  assumes "listen_steps x < listen_steps (rv_listen w l)"
  shows "steps_left (w\<lparr>rv_listen := (rv_listen w)(l := x)\<rparr>) < steps_left w"
  using assms by (cases l) (auto simp: steps_left_def)

lemma steps_left_cong: "rv_pc w = rv_pc w' \<Longrightarrow> rv_listen w = rv_listen w' \<Longrightarrow> steps_left w = steps_left w'"
  by (simp add: steps_left_def)

lemma own_step_decreases:
  assumes "life_step d k w w'" "life_ok w"
  shows "steps_left w' + (if own k then 1 else 0) \<le> steps_left w"
  using assms(1)
proof (cases rule: life_step.cases)
  case (launch l ls)
  have "l \<in> set (to_launch (rv_pc w))" using launch by (simp add: to_launch_def)
  then have "rv_listen w l = Not_Started" using assms(2) by (auto simp: life_ok_def)
  then show ?thesis
    using launch by (cases l) (auto simp: launch_def steps_left_def own_def pc_steps_def listen_steps_def)
next
  case (bind l)
  then show ?thesis
    using listen_steps_update [of Up w l] by (simp add: listen_steps_def own_def)
next
  case (fail l)
  then have "listen_steps Down < listen_steps (rv_listen w l)" by (auto simp: listen_steps_def)
  from listen_steps_update [OF this] fail show ?thesis
    by (simp add: own_def exit_listener_def) (simp add: steps_left_def)
next
  case (ended l)
  then have "listen_steps Down < listen_steps (rv_listen w l)" by (auto simp: listen_steps_def)
  from listen_steps_update [OF this] ended show ?thesis
    by (simp add: own_def exit_listener_def) (simp add: steps_left_def)
next
  case (drained l)
  then show ?thesis by (cases l) (simp_all add: steps_left_def own_def pc_steps_def after_drain_def)
next
  case (shutdown l)
  then show ?thesis by (cases l) (simp_all add: steps_left_def own_def pc_steps_def)
qed (simp_all add: steps_left_def own_def pc_steps_def begin_drain_def)

lemma run_steps_left:
  "life_run d ks w w' \<Longrightarrow> life_ok w \<Longrightarrow> length (filter own ks) + steps_left w' \<le> steps_left w"
proof (induction rule: life_run.induct)
  case (step ks w w1 k w2)
  from own_step_decreases [OF step.hyps(2) life_run_ok [OF step.hyps(1) step.prems]] step show ?case
    by (auto split: if_splits)
qed simp

subsection \<open>Progress\<close>

text \<open>The reasons for which \<open>Run\<close> leaves its select, and what follows.\<close>

definition triggered :: "life \<Rightarrow> bool" where
  "triggered w \<longleftrightarrow> rv_cancelled w \<or> rv_errors w \<noteq> [] \<or> rv_pc w = Stopping \<or> draining (rv_pc w)"

definition waits_for_requests :: "life \<Rightarrow> bool" where
  "waits_for_requests w \<longleftrightarrow> (\<exists>l. rv_pc w = Draining l \<and> 0 < rv_busy w l \<and> rv_now w < rv_deadline w)"

lemma own_kinds: "own Launch" "own Ended" "own Chosen" "own Stopped" "own Shutdown" "own Drained" "own Joined"
  by (simp_all add: own_def)

lemma own_enabled:
  assumes "life_ok w" "triggered w" "rv_pc w \<noteq> Returned" "\<not> waits_for_requests w"
  shows "\<exists>k w'. own k \<and> life_step d k w w'"
proof (cases "rv_pc w")
  case (Launching ls)
  then obtain l ls' where "ls = l # ls'" using assms(1) by (cases ls) (auto simp: life_ok_def)
  with Launching have "life_step d Launch w (launch l ls' w)" by (simp add: life_step.launch)
  with own_kinds show ?thesis by blast
next
  case Selecting
  then have "rv_cancelled w \<or> rv_errors w \<noteq> []" using assms(2) by (simp add: triggered_def draining_def)
  then consider "rv_cancelled w" | l ls where "rv_errors w = l # ls" by (cases "rv_errors w") auto
  then have "\<exists>w'. life_step d Chosen w w'"
    using life_step.chosen_cancel [OF Selecting] life_step.chosen_error [OF Selecting] by cases blast+
  with own_kinds show ?thesis by blast
next
  case Stopping
  with life_step.stopped own_kinds show ?thesis by blast
next
  case (Closing l)
  with life_step.shutdown own_kinds show ?thesis by blast
next
  case (Draining l)
  with assms(4) have "rv_busy w l = 0 \<or> rv_deadline w \<le> rv_now w" by (auto simp: waits_for_requests_def)
  with life_step.drained [OF Draining] own_kinds show ?thesis by blast
next
  case Joining
  show ?thesis
  proof (cases "rv_wait w = 0")
    case True
    with life_step.joined [OF Joining] own_kinds show ?thesis by blast
  next
    case False
    then have "live_count w \<noteq> 0" using assms(1) by (simp add: life_ok_def)
    then obtain l where l: "rv_listen w l \<in> {Binding, Up}" by (auto simp: live_count_unfold split: if_splits)
    moreover have "rv_shut w l" using assms(1) Joining all_listeners_set(1) [of l] by (simp add: life_ok_def)
    ultimately show ?thesis using life_step.ended own_kinds by blast
  qed
qed (use assms(3) in simp)

text \<open>The latest time at which a triggered \<open>Run\<close> can be made to return.\<close>

definition horizon :: "life \<Rightarrow> int" where
  "horizon w = (if draining (rv_pc w) then max (rv_now w) (rv_deadline w) else rv_now w + drain_time)"

lemma own_step_horizon:
  assumes "life_step d k w w'" "own k" "triggered w" "life_ok w"
  shows "horizon w' \<le> horizon w" "triggered w'"
  using assms
  by (cases rule: life_step.cases;
      auto simp: horizon_def triggered_def draining_def launch_def exit_listener_def begin_drain_def after_drain_def
        drain_time_def own_def life_ok_def split: run_pc.splits listener.splits)+

lemma can_return:
  "life_ok w \<Longrightarrow> triggered w \<Longrightarrow>
     \<exists>ks w'. life_run d ks w w' \<and> rv_pc w' = Returned \<and> list_all (\<lambda>k. own k \<or> k = Tick_Passes) ks \<and> rv_now w' \<le> horizon w"
proof (induction "steps_left w" arbitrary: w rule: less_induct)
  case less
  show ?case
  proof (cases "rv_pc w = Returned")
    case True
    then show ?thesis using life_run.here by (intro exI [of _ "[]"] exI [of _ w]) (auto simp: horizon_def draining_def)
  next
    case False
    let ?w1 = "if waits_for_requests w then w\<lparr>rv_now := rv_deadline w\<rparr> else w"
    obtain ks1 where run1: "life_run d ks1 w ?w1" "list_all (\<lambda>k. own k \<or> k = Tick_Passes) ks1"
    proof (cases "waits_for_requests w")
      case True
      then have "life_step d Tick_Passes w (w\<lparr>rv_now := rv_deadline w\<rparr>)"
        by (intro life_step.pass) (auto simp: waits_for_requests_def)
      from life_run.step [OF life_run.here this] True that [of "[Tick_Passes]"] show ?thesis by simp
    qed (use life_run.here that [of "[]"] in auto)
    have ok1: "life_ok ?w1" using life_run_ok [OF run1(1) less.prems(1)] .
    have w1: "triggered ?w1" "rv_pc ?w1 \<noteq> Returned" "\<not> waits_for_requests ?w1" "horizon ?w1 \<le> horizon w"
      "steps_left ?w1 = steps_left w"
      using less.prems(2) False
      by (auto simp: triggered_def waits_for_requests_def horizon_def draining_def steps_left_def)
    from own_enabled [OF ok1 w1(1-3)] obtain k w2 where k: "own k" "life_step d k ?w1 w2" by blast
    have w2: "life_ok w2" "triggered w2" "horizon w2 \<le> horizon w"
      using life_step_ok [OF k(2) ok1] own_step_horizon [OF k(2,1) w1(1) ok1] w1(4) by auto
    have "steps_left w2 < steps_left w" using own_step_decreases [OF k(2) ok1] k(1) w1(5) by simp
    from less.hyps [OF this w2(1,2)] obtain ks w' where ks: "life_run d ks w2 w'" "rv_pc w' = Returned"
      "list_all (\<lambda>k. own k \<or> k = Tick_Passes) ks" "rv_now w' \<le> horizon w2" by blast
    from life_run_trans [OF ks(1) life_run.step [OF run1(1) k(2)]] ks w2(3) k(1) run1(2) show ?thesis
      by (intro exI [of _ "(ks1 @ [k]) @ ks"] exI [of _ w']) auto
  qed
qed

lemma horizon_bound: "life_ok w \<Longrightarrow> horizon w \<le> rv_now w + drain_time"
  by (auto simp: horizon_def life_ok_def drain_time_def)

subsection \<open>Properties\<close>

text \<open>
  C9: the server ends once it is told to. However requests, file changes and the clock
  interleave, the server takes at most eighteen steps of its own from start to return. Once
  the signal has come or a listener has failed it is never stuck: unless it has returned or
  waits for requests in progress before the drain deadline, it can take such a step; and by
  its own steps and the passing of time alone it returns within the drain time of thirty
  seconds.\<close>
theorem run_terminates:
  assumes "life_run d ks (initial_life s c n) w"
  shows "length (filter own ks) \<le> max_own_steps \<and>
    (triggered w \<longrightarrow>
      (rv_pc w = Returned \<or> waits_for_requests w \<or> (\<exists>k w'. own k \<and> life_step d k w w')) \<and>
      (\<exists>ks' w'. life_run d ks' w w' \<and> rv_pc w' = Returned \<and> list_all (\<lambda>k. own k \<or> k = Tick_Passes) ks' \<and>
         rv_now w' \<le> rv_now w + drain_time))"
proof -
  have ok: "life_ok w" using life_run_ok [OF assms initial_ok] .
  have "steps_left (initial_life s c n) = max_own_steps"
    by (simp add: steps_left_def initial_life_def pc_steps_def listen_steps_def max_own_steps_def)
  with run_steps_left [OF assms initial_ok] have "length (filter own ks) \<le> max_own_steps" by simp
  moreover have "triggered w \<Longrightarrow> \<exists>ks' w'. life_run d ks' w w' \<and> rv_pc w' = Returned \<and>
      list_all (\<lambda>k. own k \<or> k = Tick_Passes) ks' \<and> rv_now w' \<le> rv_now w + drain_time"
    using can_return [OF ok] horizon_bound [OF ok] by (meson order_trans)
  ultimately show ?thesis using own_enabled [OF ok] by blast
qed

theorem run_terminates_witness:
  "\<exists>ks w. life_run sample_deps ks (initial_life sample_app True 0) w \<and> rv_pc w = Returned \<and> rv_now w \<le> 30000"
proof -
  have "triggered (initial_life sample_app True 0)" by (simp add: triggered_def initial_life_def)
  with run_terminates [OF life_run.here [of sample_deps "initial_life sample_app True 0"]] show ?thesis
    by (auto simp: initial_life_def drain_time_def)
qed

lemma stopped_refuses:
  "stopping s \<Longrightarrow> route_request a req s = (Finished (http_error ''Service Unavailable'' 503 (ar_writer a)), s)"
  by (simp add: route_request_def serve_request_def serve_step_def serve_http_def stopping_def)


lemma run_to_shutdown:
  "\<exists>ks w. life_run d ks (initial_life s True n) w \<and> rv_shut w Http"
proof -
  let ?w0 = "initial_life s True n"
  let ?w3 = "launch Admin [] (launch Https [Admin] (launch Http [Https, Admin] ?w0))"
  let ?w4 = "?w3\<lparr>rv_pc := Stopping\<rparr>"
  let ?w6 = "(begin_drain ?w4)\<lparr>rv_pc := Draining Http, rv_shut := (rv_shut (begin_drain ?w4))(Http := True)\<rparr>"
  have "life_run d [Launch] ?w0 (launch Http [Https, Admin] ?w0)"
    using life_run.step [OF life_run.here life_step.launch] by (simp add: initial_life_def)
  from life_run.step [OF this life_step.launch [of _ Https "[Admin]"]]
  have "life_run d [Launch, Launch] ?w0 (launch Https [Admin] (launch Http [Https, Admin] ?w0))"
    by (simp add: launch_def)
  from life_run.step [OF this life_step.launch [of _ Admin "[]"]]
  have "life_run d [Launch, Launch, Launch] ?w0 ?w3" by (simp add: launch_def)
  from life_run.step [OF this life_step.chosen_cancel]
  have "life_run d [Launch, Launch, Launch, Chosen] ?w0 ?w4" by (simp add: launch_def initial_life_def)
  from life_run.step [OF this life_step.stopped]
  have "life_run d [Launch, Launch, Launch, Chosen, Stopped] ?w0 (begin_drain ?w4)" by simp
  from life_run.step [OF this life_step.shutdown [of _ Http]]
  have "life_run d [Launch, Launch, Launch, Chosen, Stopped, Shutdown] ?w0 ?w6"
    by (simp add: begin_drain_def)
  then show ?thesis by (intro exI [of _ ?w6] exI conjI) simp_all
qed


end
