(* ===== verification/Main_Program.thy ===== *)
theory Main_Program
  imports Server_Run
begin

section \<open>The command: arguments, start-up, exit status\<close>

text \<open>
  \<open>cmd/jobcloud/main.go\<close> with the parts of Go's flag and os packages it uses: the choice of
  the command, the flags of \<open>serve\<close>, the directories, the construction of the components in
  the order of the code with every error fatal, and the exit status. The functions outside
  the repository that the components take are one record. The texts of messages are not
  modelled.
\<close>

subsection \<open>Log levels\<close>

datatype log_level = Level_Debug | Level_Info | Level_Warn | Level_Error

definition level_value :: "log_level \<Rightarrow> int" where
  "level_value l = (case l of Level_Debug \<Rightarrow> -4 | Level_Info \<Rightarrow> 0 | Level_Warn \<Rightarrow> 4 | Level_Error \<Rightarrow> 8)"

lemma level_value_inj: "level_value a = level_value b \<longleftrightarrow> a = b"
  by (cases a; cases b) (simp_all add: level_value_def)

instantiation log_level :: linorder
begin

definition less_eq_log_level :: "log_level \<Rightarrow> log_level \<Rightarrow> bool" where
  "less_eq_log_level a b \<longleftrightarrow> level_value a \<le> level_value b"

definition less_log_level :: "log_level \<Rightarrow> log_level \<Rightarrow> bool" where
  "less_log_level a b \<longleftrightarrow> level_value a < level_value b"

instance
  by standard (auto simp: less_eq_log_level_def less_log_level_def level_value_inj [symmetric])

end

definition configure_logging :: "string \<Rightarrow> log_level" where
  "configure_logging level =
     (if level = ''debug'' then Level_Debug
      else if level = ''warn'' then Level_Warn
      else if level = ''error'' then Level_Error
      else Level_Info)"

text \<open>A record of a level is written when it is at least the configured one.\<close>

definition logged :: "string \<Rightarrow> log_level \<Rightarrow> bool" where
  "logged level l \<longleftrightarrow> configure_logging level \<le> l"

subsection \<open>Commands\<close>

datatype program = Usage_Error | Serve "string list" | Hash "string list" | Show_Version

definition main_command :: "string list \<Rightarrow> program" where
  "main_command argv =
     (if length argv < 2 then Usage_Error
      else (let c = argv ! 1
            in if c = ''serve'' then Serve (drop 2 argv)
               else if c = ''hash'' then Hash (drop 2 argv)
               else if c \<in> {''version'', ''--version'', ''-v''} then Show_Version
               else Usage_Error))"

datatype hash_result = Hash_Usage | Hash_Failed | Hash_Printed string

definition cmd_hash :: "(string \<Rightarrow> string option) \<Rightarrow> string list \<Rightarrow> hash_result" where
  "cmd_hash generate args =
     (if length args \<noteq> 1 \<or> args ! 0 = [] then Hash_Usage
      else (case hash_password generate (args ! 0) of None \<Rightarrow> Hash_Failed | Some h \<Rightarrow> Hash_Printed h))"

definition hash_status :: "hash_result \<Rightarrow> int" where
  "hash_status r = (case r of Hash_Usage \<Rightarrow> 2 | Hash_Failed \<Rightarrow> 1 | Hash_Printed h \<Rightarrow> 0)"

subsection \<open>Flags of serve\<close>

record serve_flags =
  fl_data :: string
  fl_sites :: string
  fl_certs :: string
  fl_log :: string

definition default_flags :: serve_flags where
  "default_flags = \<lparr>fl_data = ''/etc/jobcloud'', fl_sites = [], fl_certs = [], fl_log = ''info''\<rparr>"

datatype flag_result = Flags serve_flags | Flag_Help | Flag_Error

definition set_flag :: "string \<Rightarrow> (string \<Rightarrow> serve_flags \<Rightarrow> serve_flags) option" where
  "set_flag name =
     (if name = ''data'' then Some (\<lambda>v f. f\<lparr>fl_data := v\<rparr>)
      else if name = ''sites'' then Some (\<lambda>v f. f\<lparr>fl_sites := v\<rparr>)
      else if name = ''certs'' then Some (\<lambda>v f. f\<lparr>fl_certs := v\<rparr>)
      else if name = ''log-level'' then Some (\<lambda>v f. f\<lparr>fl_log := v\<rparr>)
      else None)"

text \<open>An argument as a flag: its name and the value after an equals sign; \<open>None\<close> ends the flags.\<close>

definition flag_text :: "string \<Rightarrow> string option" where
  "flag_text s =
     (if length s < 2 \<or> hd s \<noteq> CHR ''-'' \<or> s = ''--'' then None
      else Some (if s ! 1 = CHR ''-'' then drop 2 s else drop 1 s))"

definition flag_parts :: "string \<Rightarrow> string \<times> string option" where
  "flag_parts t =
     (case index_byte (CHR ''='') t of None \<Rightarrow> (t, None) | Some i \<Rightarrow> (take i t, Some (drop (Suc i) t)))"

fun parse_flags :: "string list \<Rightarrow> serve_flags \<Rightarrow> flag_result" where
  "parse_flags [] f = Flags f"
| "parse_flags (s # args) f =
     (case flag_text s of
        None \<Rightarrow> Flags f
      | Some t \<Rightarrow>
          if hd t = CHR ''-'' \<or> hd t = CHR ''='' then Flag_Error
          else (let (name, val) = flag_parts t
                in case set_flag name of
                     None \<Rightarrow> if name = ''help'' \<or> name = ''h'' then Flag_Help else Flag_Error
                   | Some upd \<Rightarrow>
                       (case val of
                          Some v \<Rightarrow> parse_flags args (upd v f)
                        | None \<Rightarrow> (case args of [] \<Rightarrow> Flag_Error | v # rest \<Rightarrow> parse_flags rest (upd v f)))))"

subsection \<open>Directories\<close>

text \<open>\<open>os.MkdirAll\<close>: the path if it exists, else its parent first; paths as cleaned text.\<close>

fun mkdir_comps :: "string \<Rightarrow> string list \<Rightarrow> fsys \<Rightarrow> bool \<times> fsys" where
  "mkdir_comps pre [] fs = (True, fs)"
| "mkdir_comps pre (c # cs) fs =
     (let p = pre @ join_with ''/'' (rev (c # cs))
      in case gm_get (fs_nodes fs) p of
           Some FDir \<Rightarrow> (True, fs)
         | Some (FFile b) \<Rightarrow> (False, fs)
         | None \<Rightarrow>
             (let (ok, fs1) = mkdir_comps pre cs fs
              in if \<not> ok then (False, fs1)
                 else if fs_write_fault fs1 p \<noteq> Write_OK then (False, fs1)
                 else (True, fs1\<lparr>fs_nodes := gm_put p FDir (fs_nodes fs1)\<rparr>)))"

definition mkdir_all :: "string \<Rightarrow> fsys \<Rightarrow> bool \<times> fsys" where
  "mkdir_all path fs =
     (if path = [] then (False, fs)
      else mkdir_comps (if has_prefix ''/'' path then ''/'' else []) (rev (path_comps path)) fs)"

fun mkdirs :: "string list \<Rightarrow> fsys \<Rightarrow> string option \<times> fsys" where
  "mkdirs [] fs = (None, fs)"
| "mkdirs (d # ds) fs =
     (case mkdir_all d fs of (True, fs1) \<Rightarrow> mkdirs ds fs1 | (False, fs1) \<Rightarrow> (Some d, fs1))"

subsection \<open>Start-up\<close>

record externals =
  ex_yaml :: yaml_lib
  ex_mac :: mac
  ex_compare :: "string \<Rightarrow> string \<Rightarrow> bool"
  ex_random :: "string option"
  ex_certificate :: "string \<Rightarrow> cert_lookup"
  ex_challenge :: "request \<Rightarrow> writer \<Rightarrow> writer option"
  ex_templates_ok :: bool
  ex_execute :: "string \<Rightarrow> view \<Rightarrow> string"
  ex_static :: "request \<Rightarrow> writer \<Rightarrow> writer"
  ex_save_text :: "save_error \<Rightarrow> string"
  ex_delete_text :: "delete_error \<Rightarrow> string"
  ex_http_date :: "int \<Rightarrow> string"
  ex_version :: string

datatype start_error =
    Bad_Flags
  | Flags_Help
  | Mkdir_Failed string
  | Global_Failed global_error
  | Auth_Failed auth_error
  | Acme_Failed
  | Ui_Failed

definition exit_status :: "start_error \<Rightarrow> int" where
  "exit_status e = (case e of Bad_Flags \<Rightarrow> 2 | Flags_Help \<Rightarrow> 0 | _ \<Rightarrow> 1)"

text \<open>\<open>ui.New\<close>, given whether the embedded templates parse.\<close>

definition new_ui :: "externals \<Rightarrow> manager \<Rightarrow> string \<Rightarrow> int \<Rightarrow> ui_server option" where
  "new_ui ex m sites_dir now =
     (if \<not> ex_templates_ok ex then None
      else Some \<lparr>ui_yaml = ex_yaml ex, ui_mac = ex_mac ex, ui_compare = ex_compare ex, ui_auth = m,
        ui_acme = Some (ex_certificate ex), ui_sites_dir = sites_dir, ui_version = ex_version ex, ui_start = now,
        ui_reload = True, ui_execute = ex_execute ex, ui_static = ex_static ex, ui_save_text = ex_save_text ex,
        ui_delete_text = ex_delete_text ex, ui_http_date = ex_http_date ex\<rparr>)"

definition resolve_dirs :: "serve_flags \<Rightarrow> serve_flags" where
  "resolve_dirs f =
     f\<lparr>fl_sites := (if fl_sites f = [] then join_path (fl_data f) ''sites'' else fl_sites f),
       fl_certs := (if fl_certs f = [] then join_path (fl_data f) ''certs'' else fl_certs f)\<rparr>"

text \<open>The components from the global configuration, in the order of the code.\<close>

definition build_components ::
  "externals \<Rightarrow> int \<Rightarrow> serve_flags \<Rightarrow> global_config \<Rightarrow> fsys \<Rightarrow> (start_error + server_deps \<times> app) \<times> fsys" where
  "build_components ex now f g fs =
     (case new_manager g (fl_data f) (ex_random ex) fs of
        (Inl e, fs1) \<Rightarrow> (Inl (Auth_Failed e), fs1)
      | (Inr m, fs1) \<Rightarrow>
          (case new_acme (fl_certs f) (g_acme_email g) (g_acme_directory g) of
             None \<Rightarrow> (Inl Acme_Failed, fs1)
           | Some acme \<Rightarrow>
               (let router = new_router new_store new_registry (g_trust_forwarded g)
                in case new_ui ex m (fl_sites f) now of
                     None \<Rightarrow> (Inl Ui_Failed, fs1)
                   | Some srv \<Rightarrow>
                       (Inr (\<lparr>sd_ui = srv, sd_challenge = ex_challenge ex\<rparr>,
                          \<lparr>ap_fs = fs1, ap_sys = \<lparr>sy_router = router, sy_acme = acme\<rparr>\<rparr>), fs1))))"

definition cmd_serve ::
  "externals \<Rightarrow> int \<Rightarrow> string list \<Rightarrow> fsys \<Rightarrow> (start_error + server_deps \<times> app) \<times> fsys" where
  "cmd_serve ex now args fs =
     (case parse_flags args default_flags of
        Flag_Error \<Rightarrow> (Inl Bad_Flags, fs)
      | Flag_Help \<Rightarrow> (Inl Flags_Help, fs)
      | Flags f0 \<Rightarrow>
          (let f = resolve_dirs f0
           in case mkdirs [fl_data f, fl_sites f, fl_certs f] fs of
                (Some d, fs1) \<Rightarrow> (Inl (Mkdir_Failed d), fs1)
              | (None, fs1) \<Rightarrow>
                  (case load_global (ex_yaml ex) fs1 (fl_data f) of
                     Inl e \<Rightarrow> (Inl (Global_Failed e), fs1)
                   | Inr g \<Rightarrow> build_components ex now f g fs1)))"

text \<open>What the process returns when \<open>Run\<close> has returned.\<close>

definition serve_status :: "life \<Rightarrow> int option" where
  "serve_status w = map_option (\<lambda>r. case r of None \<Rightarrow> 0 | Some e \<Rightarrow> 1) (run_result w)"

subsection \<open>Facts about start-up\<close>

lemma mkdir_comps_ok: "fs_ok fs \<Longrightarrow> fs_ok (snd (mkdir_comps pre cs fs))"
  by (induction pre cs fs rule: mkdir_comps.induct)
    (auto simp: Let_def case_prod_beta fs_ok_def split: option.split fnode.split)

lemma mkdirs_ok: "fs_ok fs \<Longrightarrow> fs_ok (snd (mkdirs ds fs))"
proof (induction ds arbitrary: fs)
  case (Cons d ds)
  have "fs_ok (snd (mkdir_all d fs))" using Cons.prems mkdir_comps_ok by (simp add: mkdir_all_def)
  with Cons.IH show ?case by (cases "mkdir_all d fs") (auto split: bool.split)
qed simp

lemma mkdirs_None: "mkdirs ds fs = (None, fs') \<Longrightarrow> [] \<notin> set ds"
  by (induction ds arbitrary: fs) (auto simp: mkdir_all_def split: prod.splits bool.splits)

lemma resolve_secret_ok: "fs_ok fs \<Longrightarrow> fs_ok (snd (resolve_secret configured dir rand fs))"
  using write_file_ok
  by (auto simp: resolve_secret_def Let_def case_prod_beta split: option.split)

lemma gm_put_not_empty: "gm_put k v m \<noteq> []"
  by (cases m) (auto simp: gm_put_def)

lemma collect_admins_not_empty: "collect_admins as m = Inr m' \<Longrightarrow> as \<noteq> [] \<or> m \<noteq> [] \<Longrightarrow> m' \<noteq> []"
proof (induction as m rule: collect_admins.induct)
  case (2 a as m)
  then show ?case
    using gm_put_not_empty [of "to_lower (a_username a)" "a_password_hash a" m] by (simp split: if_splits)
qed simp

lemma new_manager_facts:
  assumes "new_manager g dir rand fs = (r, fs')" "fs_ok fs"
  shows "fs_ok fs'" "r = Inr m \<Longrightarrow> mg_admins m \<noteq> []"
  using assms resolve_secret_ok [OF assms(2), of "g_session_secret g" dir rand] collect_admins_not_empty [of "g_admins g" gm_empty]
  by (auto simp: new_manager_def split: if_splits sum.splits prod.splits)

lemma new_ui_fields:
  "new_ui ex m dir now = Some srv \<Longrightarrow> ui_auth srv = m \<and> ui_sites_dir srv = dir \<and> ui_reload srv \<and> ui_yaml srv = ex_yaml ex"
  by (auto simp: new_ui_def split: if_splits)

lemma cmd_serve_started:
  assumes "cmd_serve ex now args fs = (Inr (d, s), fs')"
  obtains f0 f fs1 g where "parse_flags args default_flags = Flags f0" "f = resolve_dirs f0"
    "mkdirs [fl_data f, fl_sites f, fl_certs f] fs = (None, fs1)" "load_global (ex_yaml ex) fs1 (fl_data f) = Inr g"
    "build_components ex now f g fs1 = (Inr (d, s), fs')"
  using assms by (auto simp: cmd_serve_def Let_def split: flag_result.splits prod.splits option.splits sum.splits)

lemma build_components_started:
  assumes "build_components ex now f g fs = (Inr (d, s), fs')"
  obtains m acme srv where "new_manager g (fl_data f) (ex_random ex) fs = (Inr m, fs')"
    "new_acme (fl_certs f) (g_acme_email g) (g_acme_directory g) = Some acme" "new_ui ex m (fl_sites f) now = Some srv"
    "d = \<lparr>sd_ui = srv, sd_challenge = ex_challenge ex\<rparr>"
    "s = \<lparr>ap_fs = fs', ap_sys = \<lparr>sy_router = new_router new_store new_registry (g_trust_forwarded g), sy_acme = acme\<rparr>\<rparr>"
  using assms by (auto simp: build_components_def Let_def split: prod.splits sum.splits option.splits)

subsection \<open>Properties\<close>

definition sample_global :: global_config where
  "sample_global =
     \<lparr>g_admin_addr = [], g_http_addr = [], g_https_addr = [], g_acme_email = ''a@b'', g_acme_directory = [],
      g_admins = [\<lparr>a_username = ''Root'', a_password_hash = ''h''\<rparr>],
      g_session_secret = ''0123456789abcdef0123456789abcdef'', g_trust_forwarded = False\<rparr>"

definition sample_externals :: externals where
  "sample_externals =
     \<lparr>ex_yaml = sample_yaml\<lparr>y_read_global := (\<lambda>b. if b = ''G'' then Some sample_global else None)\<rparr>,
      ex_mac = reverse_mac, ex_compare = (\<lambda>h p. p = ''pw''), ex_random = None, ex_certificate = (\<lambda>d. No_Leaf),
      ex_challenge = (\<lambda>req w. None), ex_templates_ok = True, ex_execute = (\<lambda>body v. body), ex_static = (\<lambda>req w. w),
      ex_save_text = (\<lambda>e. ''save failed''), ex_delete_text = (\<lambda>e. ''delete failed''), ex_http_date = (\<lambda>t. ''date''),
      ex_version = ''dev''\<rparr>"

definition sample_disk :: fsys where
  "sample_disk = sample_fs\<lparr>fs_nodes := [(''/data'', FDir), (''/data/config.yml'', FFile ''G'')]\<rparr>"

text \<open>
  What starts is ready to serve. When \<open>serve\<close> gets as far as the listeners, the flags
  were accepted, the three directories exist, the global file was read, and the program is
  in a well-formed state: an empty store, a router that is not stopping, an admin interface
  wired to the sites directory and the reload, and at least one admin.\<close>
lemma start_up_ready:
  assumes "fs_ok fs" "cmd_serve ex now args fs = (Inr (d, s), fs')"
  shows "ready d s \<and> wired (sd_ui d) \<and> \<not> stopping s \<and> ap_fs s = fs' \<and> snapshot_sites (current_store s) = [] \<and>
    mg_admins (ui_auth (sd_ui d)) \<noteq> [] \<and>
    (\<exists>f0. parse_flags args default_flags = Flags f0 \<and> ui_sites_dir (sd_ui d) = fl_sites (resolve_dirs f0))"
proof -
  obtain f0 f fs1 g where start: "parse_flags args default_flags = Flags f0" "f = resolve_dirs f0"
    "mkdirs [fl_data f, fl_sites f, fl_certs f] fs = (None, fs1)"
    and build: "build_components ex now f g fs1 = (Inr (d, s), fs')"
    using assms(2) by (rule cmd_serve_started)
  obtain m acme srv where b: "new_manager g (fl_data f) (ex_random ex) fs1 = (Inr m, fs')"
    "new_ui ex m (fl_sites f) now = Some srv" "d = \<lparr>sd_ui = srv, sd_challenge = ex_challenge ex\<rparr>"
    "s = \<lparr>ap_fs = fs', ap_sys = \<lparr>sy_router = new_router new_store new_registry (g_trust_forwarded g), sy_acme = acme\<rparr>\<rparr>"
    using build by (rule build_components_started)
  have "fs_ok fs1" using mkdirs_ok [OF assms(1), of "[fl_data f, fl_sites f, fl_certs f]"] start(3) by simp
  note mgr = new_manager_facts [OF b(1) this]
  have "fl_sites f \<noteq> []" using mkdirs_None [OF start(3)] by auto
  with mgr new_ui_fields [OF b(2)] router_ok_new start(1,2) show ?thesis
    by (simp add: b(3,4) ready_def wired_def app_ok_def stopping_def new_router_def current_store_def snapshot_sites_def
        new_store_def)
qed

lemma start_up_ready_witness:
  "\<exists>d s. fst (cmd_serve sample_externals 0 [''--data'', ''/data'', ''-log-level=warn''] sample_disk) = Inr (d, s) \<and>
     ready d s \<and> ui_sites_dir (sd_ui d) = ''/data/sites''"
proof -
  let ?run = "cmd_serve sample_externals 0 [''--data'', ''/data'', ''-log-level=warn''] sample_disk"
  have "case fst ?run of Inl e \<Rightarrow> False | Inr ds \<Rightarrow> True" by code_simp
  then obtain d s where "fst ?run = Inr (d, s)" by (auto split: sum.splits)
  then have run: "?run = (Inr (d, s), snd ?run)" by (metis prod.collapse)
  have "fs_ok sample_disk" by code_simp
  from start_up_ready [OF this run] obtain f0 where "ready d s"
    "parse_flags [''--data'', ''/data'', ''-log-level=warn''] default_flags = Flags f0"
    "ui_sites_dir (sd_ui d) = fl_sites (resolve_dirs f0)" by blast
  moreover have "(case parse_flags [''--data'', ''/data'', ''-log-level=warn''] default_flags of
      Flags f0 \<Rightarrow> fl_sites (resolve_dirs f0) | _ \<Rightarrow> []) = ''/data/sites''" by code_simp
  ultimately have "ready d s" "ui_sites_dir (sd_ui d) = ''/data/sites''" by (simp_all only: flag_result.case)
  with \<open>fst ?run = Inr (d, s)\<close> show ?thesis by blast
qed


end
