(* ===== verification/Process.thy ===== *)
theory Process
  imports Main_Program Watcher Overlap
begin

section \<open>The running process: watcher, signals and server side by side\<close>

text \<open>
  The second half of \<open>cmdServe\<close> in \<open>cmd/jobcloud/main.go\<close>: the goroutine of the watcher, the
  pause of 50 milliseconds, the goroutine of the signals and \<open>server.Run\<close>, over the one state
  of the program. The watcher subscribes to the directory, which can fail and then ends it,
  loads, and then handles notices and its timer until the context is cancelled. The first
  signal after \<open>signal.Notify\<close> cancels the context; the channel holds one signal, and its
  goroutine takes one. A signal during the pause ends the process, as does the return of
  \<open>Run\<close>. Times are in milliseconds.
\<close>

datatype main_pc = Pausing int | Serving | Exited int | Killed

datatype watch_pc = Opening | Loading | Watching watcher | Unwatched

record process =
  pr_life :: life
  pr_main :: main_pc
  pr_watch :: watch_pc
  pr_queue :: "notice list"
  pr_signal :: bool
  pr_taken :: bool

definition pause :: int where
  "pause = 50"

definition start_process :: "app \<Rightarrow> int \<Rightarrow> process" where
  "start_process s now =
     \<lparr>pr_life = initial_life s False now, pr_main = Pausing (now + pause), pr_watch = Opening, pr_queue = [],
      pr_signal = False, pr_taken = False\<rparr>"

definition alive :: "process \<Rightarrow> bool" where
  "alive w \<longleftrightarrow> (case pr_main w of Exited _ \<Rightarrow> False | Killed \<Rightarrow> False | _ \<Rightarrow> True)"

abbreviation app_of :: "process \<Rightarrow> app" where
  "app_of w \<equiv> rv_app (pr_life w)"

definition set_app :: "app \<Rightarrow> process \<Rightarrow> process" where
  "set_app s w = w\<lparr>pr_life := (pr_life w)\<lparr>rv_app := s\<rparr>\<rparr>"

definition load_now :: "server_deps \<Rightarrow> process \<Rightarrow> process" where
  "load_now d w = set_app (snd (app_step d Watcher_Reload (app_of w))) w"

text \<open>Notices reach the queue once the watcher has subscribed.\<close>

definition notify :: "notice list \<Rightarrow> process \<Rightarrow> process" where
  "notify ns w = (case pr_watch w of Opening \<Rightarrow> w | Unwatched \<Rightarrow> w | _ \<Rightarrow> w\<lparr>pr_queue := pr_queue w @ ns\<rparr>)"

text \<open>
  A change that the next load sees is noticed as a write, create, rename or remove, unless
  fsnotify loses the notice.
\<close>

definition has_change :: "notice list \<Rightarrow> bool" where
  "has_change ns \<longleftrightarrow> (\<exists>ops. Event ops \<in> set ns \<and> relevant ops)"

definition unseen_change :: "server_deps \<Rightarrow> fsys \<Rightarrow> fsys \<Rightarrow> bool" where
  "unseen_change d fs fs' \<longleftrightarrow>
     load_sites (ui_yaml (sd_ui d)) fs' (ui_sites_dir (sd_ui d)) = load_sites (ui_yaml (sd_ui d)) fs (ui_sites_dir (sd_ui d))"

text \<open>The steps of \<open>Run\<close> and of its goroutines that are not requests, time or the context.\<close>

definition of_server :: "life_kind \<Rightarrow> bool" where
  "of_server k \<longleftrightarrow> k \<notin> {Cancel, Tick_Passes, Handle_Request, Other_Event}"

datatype process_kind =
    Opens | Open_Fails | Loads | Takes_Notice | Timer_Fires | Watch_Stops | Wakes | Server life_kind
  | Serves listener | Files_Change | Notice_Lost | Signal_Comes | Signal_Taken | Time_Passes | Exits

inductive process_step :: "server_deps \<Rightarrow> process_kind \<Rightarrow> process \<Rightarrow> process \<Rightarrow> bool" for d :: server_deps where
  opens: "alive w \<Longrightarrow> pr_watch w = Opening \<Longrightarrow> process_step d Opens w (w\<lparr>pr_watch := Loading\<rparr>)"
| open_fails: "alive w \<Longrightarrow> pr_watch w = Opening \<Longrightarrow> process_step d Open_Fails w (w\<lparr>pr_watch := Unwatched\<rparr>)"
| loads: "alive w \<Longrightarrow> pr_watch w = Loading \<Longrightarrow>
    process_step d Loads w ((load_now d w)\<lparr>pr_watch := Watching (new_watcher\<lparr>wt_loaded := True\<rparr>)\<rparr>)"
| takes_notice: "alive w \<Longrightarrow> pr_watch w = Watching wt \<Longrightarrow> pr_queue w = n # ns \<Longrightarrow>
    process_step d Takes_Notice w (w\<lparr>pr_queue := ns, pr_watch := Watching (on_notice (rv_now (pr_life w)) n wt)\<rparr>)"
| timer_fires: "alive w \<Longrightarrow> pr_watch w = Watching wt \<Longrightarrow> wt_timer wt = Some t \<Longrightarrow> t \<le> rv_now (pr_life w) \<Longrightarrow>
    on_timer (rv_now (pr_life w)) wt = (fire, wt') \<Longrightarrow>
    process_step d Timer_Fires w ((if fire then load_now d w else w)\<lparr>pr_watch := Watching wt'\<rparr>)"
| watch_stops: "alive w \<Longrightarrow> pr_watch w = Watching wt \<Longrightarrow> rv_cancelled (pr_life w) \<Longrightarrow>
    process_step d Watch_Stops w (w\<lparr>pr_watch := Unwatched\<rparr>)"
| wakes: "pr_main w = Pausing t \<Longrightarrow> t \<le> rv_now (pr_life w) \<Longrightarrow> process_step d Wakes w (w\<lparr>pr_main := Serving\<rparr>)"
| server: "pr_main w = Serving \<Longrightarrow> of_server k \<Longrightarrow> life_step d k (pr_life w) v \<Longrightarrow>
    process_step d (Server k) w (w\<lparr>pr_life := v\<rparr>)"
| serves: "pr_main w = Serving \<Longrightarrow> 0 < rv_busy (pr_life w) l \<Longrightarrow>
    process_step d (Serves l) w (notify ns (set_app (snd (serve_on d l a (app_of w))) w))"
| files_change: "alive w \<Longrightarrow> fs_ok fs \<Longrightarrow> has_change ns \<or> unseen_change d (ap_fs (app_of w)) fs \<Longrightarrow>
    process_step d Files_Change w (notify ns (set_app ((app_of w)\<lparr>ap_fs := fs\<rparr>) w))"
| notice_lost: "alive w \<Longrightarrow> fs_ok fs \<Longrightarrow>
    process_step d Notice_Lost w (notify ns (set_app ((app_of w)\<lparr>ap_fs := fs\<rparr>) w))"
| signal_comes: "alive w \<Longrightarrow>
    process_step d Signal_Comes w (if pr_main w = Serving then w\<lparr>pr_signal := True\<rparr> else w\<lparr>pr_main := Killed\<rparr>)"
| signal_taken: "pr_main w = Serving \<Longrightarrow> pr_signal w \<Longrightarrow> \<not> pr_taken w \<Longrightarrow>
    process_step d Signal_Taken w
      (w\<lparr>pr_signal := False, pr_taken := True, pr_life := (pr_life w)\<lparr>rv_cancelled := True\<rparr>\<rparr>)"
| time_passes: "alive w \<Longrightarrow> rv_now (pr_life w) \<le> t \<Longrightarrow>
    process_step d Time_Passes w (w\<lparr>pr_life := (pr_life w)\<lparr>rv_now := t\<rparr>\<rparr>)"
| exits: "pr_main w = Serving \<Longrightarrow> serve_status (pr_life w) = Some c \<Longrightarrow>
    process_step d Exits w (w\<lparr>pr_main := Exited c\<rparr>)"

inductive_cases process_stepE: "process_step d k w w'"

inductive process_run :: "server_deps \<Rightarrow> process_kind list \<Rightarrow> process \<Rightarrow> process \<Rightarrow> bool" for d :: server_deps where
  begins: "process_run d [] w w"
| goes_on: "process_run d ks w w1 \<Longrightarrow> process_step d k w1 w2 \<Longrightarrow> process_run d (ks @ [k]) w w2"

lemma set_app_fields [simp]:
  "app_of (set_app s w) = s" "pr_main (set_app s w) = pr_main w" "pr_watch (set_app s w) = pr_watch w"
  "pr_queue (set_app s w) = pr_queue w" "pr_signal (set_app s w) = pr_signal w" "pr_taken (set_app s w) = pr_taken w"
  by (simp_all add: set_app_def)

lemma notify_fields [simp]:
  "pr_life (notify ns w) = pr_life w" "pr_main (notify ns w) = pr_main w" "pr_watch (notify ns w) = pr_watch w"
  "pr_signal (notify ns w) = pr_signal w" "pr_taken (notify ns w) = pr_taken w"
  by (simp_all add: notify_def split: watch_pc.split)

lemma load_now_fields [simp]:
  "pr_main (load_now d w) = pr_main w" "pr_watch (load_now d w) = pr_watch w" "pr_queue (load_now d w) = pr_queue w"
  "app_of (load_now d w) = snd (app_step d Watcher_Reload (app_of w))"
  by (simp_all add: load_now_def)

subsection \<open>What the program serves and shows is what the files say\<close>

text \<open>
  Up to the flag of a site that was toggled and could not be saved, which no request reads.
\<close>

definition lit :: "site \<Rightarrow> site" where
  "lit s = s\<lparr>s_enabled := True\<rparr>"

definition serves_files :: "ui_server \<Rightarrow> app \<Rightarrow> bool" where
  "serves_files srv s \<longleftrightarrow>
     fs_ok (ap_fs s) \<and> map lit (snapshot_sites (current_store s)) = map lit (disk_sites srv s) \<and>
     (\<forall>h. map_option lit (lookup_site (current_store s) h) = map_option lit (route_spec (disk_sites srv s) h)) \<and>
     heap_ok (ro_heap (sy_router (ap_sys s)), ro_runtimes (sy_router (ap_sys s))) \<and>
     runs_list (disk_sites srv s) (sy_router (ap_sys s))"

lemma current_serves_files: "current_app srv s \<Longrightarrow> serves_files srv s"
  by (simp add: current_app_def serves_files_def in_line_def consistent_def runs_list_def current_store_def)

lemma serves_files_editable:
  assumes "wired srv" "serves_files srv s"
  shows "editable srv s"
proof -
  have "plain_file st" if "st \<in> set (snapshot_sites (current_store s))" for st
  proof -
    from that have "lit st \<in> lit ` set (disk_sites srv s)"
      using assms(2) by (metis image_eqI list.set_map serves_files_def)
    then obtain t where t: "t \<in> set (disk_sites srv s)" "lit st = lit t" by blast
    have "fs_ok (ap_fs s)" using assms(2) by (simp add: serves_files_def)
    then have "plain_file t"
      using t(1) assms(1) loaded_plain [of "ap_fs s" "ui_sites_dir srv" t "ui_yaml srv"]
      by (auto simp: wired_def disk_sites_def plain_file_def)
    moreover have "s_filename st = s_filename t" using arg_cong [OF t(2), of s_filename] by (simp add: lit_def)
    ultimately show ?thesis by (simp add: plain_file_def)
  qed
  then show ?thesis using assms by (simp add: editable_def serves_files_def)
qed

lemma toggled_serves_files:
  assumes "serves_files srv s" "toggled_in_memory srv s s'" "fs_ok (ap_fs s')"
  shows "serves_files srv s'"
proof -
  let ?ss = "snapshot_sites (current_store s)"
  obtain i where i: "i < length ?ss" and s': "s' = (update_site i ((?ss ! i)\<lparr>s_enabled := \<not> s_enabled (?ss ! i)\<rparr>) s)\<lparr>ap_fs := ap_fs s'\<rparr>"
    and disk: "disk_sites srv s' = disk_sites srv s"
    using assms(2) by (auto simp: toggled_in_memory_def)
  let ?new = "?ss[i := (?ss ! i)\<lparr>s_enabled := \<not> s_enabled (?ss ! i)\<rparr>]"
  have st: "current_store s' = (current_store s)\<lparr>st_sites := ?new\<rparr>"
    by (subst s') (simp add: current_store_def update_site_def snapshot_sites_def)
  have nth: "lit (?new ! j) = lit (?ss ! j)" for j using i by (cases "j = i") (simp_all add: lit_def)
  have "map lit ?new = map lit ?ss" by (rule nth_equalityI) (simp_all add: nth)
  moreover have "map_option lit (lookup_site (current_store s') h) = map_option lit (lookup_site (current_store s) h)" for h
    using nth by (simp add: st lookup_site_def lookup_index_def snapshot_sites_def option.map_comp o_def)
  moreover have "ro_heap (sy_router (ap_sys s')) = ro_heap (sy_router (ap_sys s))"
    "ro_runtimes (sy_router (ap_sys s')) = ro_runtimes (sy_router (ap_sys s))"
    by (subst s', simp add: update_site_def)+
  ultimately show ?thesis
    using assms(1,3) by (simp add: serves_files_def disk st snapshot_sites_def runs_list_def runtime_of_def)
qed

lemma edits_serves_files:
  assumes "wired srv" "serves_files srv s" "edits srv s s'"
  shows "serves_files srv s'"
proof -
  have ok: "fs_ok (ap_fs s')" using assms(3) by (simp add: edits_def)
  consider "s' = s\<lparr>ap_fs := ap_fs s'\<rparr>"
      "load_sites (ui_yaml srv) (ap_fs s') (ui_sites_dir srv) = load_sites (ui_yaml srv) (ap_fs s) (ui_sites_dir srv)"
    | s1 where "s' = trigger_reload srv s1" | "toggled_in_memory srv s s'"
    using assms(3) by (auto simp: edits_def)
  then show ?thesis
  proof cases
    case 1
    from 1(2) have "disk_sites srv s' = disk_sites srv s" by (simp add: disk_sites_def)
    moreover have "ap_sys s' = ap_sys s" using 1(1) by (metis app.select_convs(2) app.surjective app.update_convs(1))
    ultimately show ?thesis using assms(2) ok by (simp add: serves_files_def current_store_def)
  next
    case 2
    with ok reloaded_current [OF assms(1), of s1] current_serves_files show ?thesis by simp
  qed (use toggled_serves_files [OF assms(2)] ok in blast)
qed

subsection \<open>The invariant\<close>

definition watched_ok :: "server_deps \<Rightarrow> process \<Rightarrow> bool" where
  "watched_ok d w \<longleftrightarrow>
     (case pr_watch w of
        Watching wt \<Rightarrow>
          (\<forall>t. wt_timer wt = Some t \<longrightarrow> t = wt_armed wt) \<and>
          (has_change (pr_queue w) \<or> wt_timer wt \<noteq> None \<or> serves_files (sd_ui d) (app_of w))
      | _ \<Rightarrow> True)"

definition process_ok :: "server_deps \<Rightarrow> process \<Rightarrow> bool" where
  "process_ok d w \<longleftrightarrow>
     wired (sd_ui d) \<and> ready d (app_of w) \<and> life_ok (pr_life w) \<and>
     (pr_taken w \<longrightarrow> rv_cancelled (pr_life w)) \<and> watched_ok d w"

lemma reload_current:
  assumes "wired (sd_ui d)" "fs_ok (ap_fs s)"
  shows "current_app (sd_ui d) (snd (app_step d Watcher_Reload s))"
  using assms(2) apply_sites_in_line apply_sites_snapshot
  by (simp add: app_step_def current_app_def disk_sites_def current_store_def watcher_reload_def case_prod_beta)

lemma request_serves_files:
  assumes "serves_files srv s"
  shows "serves_files srv (snd (route_request a req s))"
proof -
  let ?r = "sy_router (ap_sys s)" and ?s' = "snd (route_request a req s)"
  let ?r' = "sy_router (ap_sys ?s')"
  have r': "?r' = snd (serve_step (ar_transport a, ar_tick a, ar_writer a, req) ?r)"
    by (simp add: route_request_def serve_request_def case_prod_beta)
  have shape: "same_shape ?r ?r'" unfolding r' by (rule serve_step_shape)
  have fs: "ap_fs ?s' = ap_fs s" by (simp add: route_request_def case_prod_beta)
  then have disk: "disk_sites srv ?s' = disk_sites srv s" by (simp add: disk_sites_def)
  have st: "current_store ?s' = current_store s" using shape by (simp add: current_store_def same_shape_def)
  note runs_list_shape [OF shape, of "disk_sites srv s"]
  then show ?thesis using assms unfolding serves_files_def disk st fs by blast
qed

lemma serve_on_serves_files:
  assumes "wired (sd_ui d)" "serves_files (sd_ui d) s"
  shows "serves_files (sd_ui d) (snd (serve_on d l a s))"
proof -
  have "edits (sd_ui d) s (snd (ui_handler (sd_ui d) (ar_now a) req w s))" for req w
    using ui_edits serves_files_editable [OF assms] by blast
  then have "serves_files (sd_ui d) (snd (ui_handler (sd_ui d) (ar_now a) req w s))" for req w
    using edits_serves_files [OF assms] by blast
  then show ?thesis
    using assms(2) request_serves_files by (simp add: serve_on_def Let_def case_prod_beta split: listener.split option.split)
qed

lemma stop_serves_files: "serves_files srv s \<Longrightarrow> serves_files srv (stop_router s)"
  by (simp add: serves_files_def stop_router_def stop_def current_store_def disk_sites_def runs_list_def runtime_of_def)

lemma server_step_app:
  assumes "life_step d k v v'" "of_server k"
  shows "rv_app v' = rv_app v \<or> rv_app v' = stop_router (rv_app v)" "rv_now v' = rv_now v" "rv_cancelled v' = rv_cancelled v"
  using assms
  by (cases rule: life_step.cases; simp add: of_server_def launch_def exit_listener_def begin_drain_def)+

lemma has_change_append [simp]: "has_change (xs @ ys) \<longleftrightarrow> has_change xs \<or> has_change ys"
  by (auto simp: has_change_def)

lemma notify_queue:
  "pr_watch w = Watching wt \<Longrightarrow> pr_queue (notify ns w) = pr_queue w @ ns"
  by (simp add: notify_def)

lemma life_ok_app: "life_ok v \<Longrightarrow> (stopping (rv_app v) \<Longrightarrow> stopping s) \<Longrightarrow> life_ok (v\<lparr>rv_app := s\<rparr>)"
  by (auto simp: life_ok_def live_count_def stopping_def)

lemma life_ok_load: "life_ok (pr_life w) \<Longrightarrow> life_ok (pr_life (load_now d w))"
  using stopping_app_step [of Watcher_Reload d "app_of w"]
  by (simp add: load_now_def set_app_def life_ok_app)

lemma load_serves_files:
  "wired (sd_ui d) \<Longrightarrow> ready d (app_of w) \<Longrightarrow>
     ready d (app_of (load_now d w)) \<and> serves_files (sd_ui d) (app_of (load_now d w))"
  using reload_current [of d "app_of w"] current_serves_files app_step_ok [of d "app_of w" Watcher_Reload]
  by (simp add: ready_def app_ok_def)

lemma load_now_life [simp]:
  "rv_cancelled (pr_life (load_now d w)) = rv_cancelled (pr_life w)" "pr_taken (load_now d w) = pr_taken w"
  "rv_now (pr_life (load_now d w)) = rv_now (pr_life w)"
  by (simp_all add: load_now_def set_app_def)

lemma set_app_life [simp]:
  "rv_cancelled (pr_life (set_app s w)) = rv_cancelled (pr_life w)"
  by (simp add: set_app_def)

lemma set_app_pr: "pr_life (set_app s w) = (pr_life w)\<lparr>rv_app := s\<rparr>"
  by (simp add: set_app_def)

lemma watched_ok_app:
  assumes "watched_ok d w" "serves_files (sd_ui d) (app_of w) \<Longrightarrow> serves_files (sd_ui d) s"
  shows "watched_ok d (notify ns (set_app s w))"
  using assms by (auto simp: watched_ok_def notify_def split: watch_pc.splits)

lemma process_step_ok:
  assumes "process_step d k w w'" "process_ok d w" "k \<noteq> Notice_Lost"
  shows "process_ok d w'"
  using assms(1)
proof (cases rule: process_step.cases)
  case loads
  with assms(2) load_serves_files [of d w] life_ok_load [of w d] show ?thesis
    by (simp add: process_ok_def watched_ok_def new_watcher_def)
next
  case (takes_notice wt n ns)
  with assms(2) show ?thesis
    by (cases n) (auto simp: process_ok_def watched_ok_def on_notice_def has_change_def)
next
  case (timer_fires wt t fire wt')
  with assms(2) have "t = wt_armed wt" by (simp add: process_ok_def watched_ok_def)
  with timer_fires have "fire" "wt_timer wt' = None" by (auto simp: on_timer_def)
  with timer_fires assms(2) load_serves_files [of d w] life_ok_load [of w d] show ?thesis
    by (simp add: process_ok_def watched_ok_def)
next
  case (server k' v)
  note app = server_step_app [OF server(5,4)]
  have "ready d (rv_app v)" using app(1) assms(2) app_ok_stop by (auto simp: process_ok_def ready_def)
  moreover have "life_ok v" using life_step_ok [OF server(5)] assms(2) by (simp add: process_ok_def)
  moreover have "serves_files (sd_ui d) (app_of w) \<Longrightarrow> serves_files (sd_ui d) (rv_app v)"
    using app(1) stop_serves_files by auto
  ultimately show ?thesis
    using server app(3) assms(2) by (auto simp: process_ok_def watched_ok_def split: watch_pc.splits)
next
  case (serves l ns a)
  let ?s = "snd (serve_on d l a (app_of w))"
  have "ready d ?s" using assms(2) app_ok_serve_on by (auto simp: process_ok_def ready_def)
  moreover have "life_ok ((pr_life w)\<lparr>rv_app := ?s\<rparr>)"
    using assms(2) stopping_serve_on by (intro life_ok_app) (simp_all add: process_ok_def)
  moreover have "watched_ok d (notify ns (set_app ?s w))"
    using assms(2) serve_on_serves_files by (intro watched_ok_app) (auto simp: process_ok_def)
  ultimately show ?thesis using serves assms(2) by (auto simp: process_ok_def set_app_pr)
next
  case (files_change fs ns)
  let ?s = "(app_of w)\<lparr>ap_fs := fs\<rparr>"
  have "ready d ?s" using assms(2) files_change app_ok_files by (auto simp: process_ok_def ready_def)
  moreover have "life_ok ((pr_life w)\<lparr>rv_app := ?s\<rparr>)"
    using assms(2) by (intro life_ok_app) (simp_all add: process_ok_def)
  moreover have "watched_ok d (notify ns (set_app ?s w))"
  proof (cases "has_change ns")
    case True
    then show ?thesis using assms(2) by (auto simp: process_ok_def watched_ok_def notify_def split: watch_pc.splits)
  next
    case False
    with files_change have "disk_sites (sd_ui d) ?s = disk_sites (sd_ui d) (app_of w)"
      by (simp add: unseen_change_def disk_sites_def)
    then have "serves_files (sd_ui d) (app_of w) \<Longrightarrow> serves_files (sd_ui d) ?s"
      using files_change by (simp add: serves_files_def current_store_def)
    then show ?thesis using assms(2) by (intro watched_ok_app) (simp_all add: process_ok_def)
  qed
  ultimately show ?thesis using files_change assms(2) by (auto simp: process_ok_def set_app_pr)
next
  case notice_lost
  with assms(3) show ?thesis by simp
next
  case signal_taken
  from life_step_ok [OF life_step.cancel [of d "pr_life w"]] signal_taken assms(2) show ?thesis
    by (auto simp: process_ok_def watched_ok_def split: watch_pc.splits)
next
  case (time_passes t)
  from life_step_ok [OF life_step.pass [of "pr_life w" t d]] time_passes assms(2) show ?thesis
    by (auto simp: process_ok_def watched_ok_def split: watch_pc.splits)
qed (use assms(2) in \<open>auto simp: process_ok_def watched_ok_def split: watch_pc.splits if_splits\<close>)

lemma process_run_ok:
  "process_run d ks w w' \<Longrightarrow> process_ok d w \<Longrightarrow> Notice_Lost \<notin> set ks \<Longrightarrow> process_ok d w'"
  by (induction rule: process_run.induct) (auto intro: process_step_ok)

lemma start_ok: "wired (sd_ui d) \<Longrightarrow> ready d s \<Longrightarrow> process_ok d (start_process s now)"
  using initial_ok [of s False now] by (simp add: process_ok_def start_process_def watched_ok_def initial_life_def)

subsection \<open>Properties\<close>


lemma process_run_trans:
  "process_run d ks' w1 w2 \<Longrightarrow> process_run d ks w w1 \<Longrightarrow> process_run d (ks @ ks') w w2"
proof (induction rule: process_run.induct)
  case (goes_on ks' w1 w2 k w3)
  from process_run.goes_on [OF goes_on.IH [OF goes_on.prems] goes_on.hyps(2)] show ?case by simp
qed simp

lemma process_run_one: "process_step d k w w' \<Longrightarrow> process_run d [k] w w'"
  using process_run.goes_on [OF process_run.begins] by fastforce

lemma process_run_Cons: "process_step d k w w1 \<Longrightarrow> process_run d ks w1 w2 \<Longrightarrow> process_run d (k # ks) w w2"
  using process_run_trans [OF _ process_run_one] by fastforce

text \<open>The watcher has loaded and watches.\<close>

definition after_load :: "server_deps \<Rightarrow> process \<Rightarrow> process" where
  "after_load d w = (load_now d w)\<lparr>pr_watch := Watching (new_watcher\<lparr>wt_loaded := True\<rparr>)\<rparr>"

lemma first_load_run:
  assumes "alive w" "pr_watch w = Opening"
  shows "process_run d [Opens, Loads] w (after_load d (w\<lparr>pr_watch := Loading\<rparr>))"
  using assms
  by (auto simp: after_load_def alive_def split: main_pc.splits
      intro!: process_run_Cons [OF process_step.opens] process_run_one process_step.loads)

lemma start_alive: "alive (start_process s now)" "pr_watch (start_process s now) = Opening"
  by (simp_all add: start_process_def alive_def)


text \<open>A run of the server's own steps inside the process.\<close>

definition stops_by :: "process_kind \<Rightarrow> bool" where
  "stops_by k \<longleftrightarrow> k \<in> {Signal_Taken, Time_Passes, Exits} \<or> (\<exists>j. k = Server j \<and> own j)"

lemma life_run_in_process:
  "life_run d ks v v' \<Longrightarrow> list_all (\<lambda>k. own k \<or> k = Tick_Passes) ks \<Longrightarrow> pr_main w = Serving \<Longrightarrow> pr_life w = v \<Longrightarrow>
     \<exists>ks'. process_run d ks' w (w\<lparr>pr_life := v'\<rparr>) \<and> list_all stops_by ks'"
proof (induction rule: life_run.induct)
  case (here v)
  then have "w\<lparr>pr_life := v\<rparr> = w" by simp
  then show ?case using process_run.begins [of d w] by (intro exI [of _ "[]"]) simp
next
  case (step ks v v1 k v2)
  then obtain ks' where ks': "process_run d ks' w (w\<lparr>pr_life := v1\<rparr>)" "list_all stops_by ks'" by auto
  have "\<exists>k'. process_step d k' (w\<lparr>pr_life := v1\<rparr>) (w\<lparr>pr_life := v2\<rparr>) \<and> stops_by k'"
  proof (cases "k = Tick_Passes")
    case True
    with step.hyps(2) obtain t where "rv_now v1 \<le> t" "v2 = v1\<lparr>rv_now := t\<rparr>"
      by (auto elim: life_stepE)
    then show ?thesis
      using process_step.time_passes [of "w\<lparr>pr_life := v1\<rparr>" t d] step.prems
      by (intro exI [of _ Time_Passes]) (simp add: alive_def stops_by_def)
  next
    case False
    then have "own k" using step.prems by simp
    moreover from this have "of_server k" by (auto simp: own_def of_server_def)
    ultimately show ?thesis
      using process_step.server [of "w\<lparr>pr_life := v1\<rparr>" k d v2] step.hyps(2) step.prems
      by (intro exI [of _ "Server k"]) (simp add: stops_by_def)
  qed
  then obtain k' where "process_step d k' (w\<lparr>pr_life := v1\<rparr>) (w\<lparr>pr_life := v2\<rparr>)" "stops_by k'" by blast
  with ks' show ?case by (intro exI [of _ "ks' @ [k']"]) (auto intro: process_run.goes_on)
qed

lemma triggered_process_exits:
  assumes "life_ok (pr_life w)" "triggered (pr_life w)" "pr_main w = Serving"
  shows "\<exists>ks w'. process_run d ks w w' \<and> pr_main w' = Exited 0 \<and> list_all stops_by ks \<and>
    rv_now (pr_life w') \<le> rv_now (pr_life w) + drain_time"
proof -
  obtain ks v where v: "life_run d ks (pr_life w) v" "rv_pc v = Returned"
    "list_all (\<lambda>k. own k \<or> k = Tick_Passes) ks" "rv_now v \<le> horizon (pr_life w)"
    using can_return [OF assms(1,2)] by blast
  obtain ks' where run: "process_run d ks' w (w\<lparr>pr_life := v\<rparr>)" "list_all stops_by ks'"
    using life_run_in_process [OF v(1,3) assms(3) refl] by blast
  let ?w' = "w\<lparr>pr_life := v, pr_main := Exited 0\<rparr>"
  have "process_step d Exits (w\<lparr>pr_life := v\<rparr>) ?w'"
    using process_step.exits [of "w\<lparr>pr_life := v\<rparr>" 0 d] v(2) assms(3) by (simp add: serve_status_def run_result_def)
  from process_run.goes_on [OF run(1) this] run(2) v(4) horizon_bound [OF assms(1)] show ?thesis
    by (intro exI [of _ "ks' @ [Exits]"] exI [of _ ?w']) (simp add: stops_by_def)
qed

text \<open>
  C8: the process stops when it is told to. In every state in which it serves and a signal has
  come, or a listener has failed, the process can end by the steps of its own goroutines and
  the passing of time alone, whatever the watcher, the clients and the files do otherwise; it
  then exits with status 0, within the thirty seconds of the drain.\<close>
theorem process_stops:
  assumes "wired (sd_ui d)" "ready d s" "process_run d ks (start_process s now) w" "Notice_Lost \<notin> set ks"
    and "pr_main w = Serving" "pr_signal w \<or> pr_taken w \<or> rv_errors (pr_life w) \<noteq> []"
  shows "\<exists>ks' w'. process_run d ks' w w' \<and> pr_main w' = Exited 0 \<and> list_all stops_by ks' \<and>
    rv_now (pr_life w') \<le> rv_now (pr_life w) + drain_time"
proof -
  have ok: "life_ok (pr_life w)" "pr_taken w \<Longrightarrow> rv_cancelled (pr_life w)"
    using process_run_ok [OF assms(3) start_ok [OF assms(1,2)] assms(4)] by (simp_all add: process_ok_def)
  show ?thesis
  proof (cases "triggered (pr_life w)")
    case True
    from triggered_process_exits [OF ok(1) this assms(5)] show ?thesis .
  next
    case False
    with ok(2) assms(6) have "pr_signal w" "\<not> pr_taken w" by (auto simp: triggered_def)
    then have st: "process_step d Signal_Taken w
        (w\<lparr>pr_signal := False, pr_taken := True, pr_life := (pr_life w)\<lparr>rv_cancelled := True\<rparr>\<rparr>)" (is "process_step d _ w ?w1")
      using assms(5) by (intro process_step.signal_taken)
    have "life_ok (pr_life ?w1)" using life_step_ok [OF life_step.cancel [of d "pr_life w"] ok(1)] by simp
    from triggered_process_exits [OF this, of d] assms(5) obtain ks' w' where
      "process_run d ks' ?w1 w'" "pr_main w' = Exited 0" "list_all stops_by ks'"
      "rv_now (pr_life w') \<le> rv_now (pr_life w) + drain_time"
      by (auto simp: triggered_def)
    with process_run_trans [OF _ process_run_one [OF st]] show ?thesis
      by (intro exI [of _ "[Signal_Taken] @ ks'"] exI [of _ w']) (simp add: stops_by_def)
  qed
qed

text \<open>The pause is over.\<close>

lemma wake_run:
  assumes "pr_main w = Pausing t" "rv_now (pr_life w) \<le> t"
  shows "process_run d [Time_Passes, Wakes] w (w\<lparr>pr_life := (pr_life w)\<lparr>rv_now := t\<rparr>, pr_main := Serving\<rparr>)"
  using assms
  by (auto simp: alive_def intro!: process_run_Cons [OF process_step.time_passes [where t = t]] process_run_one process_step.wakes)

definition signalled :: process where
  "signalled =
     (let w = start_process sample_app 0
      in w\<lparr>pr_life := (pr_life w)\<lparr>rv_now := pause\<rparr>, pr_main := Serving, pr_signal := True\<rparr>)"

lemma signalled_run: "process_run sample_deps [Time_Passes, Wakes, Signal_Comes] (start_process sample_app 0) signalled"
proof -
  let ?w = "start_process sample_app 0"
  have "process_run sample_deps [Time_Passes, Wakes] ?w (?w\<lparr>pr_life := (pr_life ?w)\<lparr>rv_now := pause\<rparr>, pr_main := Serving\<rparr>)"
    (is "process_run _ _ _ ?w1")
    by (rule wake_run) (simp_all add: start_process_def initial_life_def pause_def)
  moreover have "process_step sample_deps Signal_Comes ?w1 signalled"
    using process_step.signal_comes [of ?w1 sample_deps] by (simp add: alive_def signalled_def Let_def)
  ultimately show ?thesis using process_run.goes_on by fastforce
qed

theorem process_stops_witness:
  "\<exists>ks' w'. process_run sample_deps ks' signalled w' \<and> pr_main w' = Exited 0 \<and> rv_now (pr_life w') \<le> 50 + 30000"
proof -
  have w: "wired (sd_ui sample_deps)" using sample_wired by (simp add: sample_deps_def)
  have s: "pr_main signalled = Serving" "pr_signal signalled" "rv_now (pr_life signalled) = 50"
    by (simp_all add: signalled_def Let_def pause_def)
  from process_stops [OF w sample_ready signalled_run _ s(1)] s(2,3) show ?thesis
    by (auto simp: drain_time_def)
qed

end
