(* ===== verification/Process_Start.thy ===== *)
theory Process_Start
  imports Process
begin

section \<open>The process from its start: coming up, catching up, signals, a watcher that fails\<close>

text \<open>
  What a run of the whole process can reach: from the arguments to three open listeners, from
  any state to one that serves the present files, and what a failed watcher and a second
  signal do.
\<close>

subsection \<open>Coming up\<close>

definition launched :: "life \<Rightarrow> life" where
  "launched v = launch Admin [] (launch Https [Admin] (launch Http [Https, Admin] v))"

definition bound :: "life \<Rightarrow> life" where
  "bound v = v\<lparr>rv_listen := (\<lambda>l. Up)\<rparr>"

definition up_kinds :: "process_kind list" where
  "up_kinds =
     [Opens, Loads, Time_Passes, Wakes] @ replicate 3 (Server Launch) @ replicate 3 (Server Bind)"

lemma server_process:
  "life_run d ks v v' \<Longrightarrow> list_all of_server ks \<Longrightarrow> pr_main w = Serving \<Longrightarrow> pr_life w = v \<Longrightarrow>
     process_run d (map Server ks) w (w\<lparr>pr_life := v'\<rparr>)"
proof (induction rule: life_run.induct)
  case (here v)
  then have "w\<lparr>pr_life := v\<rparr> = w" by simp
  then show ?case using process_run.begins [of d w] by simp
next
  case (step ks v v1 k v2)
  then have "process_run d (map Server ks) w (w\<lparr>pr_life := v1\<rparr>)" by simp
  moreover have "process_step d (Server k) (w\<lparr>pr_life := v1\<rparr>) (w\<lparr>pr_life := v2\<rparr>)"
    using process_step.server [of "w\<lparr>pr_life := v1\<rparr>" k d v2] step.hyps(2) step.prems by simp
  ultimately show ?case by (simp add: process_run.goes_on)
qed

lemma launch_pc: "rv_pc (launch l ls v) = (if ls = [] then Selecting else Launching ls)"
  by (simp add: launch_def)

lemma launches:
  assumes "rv_pc v = Launching [Http, Https, Admin]"
  shows "life_run d [Launch, Launch, Launch] v (launched v)"
proof -
  let ?v1 = "launch Http [Https, Admin] v" and ?v2 = "launch Https [Admin] (launch Http [Https, Admin] v)"
  have 1: "life_step d Launch v ?v1" by (rule life_step.launch [OF assms])
  have 2: "life_step d Launch ?v1 ?v2" by (rule life_step.launch) (simp add: launch_pc)
  have 3: "life_step d Launch ?v2 (launched v)" unfolding launched_def by (rule life_step.launch) (simp add: launch_pc)
  have "[Launch, Launch, Launch] = (([] @ [Launch]) @ [Launch]) @ [Launch]" by simp
  then show ?thesis
    using life_run.step [OF life_run.step [OF life_run.step [OF life_run.here 1] 2] 3] by (simp only:)
qed

lemma binds:
  assumes "life_run d ks v v1" "\<And>l. rv_listen v1 l = Binding" "\<And>l. \<not> rv_shut v1 l"
  shows "life_run d (ks @ [Bind, Bind, Bind]) v (bound v1)"
proof -
  let ?v2 = "v1\<lparr>rv_listen := (rv_listen v1)(Http := Up)\<rparr>"
  let ?v3 = "v1\<lparr>rv_listen := (rv_listen v1)(Http := Up, Https := Up)\<rparr>"
  have up: "(rv_listen v1)(Http := Up, Https := Up, Admin := Up) = (\<lambda>l. Up)"
  proof
    show "((rv_listen v1)(Http := Up, Https := Up, Admin := Up)) l = Up" for l by (cases l) simp_all
  qed
  have 1: "life_step d Bind v1 ?v2" by (rule life_step.bind) (rule assms(2,3))+
  have "rv_listen ?v2 Https = Binding" "\<not> rv_shut ?v2 Https" by (simp_all add: assms(2,3))
  from life_step.bind [OF this] have 2: "life_step d Bind ?v2 ?v3" by simp
  have "rv_listen ?v3 Admin = Binding" "\<not> rv_shut ?v3 Admin" by (simp_all add: assms(2,3))
  from life_step.bind [OF this] have 3: "life_step d Bind ?v3 (bound v1)" by (simp add: up bound_def)
  have "ks @ [Bind, Bind, Bind] = ((ks @ [Bind]) @ [Bind]) @ [Bind]" by simp
  then show ?thesis
    using life_run.step [OF life_run.step [OF life_run.step [OF assms(1) 1] 2] 3] by (simp only:)
qed

lemma launched_fields:
  "rv_listen (launched v) l = Binding" "rv_shut (launched v) = rv_shut v" "rv_pc (launched v) = Selecting"
  "rv_now (launched v) = rv_now v" "rv_app (launched v) = rv_app v"
  by (cases l; simp add: launched_def launch_def) (simp_all add: launched_def launch_def)

lemma launch_run:
  assumes "rv_pc v = Launching [Http, Https, Admin]" "\<And>l. \<not> rv_shut v l"
  shows "life_run d (replicate 3 Launch @ replicate 3 Bind) v (bound (launched v))"
  using binds [OF launches [OF assms(1)]] assms(2) by (simp add: launched_fields numeral_3_eq_3)

text \<open>The process when its pause is over and every listener is open.\<close>

definition up_state :: "server_deps \<Rightarrow> app \<Rightarrow> int \<Rightarrow> process" where
  "up_state d s now =
     (let w = after_load d ((start_process s now)\<lparr>pr_watch := Loading\<rparr>)
      in w\<lparr>pr_main := Serving, pr_life := bound (launched ((pr_life w)\<lparr>rv_now := now + pause\<rparr>))\<rparr>)"

lemma up_run: "process_run d up_kinds (start_process s now) (up_state d s now)"
proof -
  let ?w1 = "after_load d ((start_process s now)\<lparr>pr_watch := Loading\<rparr>)"
  have main: "pr_main ?w1 = Pausing (now + pause)" and now: "rv_now (pr_life ?w1) = now"
    by (simp_all add: after_load_def start_process_def initial_life_def)
  let ?w2 = "?w1\<lparr>pr_life := (pr_life ?w1)\<lparr>rv_now := now + pause\<rparr>, pr_main := Serving\<rparr>"
  have 1: "process_run d [Opens, Loads] (start_process s now) ?w1" by (rule first_load_run [OF start_alive])
  have 2: "process_run d [Time_Passes, Wakes] ?w1 ?w2" using main now by (intro wake_run) (simp_all add: pause_def)
  have "rv_pc (pr_life ?w2) = Launching [Http, Https, Admin]" "\<not> rv_shut (pr_life ?w2) l" for l
    by (simp_all add: after_load_def load_now_def set_app_def start_process_def initial_life_def)
  from launch_run [OF this] have "process_run d (map Server (replicate 3 Launch @ replicate 3 Bind)) ?w2
      (?w2\<lparr>pr_life := bound (launched (pr_life ?w2))\<rparr>)"
    by (rule server_process) (simp_all add: numeral_3_eq_3 of_server_def)
  from process_run_trans [OF this process_run_trans [OF 2 1]] show ?thesis
    by (simp add: up_kinds_def up_state_def Let_def numeral_3_eq_3)
qed

lemma up_state_facts:
  "pr_main (up_state d s now) = Serving" "rv_pc (pr_life (up_state d s now)) = Selecting"
  "rv_listen (pr_life (up_state d s now)) l = Up" "rv_now (pr_life (up_state d s now)) = now + pause"
  "app_of (up_state d s now) = snd (app_step d Watcher_Reload s)"
  by (simp_all add: up_state_def Let_def after_load_def bound_def launched_def launch_def start_process_def initial_life_def)



subsection \<open>Catching up\<close>

definition timer_soon :: "process \<Rightarrow> bool" where
  "timer_soon w \<longleftrightarrow>
     (case pr_watch w of Watching wt \<Rightarrow> (\<forall>t. wt_timer wt = Some t \<longrightarrow> t = wt_armed wt \<and> t \<le> rv_now (pr_life w) + debounce) | _ \<Rightarrow> True)"

lemma timer_soon_later:
  "timer_soon w \<Longrightarrow> pr_watch w' = pr_watch w \<Longrightarrow> rv_now (pr_life w) \<le> rv_now (pr_life w') \<Longrightarrow> timer_soon w'"
  by (fastforce simp: timer_soon_def split: watch_pc.splits)

lemma process_step_timer:
  assumes "process_step d k w w'" "timer_soon w"
  shows "timer_soon w'"
  using assms(1)
proof (cases rule: process_step.cases)
  case (takes_notice wt n ns)
  with assms(2) show ?thesis by (cases n) (auto simp: timer_soon_def on_notice_def)
next
  case (timer_fires wt t fire wt')
  with assms(2) show ?thesis by (auto simp: timer_soon_def on_timer_def debounce_def split: if_splits)
next
  case (server k' v)
  with timer_soon_later [OF assms(2), of w'] server_step_app [OF server(5,4)] show ?thesis by simp
next
  case (serves l ns a)
  with timer_soon_later [OF assms(2), of w'] show ?thesis by (simp add: set_app_pr)
next
  case (files_change fs ns)
  with timer_soon_later [OF assms(2), of w'] show ?thesis by (simp add: set_app_pr)
next
  case (notice_lost fs ns)
  with timer_soon_later [OF assms(2), of w'] show ?thesis by (simp add: set_app_pr)
next
  case loads
  then show ?thesis by (simp add: timer_soon_def new_watcher_def)
qed (use assms(2) in \<open>auto simp: timer_soon_def split: watch_pc.splits\<close>)

lemma process_run_timer: "process_run d ks w w' \<Longrightarrow> timer_soon w \<Longrightarrow> timer_soon w'"
  by (induction rule: process_run.induct) (auto intro: process_step_timer)

lemma start_timer: "timer_soon (start_process s now)"
  by (simp add: timer_soon_def start_process_def)

text \<open>The notices in the queue are taken one after the other.\<close>

lemma takes_all:
  "alive w \<Longrightarrow> pr_watch w = Watching wt \<Longrightarrow>
     process_run d (replicate (length (pr_queue w)) Takes_Notice) w
       (w\<lparr>pr_queue := [], pr_watch := Watching (fold (on_notice (rv_now (pr_life w))) (pr_queue w) wt)\<rparr>)"
proof (induction "pr_queue w" arbitrary: w wt)
  case Nil
  then have w: "w\<lparr>pr_queue := [], pr_watch := Watching wt\<rparr> = w" by simp
  have "process_run d [] w (w\<lparr>pr_queue := [], pr_watch := Watching wt\<rparr>)" unfolding w by (rule process_run.begins)
  with Nil(1) show ?case by (simp add: Nil(1) [symmetric])
next
  case (Cons n ns)
  let ?w = "w\<lparr>pr_queue := ns, pr_watch := Watching (on_notice (rv_now (pr_life w)) n wt)\<rparr>"
  have "process_step d Takes_Notice w ?w" using Cons by (intro process_step.takes_notice) simp_all
  moreover have "alive ?w" using Cons.prems(1) by (simp add: alive_def)
  ultimately show ?case
    using Cons.hyps(1) [of ?w] Cons.hyps(2) [symmetric] by (simp add: process_run_Cons)
qed

lemma alive_same_main: "alive w \<Longrightarrow> pr_main w' = pr_main w \<Longrightarrow> alive w'"
  by (simp add: alive_def)

lemma catch_up_timer:
  assumes "process_ok d w" "timer_soon w" "alive w" "pr_watch w = Watching wt" "wt_timer wt = Some t"
  shows "\<exists>w'. process_run d [Time_Passes, Timer_Fires] w w' \<and> serves_files (sd_ui d) (app_of w') \<and>
    ap_fs (app_of w') = ap_fs (app_of w) \<and> pr_main w' = pr_main w \<and> rv_now (pr_life w') \<le> rv_now (pr_life w) + debounce"
proof -
  have t: "t = wt_armed wt" "t \<le> rv_now (pr_life w) + debounce"
    using assms by (auto simp: process_ok_def watched_ok_def timer_soon_def)
  let ?t = "max (rv_now (pr_life w)) t"
  let ?w1 = "w\<lparr>pr_life := (pr_life w)\<lparr>rv_now := ?t\<rparr>\<rparr>"
  let ?w2 = "(load_now d ?w1)\<lparr>pr_watch := Watching (wt\<lparr>wt_timer := None\<rparr>)\<rparr>"
  have 1: "process_step d Time_Passes w ?w1" by (rule process_step.time_passes [OF assms(3)]) simp
  have fire: "on_timer (rv_now (pr_life ?w1)) wt = (True, wt\<lparr>wt_timer := None\<rparr>)" using t(1) by (simp add: on_timer_def)
  have "process_step d Timer_Fires ?w1 ((if True then load_now d ?w1 else ?w1)\<lparr>pr_watch := Watching (wt\<lparr>wt_timer := None\<rparr>)\<rparr>)"
    by (rule process_step.timer_fires [OF _ _ assms(5) _ fire]) (use assms(3,4) in \<open>simp_all add: alive_def\<close>)
  then have 2: "process_step d Timer_Fires ?w1 ?w2" by simp
  have "serves_files (sd_ui d) (app_of ?w2)"
    using load_serves_files [of d ?w1] assms(1) by (simp add: process_ok_def)
  moreover have "ap_fs (app_of ?w2) = ap_fs (app_of w)"
    by (simp add: app_step_def watcher_reload_def case_prod_beta)
  moreover have "rv_now (pr_life ?w2) \<le> rv_now (pr_life w) + debounce" using t(2) by (simp add: debounce_def)
  ultimately show ?thesis
    using process_run_Cons [OF 1 process_run_one [OF 2]] by (intro exI [of _ ?w2]) simp
qed

lemma catch_up_watching:
  assumes "process_ok d w" "timer_soon w" "alive w" "pr_watch w = Watching wt"
  shows "\<exists>ks w'. process_run d ks w w' \<and> set ks \<subseteq> {Takes_Notice, Time_Passes, Timer_Fires} \<and>
    serves_files (sd_ui d) (app_of w') \<and> ap_fs (app_of w') = ap_fs (app_of w) \<and> pr_main w' = pr_main w \<and>
    rv_now (pr_life w') \<le> rv_now (pr_life w) + debounce"
proof -
  let ?ks = "replicate (length (pr_queue w)) Takes_Notice"
  let ?wt = "fold (on_notice (rv_now (pr_life w))) (pr_queue w) wt"
  let ?w1 = "w\<lparr>pr_queue := [], pr_watch := Watching ?wt\<rparr>"
  have run: "process_run d ?ks w ?w1" by (rule takes_all [OF assms(3,4)])
  have "Notice_Lost \<notin> set ?ks" by simp
  note ok = process_run_ok [OF run assms(1) this] process_run_timer [OF run assms(2)] alive_same_main [OF assms(3)]
  show ?thesis
  proof (cases "wt_timer ?wt")
    case None
    with ok(1) have "serves_files (sd_ui d) (app_of ?w1)" by (simp add: process_ok_def watched_ok_def has_change_def)
    with run show ?thesis by (intro exI [of _ ?ks] exI [of _ ?w1]) (auto simp: debounce_def)
  next
    case (Some t)
    with catch_up_timer [of d ?w1 ?wt t] ok obtain w' where
      "process_run d [Time_Passes, Timer_Fires] ?w1 w'" "serves_files (sd_ui d) (app_of w')"
      "ap_fs (app_of w') = ap_fs (app_of w)" "pr_main w' = pr_main w"
      "rv_now (pr_life w') \<le> rv_now (pr_life w) + debounce"
      by auto
    with process_run_trans [OF _ run] show ?thesis
      by (intro exI [of _ "?ks @ [Time_Passes, Timer_Fires]"] exI [of _ w']) auto
  qed
qed



subsection \<open>A second signal\<close>

text \<open>
  Once the first signal has been taken, no goroutine reads the channel any more, and the
  runtime no longer ends the process by itself: whatever signals come, the run is one that
  they are missing from, so that nothing but the deadline can cut the drain short.\<close>

definition unsignal :: "bool \<Rightarrow> process \<Rightarrow> process" where
  "unsignal b w = w\<lparr>pr_signal := b\<rparr>"

lemma unsignal_simps [simp]:
  "pr_life (unsignal b w) = pr_life w" "pr_main (unsignal b w) = pr_main w" "pr_watch (unsignal b w) = pr_watch w"
  "pr_queue (unsignal b w) = pr_queue w" "pr_taken (unsignal b w) = pr_taken w"
  "unsignal b (w\<lparr>pr_life := v\<rparr>) = (unsignal b w)\<lparr>pr_life := v\<rparr>"
  "unsignal b (w\<lparr>pr_main := pc\<rparr>) = (unsignal b w)\<lparr>pr_main := pc\<rparr>"
  "unsignal b (w\<lparr>pr_watch := wp\<rparr>) = (unsignal b w)\<lparr>pr_watch := wp\<rparr>"
  "unsignal b (w\<lparr>pr_queue := ns\<rparr>) = (unsignal b w)\<lparr>pr_queue := ns\<rparr>"
  by (simp_all add: unsignal_def)

lemma unsignal_step:
  assumes "process_step d k w w'" "pr_taken w" "pr_main w \<noteq> Pausing t" "k \<noteq> Signal_Comes"
  shows "process_step d k (unsignal b w) (unsignal b w')"
proof -
  have alive: "alive (unsignal b w) = alive w" by (simp add: unsignal_def alive_def)
  have load: "load_now d (unsignal b w) = unsignal b (load_now d w)" by (simp add: load_now_def set_app_def unsignal_def)
  have notify: "notify ns (set_app s (unsignal b w)) = unsignal b (notify ns (set_app s w))" for ns s
    by (simp add: notify_def set_app_def unsignal_def split: watch_pc.split)
  show ?thesis
    using assms(1)
  proof (cases rule: process_step.cases)
    case opens
    with process_step.opens [of "unsignal b w" d] alive show ?thesis by simp
  next
    case open_fails
    with process_step.open_fails [of "unsignal b w" d] alive show ?thesis by simp
  next
    case loads
    with process_step.loads [of "unsignal b w" d] alive load show ?thesis by simp
  next
    case (takes_notice wt n ns)
    with process_step.takes_notice [of "unsignal b w" wt n ns d] alive show ?thesis by simp
  next
    case (timer_fires wt t fire wt')
    with process_step.timer_fires [of "unsignal b w" wt t fire wt' d] alive load show ?thesis by (cases fire) simp_all
  next
    case (watch_stops wt)
    with process_step.watch_stops [of "unsignal b w" wt d] alive show ?thesis by simp
  next
    case (wakes t)
    with process_step.wakes [of "unsignal b w" t d] show ?thesis by simp
  next
    case (server k' v)
    with process_step.server [of "unsignal b w" k' d v] show ?thesis by simp
  next
    case (serves l ns a)
    with process_step.serves [of "unsignal b w" l d ns a] notify show ?thesis by simp
  next
    case (files_change fs ns)
    with process_step.files_change [of "unsignal b w" fs ns d] alive notify show ?thesis by simp
  next
    case (notice_lost fs ns)
    with process_step.notice_lost [of "unsignal b w" fs d ns] alive notify show ?thesis by simp
  next
    case (time_passes t)
    with process_step.time_passes [of "unsignal b w" t d] alive show ?thesis by simp
  next
    case (exits c)
    with process_step.exits [of "unsignal b w" c d] show ?thesis by simp
  qed (use assms in simp_all)
qed

lemma taken_stays:
  assumes "process_step d k w w'" "pr_taken w" "\<And>t. pr_main w \<noteq> Pausing t" "pr_main w \<noteq> Killed"
  shows "pr_taken w' \<and> (\<forall>t. pr_main w' \<noteq> Pausing t) \<and> pr_main w' \<noteq> Killed"
  using assms
  by (cases rule: process_step.cases) (auto simp: set_app_def load_now_def alive_def split: main_pc.splits)

lemma later_signal_step:
  assumes "process_step d Signal_Comes w w'" "\<And>t. pr_main w \<noteq> Pausing t"
  shows "unsignal b w' = unsignal b w"
  using assms by (cases "pr_main w") (auto elim!: process_stepE simp: unsignal_def alive_def)

lemma later_signals_ignored:
  assumes "process_run d ks w w'" "pr_main w = Serving" "pr_taken w"
  shows "process_run d (filter (\<lambda>k. k \<noteq> Signal_Comes) ks) (unsignal b w) (unsignal b w')"
proof -
  have "process_run d (filter (\<lambda>k. k \<noteq> Signal_Comes) ks) (unsignal b w) (unsignal b w') \<and>
      pr_taken w' \<and> (\<forall>t. pr_main w' \<noteq> Pausing t) \<and> pr_main w' \<noteq> Killed"
    using assms
  proof (induction rule: process_run.induct)
    case (goes_on ks w w1 k w2)
    then have h: "process_run d (filter (\<lambda>k. k \<noteq> Signal_Comes) ks) (unsignal b w) (unsignal b w1)"
      "pr_taken w1" "\<And>t. pr_main w1 \<noteq> Pausing t" "pr_main w1 \<noteq> Killed" by simp_all
    note kept = taken_stays [OF goes_on.hyps(2) h(2-4)]
    show ?case
    proof (cases "k = Signal_Comes")
      case True
      with later_signal_step [of d w1 w2 b] goes_on.hyps(2) h(1,3) kept show ?thesis by simp
    next
      case False
      with process_run.goes_on [OF h(1) unsignal_step [OF goes_on.hyps(2) h(2,3) False]] kept show ?thesis by simp
    qed
  qed (simp add: process_run.begins)
  then show ?thesis ..
qed

subsection \<open>Before the first load, and without a watcher\<close>

definition no_sites :: "process \<Rightarrow> bool" where
  "no_sites w \<longleftrightarrow>
     (case pr_watch w of Watching wt \<Rightarrow> False | _ \<Rightarrow> True) \<and> (\<forall>h. lookup_site (current_store (app_of w)) h = None)"

lemma no_sites_same: "no_sites w \<Longrightarrow> pr_watch w' = pr_watch w \<Longrightarrow> current_store (app_of w') = current_store (app_of w) \<Longrightarrow> no_sites w'"
  by (simp add: no_sites_def)

lemma route_request_store: "current_store (snd (route_request a req s)) = current_store s"
  using serve_http_shape [of "sy_router (ap_sys s)" "ar_transport a" "ar_tick a" "ar_writer a" req]
  by (simp add: route_request_def serve_request_def serve_step_def case_prod_beta current_store_def same_shape_def)

lemma serve_on_store: "l \<noteq> Admin \<Longrightarrow> current_store (snd (serve_on d l a s)) = current_store s"
  by (cases l) (simp_all add: serve_on_def Let_def route_request_store split: option.split)

lemma stop_router_store: "current_store (stop_router s) = current_store s"
  by (simp add: stop_router_def stop_def current_store_def)

lemma no_sites_step:
  assumes "process_step d k w w'" "no_sites w" "k \<noteq> Loads" "k \<noteq> Serves Admin"
  shows "no_sites w'"
  using assms(1)
proof (cases rule: process_step.cases)
  case (server k' v)
  with server_step_app(1) [OF server(5,4)] no_sites_same [OF assms(2), of w'] stop_router_store show ?thesis by auto
next
  case (serves l ns a)
  with assms(4) no_sites_same [OF assms(2), of w'] serve_on_store show ?thesis by auto
next
  case (files_change fs ns)
  with no_sites_same [OF assms(2), of w'] show ?thesis by (simp add: current_store_def)
next
  case (notice_lost fs ns)
  with no_sites_same [OF assms(2), of w'] show ?thesis by (simp add: current_store_def)
qed (use assms(2-) in \<open>auto simp: no_sites_def\<close>)

lemma no_sites_run:
  "process_run d ks w w' \<Longrightarrow> no_sites w \<Longrightarrow> Loads \<notin> set ks \<Longrightarrow> Serves Admin \<notin> set ks \<Longrightarrow> no_sites w'"
  by (induction rule: process_run.induct) (auto intro: no_sites_step)

text \<open>
  C36: without a load the proxy has no sites. The listeners open after a pause and not after the
  first load, and a watcher that cannot subscribe to the directory ends without a load while
  the program goes on: as long as the watcher has not loaded and no admin request has been
  served, every request to the proxy is answered 404, or 503 once it is stopping, whatever
  sites the files hold.\<close>
theorem unloaded_serves_nothing:
  assumes "cmd_serve ex now args fs = (Inr (d, s), fs')"
    and "process_run d ks (start_process s now) w" "Loads \<notin> set ks" "Serves Admin \<notin> set ks"
  shows "route_request a req (app_of w) =
    (Finished
       (if stopping (app_of w) then http_error ''Service Unavailable'' 503 (ar_writer a)
        else http_error (''No site configured for '' @ sanitize_host_for_log (rq_host req)) 404 (ar_writer a)),
     app_of w)"
proof -
  obtain f g fs1 where "build_components ex now f g fs1 = (Inr (d, s), fs')"
    using assms(1) by (rule cmd_serve_started)
  then obtain r acme where "s = \<lparr>ap_fs = fs', ap_sys = \<lparr>sy_router = new_router new_store new_registry r, sy_acme = acme\<rparr>\<rparr>"
    by (rule build_components_started) blast
  then have "no_sites (start_process s now)"
    by (simp add: no_sites_def start_process_def initial_life_def current_store_def new_router_def new_store_def
        lookup_site_def lookup_index_def)
  from no_sites_run [OF assms(2) this assms(3,4)] have "lookup_site (current_store (app_of w)) (rq_host req) = None"
    by (simp add: no_sites_def)
  then show ?thesis
    by (simp add: route_request_def serve_request_def serve_step_def serve_http_def current_store_def stopping_def)
qed

theorem unloaded_serves_nothing_witness:
  "\<exists>d s w. fst (cmd_serve sample_externals 0 [''--data'', ''/data''] sample_disk) = Inr (d, s) \<and>
     process_run d [Open_Fails, Time_Passes, Wakes] (start_process s 0) w \<and> pr_main w = Serving \<and>
     (\<forall>a req. \<exists>wr. fst (route_request a req (app_of w)) = Finished wr)"
proof -
  let ?run = "cmd_serve sample_externals 0 [''--data'', ''/data''] sample_disk"
  have "case fst ?run of Inl e \<Rightarrow> False | Inr ds \<Rightarrow> True" by code_simp
  then obtain d s where ds: "fst ?run = Inr (d, s)" by (auto split: sum.splits)
  then have run: "?run = (Inr (d, s), snd ?run)" by (metis prod.collapse)
  let ?w = "(start_process s 0)\<lparr>pr_watch := Unwatched\<rparr>"
  have "process_run d ([Open_Fails] @ [Time_Passes, Wakes]) (start_process s 0)
      (?w\<lparr>pr_life := (pr_life ?w)\<lparr>rv_now := pause\<rparr>, pr_main := Serving\<rparr>)"
    by (intro process_run_trans [OF wake_run process_run_one [OF process_step.open_fails]] start_alive)
      (simp_all add: start_process_def initial_life_def pause_def)
  then have p: "process_run d [Open_Fails, Time_Passes, Wakes] (start_process s 0)
      (?w\<lparr>pr_life := (pr_life ?w)\<lparr>rv_now := pause\<rparr>, pr_main := Serving\<rparr>)" (is "process_run d _ _ ?w1") by simp
  from unloaded_serves_nothing [OF run p] have "\<exists>wr. fst (route_request a req (app_of ?w1)) = Finished wr" for a req
    by auto
  with ds p show ?thesis by (intro exI [of _ d] exI [of _ s] exI [of _ ?w1]) simp
qed

end
